(* ===== verification/Tunnel_Prelude.thy ===== *)
theory Tunnel_Prelude
  imports "HOL-Library.Word"
begin

text \<open>
  Shared vocabulary of the development: bytes and 32-bit words, the big-endian integer
  helpers that the sources repeat (\<open>PutU32\<close>, \<open>ReadU32\<close> and the two-byte length fields),
  memory copies into a fixed buffer, and the codec interface from which every
  unambiguity and round-trip statement of the wire formats is derived.

  Sizes (\<open>size_t\<close>) are \<^typ>\<open>nat\<close>: every sum the code forms from them stays below
  the 32-bit range (all lengths read from the wire are 16-bit). Byte buffers are lists.
\<close>

unbundle bit_operations_syntax

section \<open>Bytes and words\<close>

type_synonym byte = "8 word"
type_synonym u32 = "32 word"

named_theorems wire_simps
  \<open>lengths and decodings of the wire encodings\<close>

lemma byte_bit_lt: "bit (b :: byte) n \<Longrightarrow> n < 8"
  using bit_imp_le_length [of b n] by simp

lemma u32_bit_lt: "bit (v :: u32) n \<Longrightarrow> n < 32"
  using bit_imp_le_length [of v n] by simp

lemma unat_byte_lt [simp]: "unat (b :: byte) < 256"
  by (rule less_le_trans [OF unsigned_less]) simp

lemma byte_bit_ge [simp]: "8 \<le> n \<Longrightarrow> \<not> bit (b :: byte) n"
  using byte_bit_lt [of b n] by linarith

lemma u32_bit_ge [simp]: "32 \<le> n \<Longrightarrow> \<not> bit (v :: u32) n"
  using u32_bit_lt [of v n] by linarith

section \<open>Big-endian integers\<close>

text \<open>\<open>PutU32\<close>: the four bytes of a 32-bit value, most significant first.\<close>

definition PutU32 :: "u32 \<Rightarrow> byte list" where
  "PutU32 v = [ucast (drop_bit 24 v), ucast (drop_bit 16 v), ucast (drop_bit 8 v), ucast v]"

text \<open>\<open>ReadU32\<close>: the inverse, over the four bytes at \<open>p\<close>.\<close>

definition ReadU32 :: "byte list \<Rightarrow> u32" where
  "ReadU32 p =
     push_bit 24 (ucast (p ! 0)) OR push_bit 16 (ucast (p ! 1)) OR
     push_bit 8 (ucast (p ! 2)) OR ucast (p ! 3)"

text \<open>
  The two-byte length fields: \<open>static_cast<uint8_t>(n >> 8)\<close> then
  \<open>static_cast<uint8_t>(n & 0xFF)\<close>, and \<open>(size_t(p[0]) << 8) | p[1]\<close>.
\<close>

definition put_u16 :: "nat \<Rightarrow> byte list" where
  "put_u16 n = [word_of_nat (drop_bit 8 n), word_of_nat (n AND 255)]"

definition read_u16 :: "byte \<Rightarrow> byte \<Rightarrow> nat" where
  "read_u16 hi lo = push_bit 8 (unat hi) OR unat lo"

text \<open>A \<open>uint32_t\<close> as it lies in memory on the (little-endian) target.\<close>

definition u32_mem :: "u32 \<Rightarrow> byte list" where
  "u32_mem v = [ucast v, ucast (drop_bit 8 v), ucast (drop_bit 16 v), ucast (drop_bit 24 v)]"

definition mem_u32 :: "byte list \<Rightarrow> u32" where
  "mem_u32 p =
     ucast (p ! 0) OR push_bit 8 (ucast (p ! 1)) OR
     push_bit 16 (ucast (p ! 2)) OR push_bit 24 (ucast (p ! 3))"

text \<open>
  Copying \<open>new\<close> over the front of a buffer leaves the bytes behind it as they were. A copy is
  always asked for at most the size of the buffer.
\<close>

definition overlay :: "byte list \<Rightarrow> byte list \<Rightarrow> byte list" where
  "overlay old new = take (length old) new @ drop (length new) old"

lemma overlay_same_length [simp]: "length new = length old \<Longrightarrow> overlay old new = new"
  by (simp add: overlay_def)

lemma length_overlay [simp]: "length (overlay old new) = length old"
  by (simp add: overlay_def)

lemma take_overlay [simp]: "length new \<le> length old \<Longrightarrow> take (length new) (overlay old new) = new"
  by (simp add: overlay_def)

lemma u32_byte_split:
  assumes "n < (32 :: nat)"
  obtains "n < 8" | "8 \<le> n" "n < 16" | "16 \<le> n" "n < 24" | "24 \<le> n" "n < 32"
  using assms by fastforce

lemma ReadU32_PutU32 [simp, wire_simps]: "ReadU32 (PutU32 v @ rest) = v"
proof (rule bit_word_eqI)
  fix n assume "n < LENGTH(32)"
  then have "n < 32" by simp
  then show "bit (ReadU32 (PutU32 v @ rest)) n = bit v n"
    by (rule u32_byte_split)
      (auto simp: ReadU32_def PutU32_def nth_append bit_simps dest: u32_bit_lt)
qed

lemma PutU32_ReadU32: "PutU32 (ReadU32 [a, b, c, d]) = [a, b, c, d]"
  unfolding PutU32_def ReadU32_def
  by (auto intro!: bit_word_eqI simp: bit_simps)

lemma mem_u32_u32_mem [simp]: "mem_u32 (u32_mem v) = v"
proof (rule bit_word_eqI)
  fix n assume "n < LENGTH(32)"
  then have "n < 32" by simp
  then show "bit (mem_u32 (u32_mem v)) n = bit v n"
    by (rule u32_byte_split)
      (auto simp: mem_u32_def u32_mem_def nth_append bit_simps dest: u32_bit_lt)
qed

lemma length_PutU32 [simp, wire_simps]: "length (PutU32 v) = 4"
  by (simp add: PutU32_def)

lemma length_u32_mem [simp]: "length (u32_mem v) = 4"
  by (simp add: u32_mem_def)

lemma length_put_u16 [simp, wire_simps]: "length (put_u16 n) = 2"
  by (simp add: put_u16_def)

lemma nat_and_255: "n AND 255 = n mod (256 :: nat)"
  using take_bit_eq_mask [of 8 n] by (simp add: take_bit_eq_mod mask_eq_exp_minus_1)

lemma read_u16_eq: "read_u16 hi lo = unat hi * 256 + unat lo"
proof -
  have "push_bit 8 (unat hi) AND unat lo = 0"
    by (rule bit_eqI) (auto simp: bit_simps dest: byte_bit_lt)
  then have "push_bit 8 (unat hi) OR unat lo = push_bit 8 (unat hi) + unat lo"
    by (simp add: disjunctive_add_eq_or)
  then show ?thesis by (simp add: read_u16_def push_bit_eq_mult)
qed

lemma read_u16_lt: "read_u16 hi lo < 65536"
  using unat_byte_lt [of hi] unat_byte_lt [of lo] unfolding read_u16_eq by linarith

lemma read_u16_put_u16: "n < 65536 \<Longrightarrow> read_u16 (put_u16 n ! 0) (put_u16 n ! 1) = n"
  by (simp add: read_u16_eq put_u16_def nat_and_255 drop_bit_eq_div unat_of_nat)

lemma put_u16_read_u16: "put_u16 (read_u16 hi lo) = [hi, lo]"
  by (simp add: put_u16_def nat_and_255 drop_bit_eq_div read_u16_eq div_add1_eq)

section \<open>The codec interface\<close>

text \<open>
  An encoder and a remaining-returning decoder. The one law is that decoding undoes
  encoding whatever bytes follow; that the encoding is unambiguous under concatenation,
  and that sequences of encodings are, follows here once for every format.
\<close>

locale prefix_codec =
  fixes enc :: "'a \<Rightarrow> byte list"
    and dec :: "byte list \<Rightarrow> ('a \<times> byte list) option"
    and valid :: "'a \<Rightarrow> bool"
  assumes dec_enc: "valid x \<Longrightarrow> dec (enc x @ rest) = Some (x, rest)"
begin

lemma enc_append_inject:
  assumes "valid x" "valid y" "enc x @ r = enc y @ s"
  shows "x = y \<and> r = s"
proof -
  have "Some (x, r) = dec (enc x @ r)" by (simp only: dec_enc [OF assms(1)])
  also have "\<dots> = dec (enc y @ s)" by (simp only: assms(3))
  also have "\<dots> = Some (y, s)" by (simp only: dec_enc [OF assms(2)])
  finally show ?thesis by simp
qed

lemma enc_inject: "valid x \<Longrightarrow> valid y \<Longrightarrow> enc x = enc y \<longleftrightarrow> x = y"
  using enc_append_inject [of x y "[]" "[]"] by auto

lemma enc_prefix_free: "valid x \<Longrightarrow> valid y \<Longrightarrow> enc x @ r = enc y \<Longrightarrow> r = []"
  using enc_append_inject [of x y r "[]"] by simp

lemma concat_enc_inject:
  "\<lbrakk>list_all valid xs; list_all valid ys; length xs = length ys;
    concat (map enc xs) @ r = concat (map enc ys) @ s\<rbrakk> \<Longrightarrow> xs = ys \<and> r = s"
proof (induction xs ys rule: list_induct2')
  case (4 x xs y ys)
  then have "x = y \<and> concat (map enc xs) @ r = concat (map enc ys) @ s"
    by (intro enc_append_inject) simp_all
  with 4 show ?case by simp
qed simp_all

end

text \<open>A codec all of whose encodings have the same length.\<close>

locale fixed_codec = prefix_codec enc dec valid
  for enc :: "'a \<Rightarrow> byte list" and dec :: "byte list \<Rightarrow> ('a \<times> byte list) option"
    and valid :: "'a \<Rightarrow> bool" +
  fixes width :: nat
  assumes enc_length: "length (enc x) = width"
begin

lemma concat_enc_length: "length (concat (map enc xs)) = width * length xs"
  by (induction xs) (simp_all add: enc_length)

lemma fixed_append_inject:
  assumes "valid x" "valid y" "enc x @ r = enc y @ s"
  shows "x = y \<and> r = s \<and> length r = length s"
  using enc_append_inject [OF assms] by simp

end

text \<open>The decoders that go with the two integer encodings and with length-prefixed fields.\<close>

fun take_u8 :: "byte list \<Rightarrow> (byte \<times> byte list) option" where
  "take_u8 [] = None"
| "take_u8 (b # bs) = Some (b, bs)"

definition take_u32 :: "byte list \<Rightarrow> (u32 \<times> byte list) option" where
  "take_u32 bs = (if length bs < 4 then None else Some (ReadU32 bs, drop 4 bs))"

definition put_field :: "byte list \<Rightarrow> byte list" where
  "put_field s = put_u16 (length s) @ s"

definition take_field :: "byte list \<Rightarrow> (byte list \<times> byte list) option" where
  "take_field bs =
     (if length bs < 2 then None
      else let n = read_u16 (bs ! 0) (bs ! 1)
           in if length bs < 2 + n then None
              else Some (take n (drop 2 bs), drop (2 + n) bs))"

lemma length_put_field [simp, wire_simps]: "length (put_field s) = 2 + length s"
  by (simp add: put_field_def)

interpretation u8_codec: fixed_codec "\<lambda>b. [b]" take_u8 "\<lambda>_. True" 1
  by unfold_locales simp_all

interpretation u32_codec: fixed_codec PutU32 take_u32 "\<lambda>_. True" 4
  by unfold_locales (simp_all add: take_u32_def)

lemma take_field_put_field [simp, wire_simps]:
  assumes "length s < 65536"
  shows "take_field (put_field s @ rest) = Some (s, rest)"
proof -
  have two: "put_u16 n @ xs = put_u16 n ! 0 # put_u16 n ! 1 # xs" for n xs
    by (simp add: put_u16_def)
  show ?thesis
    using assms read_u16_put_u16 [OF assms]
    by (simp add: take_field_def put_field_def two del: append.simps) (simp add: two)
qed

interpretation field_codec: prefix_codec put_field take_field "\<lambda>s. length s < 65536"
  by unfold_locales simp

end
