(* ===== verification/Platform.thy ===== *)
theory Platform
  imports Tunnel_Prelude
begin

text \<open>
  The code under \<open>lib/tunnel\<close> calls: the Zephyr settings subsystem, PSA Crypto, the Matter
  device-attestation credentials provider, the kernel clock and the DWT cycle counter.
  None of it is part of the repository, so it is a parameter: a record of functions over an
  abstract state \<open>'e\<close> of everything outside the component. What the component relies on is
  stated as named predicates over such a record; every property that needs one has it as a
  hypothesis.
\<close>

section \<open>Error codes and PSA values the sources name\<close>

datatype chip_error =
    CHIP_NO_ERROR
  | CHIP_ERROR_BUFFER_TOO_SMALL
  | CHIP_ERROR_INTERNAL
  | CHIP_ERROR_INVALID_ARGUMENT
  | CHIP_ERROR_INCORRECT_STATE
  | CHIP_ERROR_ACCESS_DENIED
  | CHIP_ERROR_PERSISTED_STORAGE_FAILED
  | CHIP_ERROR_OTHER nat  \<comment> \<open>any error a provider outside the repository returns\<close>

abbreviation (input) PSA_SUCCESS :: int where "PSA_SUCCESS \<equiv> 0"
abbreviation (input) PSA_ERROR_BAD_STATE :: int where "PSA_ERROR_BAD_STATE \<equiv> -137"
abbreviation (input) PSA_KEY_ID_NULL :: u32 where "PSA_KEY_ID_NULL \<equiv> 0"
abbreviation (input) EINVAL :: int where "EINVAL \<equiv> 22"
abbreviation (input) EIO :: int where "EIO \<equiv> 5"

datatype psa_alg = PSA_ALG_PURE_EDDSA | PSA_ALG_ECDSA_SHA_256
datatype ecc_family = PSA_ECC_FAMILY_TWISTED_EDWARDS | PSA_ECC_FAMILY_SECP_R1
datatype key_type = ECC_KEY_PAIR ecc_family | ECC_PUBLIC_KEY ecc_family
datatype key_usage =
  PSA_KEY_USAGE_SIGN_MESSAGE | PSA_KEY_USAGE_VERIFY_MESSAGE | PSA_KEY_USAGE_EXPORT
datatype key_lifetime = PSA_KEY_LIFETIME_VOLATILE | PSA_KEY_LIFETIME_PERSISTENT

record key_attributes =
  ka_usage :: "key_usage list"
  ka_alg :: psa_alg
  ka_type :: key_type
  ka_bits :: nat
  ka_lifetime :: key_lifetime
  ka_id :: u32

text \<open>
  One call that \<open>settings_load_subtree_direct\<close> makes to the load callback: the stored
  length, what \<open>read_cb\<close> returns when asked for that many bytes, and the bytes it copies.
\<close>

record load_call =
  lc_len :: nat
  lc_ret :: int
  lc_data :: "byte list"

section \<open>The calls\<close>

record 'e platform =
  settings_subsys_init :: "'e \<Rightarrow> int \<times> 'e"
  settings_load_subtree_direct :: "string \<Rightarrow> 'e \<Rightarrow> load_call list \<times> int \<times> 'e"
  settings_save_one :: "string \<Rightarrow> byte list \<Rightarrow> 'e \<Rightarrow> int \<times> 'e"
  psa_crypto_init :: "'e \<Rightarrow> int \<times> 'e"
  psa_get_key_attributes :: "u32 \<Rightarrow> 'e \<Rightarrow> int \<times> 'e"
  psa_generate_key :: "key_attributes \<Rightarrow> 'e \<Rightarrow> int \<times> u32 \<times> 'e"
  psa_export_public_key :: "u32 \<Rightarrow> nat \<Rightarrow> 'e \<Rightarrow> int \<times> byte list \<times> 'e"
  psa_sign_message :: "u32 \<Rightarrow> psa_alg \<Rightarrow> byte list \<Rightarrow> nat \<Rightarrow> 'e \<Rightarrow> int \<times> byte list \<times> 'e"
  psa_verify_message :: "u32 \<Rightarrow> psa_alg \<Rightarrow> byte list \<Rightarrow> byte list \<Rightarrow> 'e \<Rightarrow> int \<times> 'e"
  psa_import_key :: "key_attributes \<Rightarrow> byte list \<Rightarrow> 'e \<Rightarrow> int \<times> u32 \<times> 'e"
  psa_destroy_key :: "u32 \<Rightarrow> 'e \<Rightarrow> int \<times> 'e"
  dac_provider_present :: "'e \<Rightarrow> bool"
  SignWithDeviceAttestationKey :: "byte list \<Rightarrow> nat \<Rightarrow> 'e \<Rightarrow> chip_error \<times> byte list \<times> 'e"
  GetDeviceAttestationCert :: "nat \<Rightarrow> 'e \<Rightarrow> chip_error \<times> byte list \<times> 'e"
  GetProductAttestationIntermediateCert :: "nat \<Rightarrow> 'e \<Rightarrow> chip_error \<times> byte list \<times> 'e"
  k_uptime_get :: "'e \<Rightarrow> int"
  dwt_enable :: "'e \<Rightarrow> 'e"
  dwt_cyccnt :: "'e \<Rightarrow> u32 \<times> 'e"

text \<open>The arguments that are numbers of bytes are the sizes of the caller's output buffers.\<close>

section \<open>What the component relies on\<close>

text \<open>
  \<open>steps_by P R\<close>: every call other than \<open>settings_save_one\<close> and \<open>psa_destroy_key\<close> moves the
  outside state along \<open>R\<close>. Instantiated with equality of an observation it says that only
  those two calls may change it.
\<close>

definition steps_by :: "'e platform \<Rightarrow> ('e \<Rightarrow> 'e \<Rightarrow> bool) \<Rightarrow> bool" where
  "steps_by P R \<longleftrightarrow>
     (\<forall>e. R e (snd (settings_subsys_init P e))) \<and>
     (\<forall>k e. R e (snd (snd (settings_load_subtree_direct P k e)))) \<and>
     (\<forall>e. R e (snd (psa_crypto_init P e))) \<and>
     (\<forall>k e. R e (snd (psa_get_key_attributes P k e))) \<and>
     (\<forall>a e. R e (snd (snd (psa_generate_key P a e)))) \<and>
     (\<forall>k n e. R e (snd (snd (psa_export_public_key P k n e)))) \<and>
     (\<forall>k a m n e. R e (snd (snd (psa_sign_message P k a m n e)))) \<and>
     (\<forall>k a m s e. R e (snd (psa_verify_message P k a m s e))) \<and>
     (\<forall>a k e. R e (snd (snd (psa_import_key P a k e)))) \<and>
     (\<forall>m n e. R e (snd (snd (SignWithDeviceAttestationKey P m n e)))) \<and>
     (\<forall>n e. R e (snd (snd (GetDeviceAttestationCert P n e)))) \<and>
     (\<forall>n e. R e (snd (snd (GetProductAttestationIntermediateCert P n e)))) \<and>
     (\<forall>e. R e (dwt_enable P e)) \<and>
     (\<forall>e. R e (snd (dwt_cyccnt P e)))"

text \<open>
  Flash. \<open>stored\<close> reads the settings partition off the outside state: a successful save
  stores the value, a failed one stores it or leaves the old value, and nothing else in the
  list above writes to the partition. \<open>flash_reliable\<close> adds that initialisation and saves
  succeed and that a load reports exactly the stored value.
\<close>

definition flash_ok :: "'e platform \<Rightarrow> ('e \<Rightarrow> string \<Rightarrow> byte list option) \<Rightarrow> bool" where
  "flash_ok P stored \<longleftrightarrow>
     steps_by P (\<lambda>e e'. stored e' = stored e) \<and>
     (\<forall>k e. stored (snd (psa_destroy_key P k e)) = stored e) \<and>
     (\<forall>k v e. case settings_save_one P k v e of (rc, e') \<Rightarrow>
        (if rc = 0 then stored e' = (stored e)(k \<mapsto> v)
         else stored e' = stored e \<or> stored e' = (stored e)(k \<mapsto> v)))"

definition loads_faithfully ::
  "'e platform \<Rightarrow> ('e \<Rightarrow> string \<Rightarrow> byte list option) \<Rightarrow> bool" where
  "loads_faithfully P stored \<longleftrightarrow>
     (\<forall>k e. fst (settings_load_subtree_direct P k e) =
        (case stored e k of None \<Rightarrow> []
         | Some v \<Rightarrow> [\<lparr>lc_len = length v, lc_ret = int (length v), lc_data = v\<rparr>]))"

definition flash_reliable ::
  "'e platform \<Rightarrow> ('e \<Rightarrow> string \<Rightarrow> byte list option) \<Rightarrow> bool" where
  "flash_reliable P stored \<longleftrightarrow>
     flash_ok P stored \<and> loads_faithfully P stored \<and>
     (\<forall>e. fst (settings_subsys_init P e) = 0) \<and>
     (\<forall>k v e. fst (settings_save_one P k v e) = 0)"

text \<open>
  Output buffers: a successful call writes at most as many bytes as the caller offered, and
  a signature, when made, is not empty.
\<close>

definition lengths_ok :: "'e platform \<Rightarrow> bool" where
  "lengths_ok P \<longleftrightarrow>
     (\<forall>k n e. case psa_export_public_key P k n e of (st, bs, e') \<Rightarrow>
        st = PSA_SUCCESS \<longrightarrow> length bs \<le> n) \<and>
     (\<forall>k a m n e. case psa_sign_message P k a m n e of (st, bs, e') \<Rightarrow>
        st = PSA_SUCCESS \<longrightarrow> length bs \<le> n) \<and>
     (\<forall>m n e. case SignWithDeviceAttestationKey P m n e of (err, bs, e') \<Rightarrow>
        err = CHIP_NO_ERROR \<longrightarrow> length bs \<le> n) \<and>
     (\<forall>n e. case GetDeviceAttestationCert P n e of (err, bs, e') \<Rightarrow>
        err = CHIP_NO_ERROR \<longrightarrow> length bs \<le> n) \<and>
     (\<forall>n e. case GetProductAttestationIntermediateCert P n e of (err, bs, e') \<Rightarrow>
        err = CHIP_NO_ERROR \<longrightarrow> length bs \<le> n)"

text \<open>
  Keys. \<open>pubkey e h\<close> is the public key behind handle \<open>h\<close>, \<open>valid_sig\<close> the signature
  predicate of the algorithm. Importing binds a fresh non-null handle to the given bytes, no
  call but \<open>psa_destroy_key\<close> unbinds one (and that one only), a verification that succeeds
  is a valid signature under the key behind its handle.
\<close>

definition keys_ok ::
  "'e platform \<Rightarrow> ('e \<Rightarrow> u32 \<Rightarrow> byte list option) \<Rightarrow>
   (psa_alg \<Rightarrow> byte list \<Rightarrow> byte list \<Rightarrow> byte list \<Rightarrow> bool) \<Rightarrow> bool" where
  "keys_ok P pubkey valid_sig \<longleftrightarrow>
     steps_by P (\<lambda>e e'. pubkey e \<subseteq>\<^sub>m pubkey e') \<and>
     (\<forall>k v e. pubkey e \<subseteq>\<^sub>m pubkey (snd (settings_save_one P k v e))) \<and>
     (\<forall>h h' e. h' \<noteq> h \<longrightarrow> pubkey (snd (psa_destroy_key P h e)) h' = pubkey e h') \<and>
     (\<forall>a k e. case psa_import_key P a k e of (st, h, e') \<Rightarrow>
        st = PSA_SUCCESS \<longrightarrow> h \<noteq> PSA_KEY_ID_NULL \<and> pubkey e' h = Some k) \<and>
     (\<forall>a k e. case psa_import_key P a k e of (st, h, e') \<Rightarrow>
        st \<noteq> PSA_SUCCESS \<longrightarrow> h = PSA_KEY_ID_NULL) \<and>
     (\<forall>h a m s e. fst (psa_verify_message P h a m s e) = PSA_SUCCESS \<longrightarrow>
        (\<exists>k. pubkey e h = Some k \<and> valid_sig a k m s))"

section \<open>Consequences, one per call\<close>

lemma steps_byD:
  assumes "steps_by P R"
  shows "settings_subsys_init P e = (rc, e') \<Longrightarrow> R e e'"
    and "settings_load_subtree_direct P k e = (calls, rc, e') \<Longrightarrow> R e e'"
    and "psa_crypto_init P e = (rc, e') \<Longrightarrow> R e e'"
    and "psa_get_key_attributes P h e = (rc, e') \<Longrightarrow> R e e'"
    and "psa_generate_key P a e = (rc, h, e') \<Longrightarrow> R e e'"
    and "psa_export_public_key P h n e = (rc, bs, e') \<Longrightarrow> R e e'"
    and "psa_sign_message P h alg m n e = (rc, bs, e') \<Longrightarrow> R e e'"
    and "psa_verify_message P h alg m s e = (rc, e') \<Longrightarrow> R e e'"
    and "psa_import_key P a kb e = (rc, h, e') \<Longrightarrow> R e e'"
    and "SignWithDeviceAttestationKey P m n e = (err, bs, e') \<Longrightarrow> R e e'"
    and "GetDeviceAttestationCert P n e = (err, bs, e') \<Longrightarrow> R e e'"
    and "GetProductAttestationIntermediateCert P n e = (err, bs, e') \<Longrightarrow> R e e'"
    and "dwt_enable P e = e' \<Longrightarrow> R e e'"
    and "dwt_cyccnt P e = (v, e') \<Longrightarrow> R e e'"
  using assms unfolding steps_by_def by (metis snd_conv)+

lemma flash_okD:
  assumes "flash_ok P stored"
  shows "steps_by P (\<lambda>e e'. stored e' = stored e)"
    and "psa_destroy_key P h e = (rc, e') \<Longrightarrow> stored e' = stored e"
    and "settings_save_one P k v e = (rc, e') \<Longrightarrow> k' \<noteq> k \<Longrightarrow> stored e' k' = stored e k'"
    and "settings_save_one P k v e = (rc, e') \<Longrightarrow> stored e' k = stored e k \<or> stored e' k = Some v"
    and "settings_save_one P k v e = (0, e') \<Longrightarrow> stored e' k = Some v"
proof -
  show "steps_by P (\<lambda>e e'. stored e' = stored e)"
    using assms by (simp add: flash_ok_def)
  show "psa_destroy_key P h e = (rc, e') \<Longrightarrow> stored e' = stored e"
    using assms unfolding flash_ok_def by (metis snd_conv)
  have save: "(case settings_save_one P k v e of (rc, e') \<Rightarrow>
        (if rc = 0 then stored e' = (stored e)(k \<mapsto> v)
         else stored e' = stored e \<or> stored e' = (stored e)(k \<mapsto> v)))"
    using assms by (simp add: flash_ok_def)
  show "settings_save_one P k v e = (rc, e') \<Longrightarrow> k' \<noteq> k \<Longrightarrow> stored e' k' = stored e k'"
    and "settings_save_one P k v e = (rc, e') \<Longrightarrow> stored e' k = stored e k \<or> stored e' k = Some v"
    and "settings_save_one P k v e = (0, e') \<Longrightarrow> stored e' k = Some v"
    using save by (auto split: if_splits)
qed

lemma loads_faithfullyD:
  assumes "loads_faithfully P stored"
    and "settings_load_subtree_direct P k e = (calls, rc, e')"
  shows "stored e k = None \<Longrightarrow> calls = []"
    and "stored e k = Some v \<Longrightarrow>
      calls = [\<lparr>lc_len = length v, lc_ret = int (length v), lc_data = v\<rparr>]"
  using assms(1) [unfolded loads_faithfully_def, rule_format, of k e] assms(2) by simp_all

lemma flash_reliableD:
  assumes "flash_reliable P stored"
  shows "flash_ok P stored"
    and "settings_subsys_init P e = (rc, e') \<Longrightarrow> rc = 0"
    and "settings_save_one P k v e = (rc, e') \<Longrightarrow> rc = 0"
    and "loads_faithfully P stored"
  using assms unfolding flash_reliable_def by (metis fst_conv)+

lemma lengths_okD:
  assumes "lengths_ok P"
  shows "psa_export_public_key P h n e = (0, bs, e') \<Longrightarrow> length bs \<le> n"
    and "psa_sign_message P h a m n e = (0, bs, e') \<Longrightarrow> length bs \<le> n"
    and "SignWithDeviceAttestationKey P m n e = (CHIP_NO_ERROR, bs, e') \<Longrightarrow> length bs \<le> n"
    and "GetDeviceAttestationCert P n e = (CHIP_NO_ERROR, bs, e') \<Longrightarrow> length bs \<le> n"
    and "GetProductAttestationIntermediateCert P n e = (CHIP_NO_ERROR, bs, e') \<Longrightarrow> length bs \<le> n"
  using assms unfolding lengths_ok_def by (metis (mono_tags, lifting) case_prod_conv)+

lemma keys_okD:
  assumes "keys_ok P pubkey valid_sig"
  shows "steps_by P (\<lambda>e e'. pubkey e \<subseteq>\<^sub>m pubkey e')"
    and "settings_save_one P k v e = (rc, e') \<Longrightarrow> pubkey e \<subseteq>\<^sub>m pubkey e'"
    and "psa_destroy_key P h e = (rc, e') \<Longrightarrow> h' \<noteq> h \<Longrightarrow> pubkey e' h' = pubkey e h'"
    and "psa_import_key P a kb e = (0, h, e') \<Longrightarrow> h \<noteq> 0 \<and> pubkey e' h = Some kb"
    and "psa_import_key P a kb e = (st, h, e') \<Longrightarrow> st \<noteq> 0 \<Longrightarrow> h = 0"
    and "psa_verify_message P h alg m s e = (0, e') \<Longrightarrow>
      \<exists>kb. pubkey e h = Some kb \<and> valid_sig alg kb m s"
proof -
  show "steps_by P (\<lambda>e e'. pubkey e \<subseteq>\<^sub>m pubkey e')"
    using assms by (simp add: keys_ok_def)
  show "settings_save_one P k v e = (rc, e') \<Longrightarrow> pubkey e \<subseteq>\<^sub>m pubkey e'"
    using assms unfolding keys_ok_def by (metis snd_conv)
  show "psa_destroy_key P h e = (rc, e') \<Longrightarrow> h' \<noteq> h \<Longrightarrow> pubkey e' h' = pubkey e h'"
    using assms unfolding keys_ok_def by (metis snd_conv)
  show "psa_import_key P a kb e = (0, h, e') \<Longrightarrow> h \<noteq> 0 \<and> pubkey e' h = Some kb"
    using assms unfolding keys_ok_def by (metis (mono_tags, lifting) case_prod_conv)
  show "psa_import_key P a kb e = (st, h, e') \<Longrightarrow> st \<noteq> 0 \<Longrightarrow> h = 0"
    using assms unfolding keys_ok_def by (metis (mono_tags, lifting) case_prod_conv)
  show "psa_verify_message P h alg m s e = (0, e') \<Longrightarrow>
      \<exists>kb. pubkey e h = Some kb \<and> valid_sig alg kb m s"
    using assms unfolding keys_ok_def by (metis fst_conv)
qed

end
