(* ===== verification/Envelope.thy ===== *)
theory Envelope
  imports Platform
begin

text \<open>
  \<open>tunnel_envelope.h\<close> and \<open>tunnel_envelope.cpp\<close>: the signature preimage. The result is the
  error code and the bytes \<open>out\<close> is reduced to; on an error nothing is written. The
  lemmas say which bytes they are and that no two different field tuples share a preimage.
\<close>

section \<open>Constants\<close>

definition kDirRequest :: byte where "kDirRequest = 0x02"
definition kDirResponse :: byte where "kDirResponse = 0x03"

definition kClusterId :: u32 where "kClusterId = 0xFFF1FC02"
definition kCommandId :: u32 where "kCommandId = 0xFFF10000"

definition kDomainTag :: "byte list" where "kDomainTag = map of_char ''MTUNv1''"
definition kDomainTagLen :: nat where "kDomainTagLen = length kDomainTag"

section \<open>BuildPreimage\<close>

definition BuildPreimage ::
  "byte \<Rightarrow> u32 \<Rightarrow> byte list \<Rightarrow> byte list \<Rightarrow> nat \<Rightarrow> chip_error \<times> byte list" where
  "BuildPreimage direction counter deviceKey payload out_size =
     (let need = kDomainTagLen + 1 + 4 + 4 + 4 + 2 + length deviceKey + length payload
      in if \<not> out_size \<ge> need then (CHIP_ERROR_BUFFER_TOO_SMALL, [])
         else (CHIP_NO_ERROR,
               kDomainTag
               @ [direction]
               @ PutU32 counter
               @ PutU32 kClusterId
               @ PutU32 kCommandId
               @ put_u16 (length deviceKey) @ deviceKey
               @ payload))"

section \<open>What the preimage determines\<close>

text \<open>
  The preimage read back, as a verifier would: the fields after the domain tag, each by its
  own decoder. The cluster and command identifiers must be the two constants.
\<close>

definition read_preimage :: "byte list \<Rightarrow> (byte \<times> u32 \<times> byte list \<times> byte list) option" where
  "read_preimage bs =
     (if take kDomainTagLen bs \<noteq> kDomainTag then None
      else case take_u8 (drop kDomainTagLen bs) of None \<Rightarrow> None | Some (dir, bs1) \<Rightarrow>
        (case take_u32 bs1 of None \<Rightarrow> None | Some (counter, bs2) \<Rightarrow>
          (case take_u32 bs2 of None \<Rightarrow> None | Some (cluster, bs3) \<Rightarrow>
            (case take_u32 bs3 of None \<Rightarrow> None | Some (command, bs4) \<Rightarrow>
              if cluster \<noteq> kClusterId \<or> command \<noteq> kCommandId then None
              else (case take_field bs4 of None \<Rightarrow> None | Some (key, payload) \<Rightarrow>
                Some (dir, counter, key, payload))))))"

lemma kDomainTagLen_eq [simp]: "kDomainTagLen = 6"
  by (simp add: kDomainTagLen_def kDomainTag_def)

lemma length_kDomainTag [simp]: "length kDomainTag = 6"
  by (simp add: kDomainTag_def)

lemma BuildPreimage_success_iff:
  "fst (BuildPreimage dir c k p n) = CHIP_NO_ERROR \<longleftrightarrow> 21 + length k + length p \<le> n"
  by (simp add: BuildPreimage_def Let_def)

lemma BuildPreimage_okD:
  assumes "BuildPreimage dir c k p n = (CHIP_NO_ERROR, m)"
  shows "m = kDomainTag @ [dir] @ PutU32 c @ PutU32 kClusterId @ PutU32 kCommandId
             @ put_field k @ p"
    and "length m = 21 + length k + length p"
    and "length m \<le> n"
  using assms
  by (auto simp: BuildPreimage_def Let_def put_field_def simp del: kDomainTagLen_eq
      split: if_splits) simp

lemma read_preimage_fields:
  "length k < 65536 \<Longrightarrow>
   read_preimage (kDomainTag @ [dir] @ PutU32 c @ PutU32 kClusterId @ PutU32 kCommandId
     @ put_field k @ p) = Some (dir, c, k, p)"
  using u32_codec.dec_enc by (simp add: read_preimage_def)

lemma read_preimage_BuildPreimage:
  assumes "BuildPreimage dir c k p n = (CHIP_NO_ERROR, m)" and "length k < 65536"
  shows "read_preimage m = Some (dir, c, k, p)"
  using BuildPreimage_okD(1) [OF assms(1)] read_preimage_fields [OF assms(2)] by simp

lemma BuildPreimage_inject:
  assumes "BuildPreimage dir c k p n = (CHIP_NO_ERROR, m)" and "length k < 65536"
    and "BuildPreimage dir' c' k' p' n' = (CHIP_NO_ERROR, m)" and "length k' < 65536"
  shows "dir = dir' \<and> c = c' \<and> k = k' \<and> p = p'"
  using read_preimage_BuildPreimage [OF assms(1,2)] read_preimage_BuildPreimage [OF assms(3,4)]
  by simp

text \<open>The buffers are small enough for this to need nothing of the key.\<close>

lemma BuildPreimage_counter:
  assumes m: "BuildPreimage dir c k p n = (CHIP_NO_ERROR, m)" "BuildPreimage dir' c' k' p' n' = (CHIP_NO_ERROR, m)"
    and n: "n \<le> 700" "n' \<le> 700"
  shows "c = c'"
proof -
  have "21 + length k + length p \<le> n" "21 + length k' + length p' \<le> n'"
    using BuildPreimage_success_iff [of dir c k p n] BuildPreimage_success_iff [of dir' c' k' p' n'] m
    by simp_all
  then have "length k < 65536" "length k' < 65536" using n by simp_all
  with BuildPreimage_inject m show ?thesis by blast
qed

lemma directions_differ [simp]: "kDirRequest \<noteq> kDirResponse"
  by (simp add: kDirRequest_def kDirResponse_def)

text \<open>
  The preimage seen as an instance of the codec interface, its last field (the payload,
  which has no length of its own) being the rest of the input.
\<close>

definition preimage_head :: "byte \<times> u32 \<times> byte list \<Rightarrow> byte list" where
  "preimage_head x = (case x of (dir, c, k) \<Rightarrow>
     kDomainTag @ [dir] @ PutU32 c @ PutU32 kClusterId @ PutU32 kCommandId @ put_field k)"

definition read_head :: "byte list \<Rightarrow> ((byte \<times> u32 \<times> byte list) \<times> byte list) option" where
  "read_head bs = map_option (\<lambda>(dir, c, k, p). ((dir, c, k), p)) (read_preimage bs)"

interpretation preimage_codec:
  prefix_codec preimage_head read_head "\<lambda>x. length (snd (snd x)) < 65536"
  by unfold_locales (auto simp: preimage_head_def read_head_def read_preimage_fields [simplified])

lemma BuildPreimage_head:
  "BuildPreimage dir c k p n = (CHIP_NO_ERROR, m) \<Longrightarrow> m = preimage_head (dir, c, k) @ p"
  using BuildPreimage_okD(1) by (fastforce simp: preimage_head_def)

text \<open>A signature made for one device never serves another, whatever payloads an attacker picks.\<close>

lemma preimage_device_bound:
  assumes "BuildPreimage dir c k p n = (CHIP_NO_ERROR, m)" "length k < 65536"
    and "BuildPreimage dir' c' k' p' n' = (CHIP_NO_ERROR, m')" "length k' < 65536"
    and "k \<noteq> k'"
  shows "m @ x \<noteq> m' @ y"
proof
  assume eq: "m @ x = m' @ y"
  have "preimage_head (dir, c, k) @ p @ x = preimage_head (dir', c', k') @ p' @ y"
    using eq by (simp add: BuildPreimage_head [OF assms(1)] BuildPreimage_head [OF assms(3)])
  then have "(dir, c, k) = (dir', c', k')"
    using preimage_codec.enc_append_inject [of "(dir, c, k)" "(dir', c', k')"] assms by auto
  with assms(5) show False by simp
qed

end
