(* ===== verification/Crypto.thy ===== *)
theory Crypto
  imports Platform
begin

text \<open>
  \<open>tunnel_crypto.h\<close> and \<open>tunnel_crypto.cpp\<close>: the algorithm table, the device-side
  \<open>Signer\<close> and the two functions for peer keys. A \<open>Signer\<close> is its two fields; every
  operation takes it with the outside state and returns the PSA status first.
\<close>

section \<open>Algorithms\<close>

datatype Alg = EcdsaP256 | Ed25519

text \<open>The enumerators in their order, so that statements about all of them compute.\<close>

instantiation Alg :: enum
begin

definition enum_Alg :: "Alg list" where "enum_Alg = [EcdsaP256, Ed25519]"

definition enum_all_Alg :: "(Alg \<Rightarrow> bool) \<Rightarrow> bool" where
  "enum_all_Alg p \<longleftrightarrow> p EcdsaP256 \<and> p Ed25519"

definition enum_ex_Alg :: "(Alg \<Rightarrow> bool) \<Rightarrow> bool" where
  "enum_ex_Alg p \<longleftrightarrow> p EcdsaP256 \<or> p Ed25519"

instance
proof
  show "UNIV = set (enum_class.enum :: Alg list)"
    by (auto simp: enum_Alg_def intro: Alg.exhaust)
  show "distinct (enum_class.enum :: Alg list)"
    by (simp add: enum_Alg_def)
  show "enum_class.enum_all p \<longleftrightarrow> Ball UNIV p" for p :: "Alg \<Rightarrow> bool"
    unfolding enum_all_Alg_def by (metis (full_types) Alg.exhaust UNIV_I)
  show "enum_class.enum_ex p \<longleftrightarrow> Bex UNIV p" for p :: "Alg \<Rightarrow> bool"
    unfolding enum_ex_Alg_def by (metis (full_types) Alg.exhaust UNIV_I)
qed

end

text \<open>The underlying value of the enumerator, as \<open>static_cast<psa_key_id_t>(alg)\<close> reads it.\<close>

primrec alg_index :: "Alg \<Rightarrow> u32" where
  "alg_index EcdsaP256 = 0"
| "alg_index Ed25519 = 1"

definition kSignatureLen :: nat where "kSignatureLen = 64"
definition kPublicKeyLenMax :: nat where "kPublicKeyLenMax = 65"
definition kPersistentKeyId :: u32 where "kPersistentKeyId = 0x00005400"

record AlgTraits =
  t_key_type :: key_type
  t_key_bits :: nat
  t_alg :: psa_alg

primrec Traits :: "Alg \<Rightarrow> AlgTraits" where
  "Traits Ed25519 =
     \<lparr>t_key_type = ECC_KEY_PAIR PSA_ECC_FAMILY_TWISTED_EDWARDS, t_key_bits = 255,
      t_alg = PSA_ALG_PURE_EDDSA\<rparr>"
| "Traits EcdsaP256 =
     \<lparr>t_key_type = ECC_KEY_PAIR PSA_ECC_FAMILY_SECP_R1, t_key_bits = 256,
      t_alg = PSA_ALG_ECDSA_SHA_256\<rparr>"

section \<open>The signer\<close>

record Signer =
  mKeyId :: u32
  mAlg :: Alg

definition new_signer :: Signer where
  "new_signer = \<lparr>mKeyId = PSA_KEY_ID_NULL, mAlg = EcdsaP256\<rparr>"

definition Ready :: "Signer \<Rightarrow> bool" where
  "Ready s \<longleftrightarrow> mKeyId s \<noteq> PSA_KEY_ID_NULL"

definition persistent_key_id :: "Alg \<Rightarrow> u32" where
  "persistent_key_id alg = kPersistentKeyId + alg_index alg"

text \<open>The attributes a key is generated with: sign, verify and export.\<close>

definition signer_key_attributes :: "Alg \<Rightarrow> key_lifetime \<Rightarrow> u32 \<Rightarrow> key_attributes" where
  "signer_key_attributes alg lifetime kid =
     \<lparr>ka_usage = [PSA_KEY_USAGE_SIGN_MESSAGE, PSA_KEY_USAGE_VERIFY_MESSAGE,
                  PSA_KEY_USAGE_EXPORT],
      ka_alg = t_alg (Traits alg), ka_type = t_key_type (Traits alg),
      ka_bits = t_key_bits (Traits alg), ka_lifetime = lifetime, ka_id = kid\<rparr>"

text \<open>
  \<open>Signer::Init\<close>: nothing when ready; otherwise probe for the persistent key, else generate
  it, else fall back to a volatile one. \<open>psa_generate_key\<close> writes \<open>mKeyId\<close> whether or not
  it succeeds.
\<close>

definition Signer_Init ::
  "'e platform \<Rightarrow> Alg \<Rightarrow> Signer \<Rightarrow> 'e \<Rightarrow> int \<times> Signer \<times> 'e" where
  "Signer_Init P alg s e =
     (if Ready s then (PSA_SUCCESS, s, e)
      else
        let (st, e) = psa_crypto_init P e
        in if st \<noteq> PSA_SUCCESS then (st, s, e)
           else
             let persistentId = persistent_key_id alg;
                 (probe, e) = psa_get_key_attributes P persistentId e
             in if probe = PSA_SUCCESS
                then (PSA_SUCCESS, s\<lparr>mKeyId := persistentId, mAlg := alg\<rparr>, e)
                else
                  let (st, kid, e) = psa_generate_key P
                        (signer_key_attributes alg PSA_KEY_LIFETIME_PERSISTENT persistentId) e;
                      s = s\<lparr>mKeyId := kid\<rparr>
                  in if st \<noteq> PSA_SUCCESS
                     then
                       let (st, kid, e) = psa_generate_key P
                             (signer_key_attributes alg PSA_KEY_LIFETIME_VOLATILE
                                PSA_KEY_ID_NULL) e;
                           s = s\<lparr>mKeyId := kid\<rparr>
                       in if st \<noteq> PSA_SUCCESS then (st, s, e)
                          else (PSA_SUCCESS, s\<lparr>mAlg := alg\<rparr>, e)
                     else (PSA_SUCCESS, s\<lparr>mAlg := alg\<rparr>, e))"

definition ExportPublicKey :: "'e platform \<Rightarrow> Signer \<Rightarrow> nat \<Rightarrow> 'e \<Rightarrow> int \<times> byte list \<times> 'e" where
  "ExportPublicKey P s out_size e =
     (if \<not> Ready s then (PSA_ERROR_BAD_STATE, [], e)
      else psa_export_public_key P (mKeyId s) out_size e)"

definition Sign ::
  "'e platform \<Rightarrow> Signer \<Rightarrow> byte list \<Rightarrow> nat \<Rightarrow> 'e \<Rightarrow> int \<times> byte list \<times> 'e" where
  "Sign P s msg sig_size e =
     (if \<not> Ready s then (PSA_ERROR_BAD_STATE, [], e)
      else psa_sign_message P (mKeyId s) (t_alg (Traits (mAlg s))) msg sig_size e)"

definition Verify :: "'e platform \<Rightarrow> Signer \<Rightarrow> byte list \<Rightarrow> byte list \<Rightarrow> 'e \<Rightarrow> int \<times> 'e" where
  "Verify P s msg sig e =
     (if \<not> Ready s then (PSA_ERROR_BAD_STATE, e)
      else psa_verify_message P (mKeyId s) (t_alg (Traits (mAlg s))) msg sig e)"

section \<open>Peer keys\<close>

primrec public_key_of_key_pair :: "key_type \<Rightarrow> key_type" where
  "public_key_of_key_pair (ECC_KEY_PAIR f) = ECC_PUBLIC_KEY f"
| "public_key_of_key_pair (ECC_PUBLIC_KEY f) = ECC_PUBLIC_KEY f"

definition peer_key_attributes :: "Alg \<Rightarrow> key_attributes" where
  "peer_key_attributes alg =
     \<lparr>ka_usage = [PSA_KEY_USAGE_VERIFY_MESSAGE], ka_alg = t_alg (Traits alg),
      ka_type = public_key_of_key_pair (t_key_type (Traits alg)),
      ka_bits = t_key_bits (Traits alg), ka_lifetime = PSA_KEY_LIFETIME_VOLATILE,
      ka_id = PSA_KEY_ID_NULL\<rparr>"

definition ImportPublicKey :: "'e platform \<Rightarrow> Alg \<Rightarrow> byte list \<Rightarrow> 'e \<Rightarrow> int \<times> u32 \<times> 'e" where
  "ImportPublicKey P alg key e = psa_import_key P (peer_key_attributes alg) key e"

definition VerifyWith ::
  "'e platform \<Rightarrow> u32 \<Rightarrow> Alg \<Rightarrow> byte list \<Rightarrow> byte list \<Rightarrow> 'e \<Rightarrow> int \<times> 'e" where
  "VerifyWith P key alg msg sig e = psa_verify_message P key (t_alg (Traits alg)) msg sig e"

section \<open>Lemmas\<close>

lemma alg_index_inject: "alg_index a = alg_index b \<longleftrightarrow> a = b"
  by (cases a; cases b) simp_all

text \<open>No two algorithms share a persistent key id or an enumerator value.\<close>

lemma persistent_key_ids_distinct:
  "distinct (map persistent_key_id enum_class.enum)" "map alg_index enum_class.enum = [0, 1]"
  by (simp_all add: enum_Alg_def persistent_key_id_def kPersistentKeyId_def)

lemma persistent_key_id_inject: "persistent_key_id a = persistent_key_id b \<longleftrightarrow> a = b"
  by (simp add: persistent_key_id_def alg_index_inject)

lemma persistent_key_id_not_null [simp]: "persistent_key_id a \<noteq> 0"
  by (cases a) (simp_all add: persistent_key_id_def kPersistentKeyId_def)

text \<open>
  The three ways out of \<open>Init\<close>, as one case rule: the signer was ready, or some PSA call
  failed, or it ends with the key the probe or one of the two generations named.
\<close>

lemma Signer_Init_cases:
  assumes "Signer_Init P alg s e = (st, s', e')"
  obtains (ready) "Ready s" "st = 0" "s' = s" "e' = e"
  | (no_psa) "\<not> Ready s" "st \<noteq> 0" "s' = s" "psa_crypto_init P e = (st, e')"
  | (reused) e1 where "\<not> Ready s" "st = 0"
      "s' = s\<lparr>mKeyId := persistent_key_id alg, mAlg := alg\<rparr>"
      "psa_crypto_init P e = (0, e1)"
      "psa_get_key_attributes P (persistent_key_id alg) e1 = (0, e')"
  | (generated) e1 pr e2 kid where "\<not> Ready s" "st = 0" "s' = s\<lparr>mKeyId := kid, mAlg := alg\<rparr>"
      "psa_crypto_init P e = (0, e1)"
      "psa_get_key_attributes P (persistent_key_id alg) e1 = (pr, e2)" "pr \<noteq> 0"
      "psa_generate_key P (signer_key_attributes alg PSA_KEY_LIFETIME_PERSISTENT
         (persistent_key_id alg)) e2 = (0, kid, e')"
  | (fallback) e1 pr e2 st1 kid1 e3 kid where "\<not> Ready s"
      "s' = (if st = 0 then s\<lparr>mKeyId := kid, mAlg := alg\<rparr> else s\<lparr>mKeyId := kid\<rparr>)"
      "psa_crypto_init P e = (0, e1)"
      "psa_get_key_attributes P (persistent_key_id alg) e1 = (pr, e2)" "pr \<noteq> 0"
      "psa_generate_key P (signer_key_attributes alg PSA_KEY_LIFETIME_PERSISTENT
         (persistent_key_id alg)) e2 = (st1, kid1, e3)" "st1 \<noteq> 0"
      "psa_generate_key P (signer_key_attributes alg PSA_KEY_LIFETIME_VOLATILE 0) e3
         = (st, kid, e')"
  using assms unfolding Signer_Init_def
  by (auto simp: Let_def split: if_splits prod.splits)

lemma Signer_Init_steps:
  assumes "steps_by P R" and "reflp R" and "transp R"
    and "Signer_Init P alg s e = (st, s', e')"
  shows "R e e'"
  using assms(4)
proof (cases rule: Signer_Init_cases)
  case ready
  then show ?thesis using assms(2) by (simp add: reflp_def)
next
  case no_psa
  then show ?thesis using steps_byD [OF assms(1)] by blast
next
  case (reused e1)
  then show ?thesis using steps_byD [OF assms(1)] assms(3) by (meson transpE)
next
  case (generated e1 pr e2 kid)
  then show ?thesis using steps_byD [OF assms(1)] assms(3) by (meson transpE)
next
  case (fallback e1 pr e2 st1 kid1 e3 kid)
  then have "R e e1" "R e1 e2" "R e2 e3" "R e3 e'"
    using steps_byD [OF assms(1)] by blast+
  then show ?thesis using assms(3) by (meson transpE)
qed

lemma Signer_Init_idempotent:
  "Ready s \<Longrightarrow> Signer_Init P alg s e = (0, s, e)"
  by (simp add: Signer_Init_def)

lemma Signer_Init_alg:
  "Signer_Init P alg s e = (0, s', e') \<Longrightarrow> \<not> Ready s \<Longrightarrow> mAlg s' = alg"
  by (erule Signer_Init_cases) simp_all

lemma ExportPublicKey_steps:
  assumes "steps_by P R" "reflp R" "ExportPublicKey P s n e = (st, bs, e')"
  shows "R e e'"
  using assms steps_byD(6) [OF assms(1)]
  by (auto simp: ExportPublicKey_def reflp_def split: if_splits)

lemma Sign_steps:
  assumes "steps_by P R" "reflp R" "Sign P s m n e = (st, bs, e')"
  shows "R e e'"
  using assms steps_byD(7) [OF assms(1)] by (auto simp: Sign_def reflp_def split: if_splits)

lemma Verify_steps:
  assumes "steps_by P R" "reflp R" "Verify P s m sig e = (st, e')"
  shows "R e e'"
  using assms steps_byD(8) [OF assms(1)] by (auto simp: Verify_def reflp_def split: if_splits)

lemma ExportPublicKey_length:
  "lengths_ok P \<Longrightarrow> ExportPublicKey P s n e = (0, bs, e') \<Longrightarrow> length bs \<le> n"
  by (auto simp: ExportPublicKey_def dest: lengths_okD split: if_splits)

lemma Sign_length:
  "lengths_ok P \<Longrightarrow> Sign P s m n e = (0, bs, e') \<Longrightarrow> length bs \<le> n"
  by (auto simp: Sign_def dest: lengths_okD split: if_splits)

lemma signer_needs_key:
  "\<not> Ready s \<Longrightarrow> ExportPublicKey P s n e = (-137, [], e)"
  "\<not> Ready s \<Longrightarrow> Sign P s m n e = (-137, [], e)"
  "\<not> Ready s \<Longrightarrow> Verify P s m sig e = (-137, e)"
  by (simp_all add: ExportPublicKey_def Sign_def Verify_def)

end
