(* ===== verification/Identity.thy ===== *)
theory Identity
  imports Crypto
begin

text \<open>
  \<open>tunnel_identity.h\<close> and \<open>tunnel_identity.cpp\<close>: the identity bundle that binds the tunnel
  key to the device attestation key. A \<open>Writer\<close> is the bytes written so far and the
  capacity (\<open>mLen\<close> is their number). The lemmas give the layout of a bundle, its
  round trip through the parser a client uses, and the message the attestation key signs.
\<close>

section \<open>The writer\<close>

record Writer =
  mBytes :: "byte list"
  mCap :: nat

definition Writer_U8 :: "byte \<Rightarrow> Writer \<Rightarrow> bool \<times> Writer" where
  "Writer_U8 v w =
     (if length (mBytes w) + 1 > mCap w then (False, w)
      else (True, w\<lparr>mBytes := mBytes w @ [v]\<rparr>))"

definition Writer_Field :: "byte list \<Rightarrow> Writer \<Rightarrow> bool \<times> Writer" where
  "Writer_Field s w =
     (if length s > 65535 \<or> length (mBytes w) + 2 + length s > mCap w then (False, w)
      else (True, w\<lparr>mBytes := mBytes w @ put_u16 (length s) @ s\<rparr>))"

section \<open>The bundle\<close>

definition kCertBufSize :: nat where "kCertBufSize = 640"
definition kDacSigSize :: nat where "kDacSigSize = 64"
definition kIdentityBundleVersion :: byte where "kIdentityBundleVersion = 1"

text \<open>The algorithm byte of the wire, the other way round than the enumerator's value.\<close>

definition wire_alg :: "Alg \<Rightarrow> byte" where
  "wire_alg a = (if a = Ed25519 then 0 else 1)"

definition write_bundle ::
  "byte \<Rightarrow> byte list \<Rightarrow> byte list \<Rightarrow> byte list \<Rightarrow> byte list \<Rightarrow> nat \<Rightarrow> chip_error \<times> byte list" where
  "write_bundle alg pubkey dacSig dac pai out_size =
     (let w = \<lparr>mBytes = [], mCap = out_size\<rparr>;
          (ok, w) = Writer_U8 kIdentityBundleVersion w
      in if \<not> ok then (CHIP_ERROR_BUFFER_TOO_SMALL, []) else
      let (ok, w) = Writer_U8 alg w
      in if \<not> ok then (CHIP_ERROR_BUFFER_TOO_SMALL, []) else
      let (ok, w) = Writer_Field pubkey w
      in if \<not> ok then (CHIP_ERROR_BUFFER_TOO_SMALL, []) else
      let (ok, w) = Writer_Field dacSig w
      in if \<not> ok then (CHIP_ERROR_BUFFER_TOO_SMALL, []) else
      let (ok, w) = Writer_Field dac w
      in if \<not> ok then (CHIP_ERROR_BUFFER_TOO_SMALL, []) else
      let (ok, w) = Writer_Field pai w
      in if \<not> ok then (CHIP_ERROR_BUFFER_TOO_SMALL, [])
      else (CHIP_NO_ERROR, mBytes w))"

definition BuildIdentityBundle ::
  "'e platform \<Rightarrow> Signer \<Rightarrow> nat \<Rightarrow> 'e \<Rightarrow> chip_error \<times> byte list \<times> 'e" where
  "BuildIdentityBundle P signer out_size e =
     (if \<not> Ready signer then (CHIP_ERROR_INCORRECT_STATE, [], e)
      else if \<not> dac_provider_present P e then (CHIP_ERROR_INCORRECT_STATE, [], e)
      else
        let (st, pubkey, e) = ExportPublicKey P signer kPublicKeyLenMax e
        in if st \<noteq> PSA_SUCCESS then (CHIP_ERROR_INTERNAL, [], e) else
        let alg = wire_alg (mAlg signer);
            preimage = [kIdentityBundleVersion, alg] @ pubkey;
            (err, dacSig, e) = SignWithDeviceAttestationKey P preimage kDacSigSize e
        in if err \<noteq> CHIP_NO_ERROR then (err, [], e) else
        let (err, dac, e) = GetDeviceAttestationCert P kCertBufSize e
        in if err \<noteq> CHIP_NO_ERROR then (err, [], e) else
        let (err, pai, e) = GetProductAttestationIntermediateCert P kCertBufSize e
        in if err \<noteq> CHIP_NO_ERROR then (err, [], e) else
        let (err, bundle) = write_bundle alg pubkey dacSig dac pai out_size
        in (err, bundle, e))"

section \<open>The report\<close>

text \<open>
  The boot-time report re-reads the field lengths out of the serialised bytes. Its outcome,
  when it gets that far, is what it logs: version, algorithm, the four lengths, the total
  and whether one 512-byte payload would hold it.
\<close>

record bundle_report =
  rep_version :: byte
  rep_alg :: byte
  rep_pubLen :: nat
  rep_sigLen :: nat
  rep_dacLen :: nat
  rep_paiLen :: nat
  rep_total :: nat
  rep_fits :: bool

definition fieldLen :: "byte list \<Rightarrow> nat \<Rightarrow> nat \<times> nat" where
  "fieldLen bundle p =
     (let n = read_u16 (bundle ! p) (bundle ! (p + 1)) in (n, p + 2 + n))"

definition report_fields :: "byte list \<Rightarrow> bundle_report" where
  "report_fields bundle =
     (let version = bundle ! 0; alg = bundle ! 1;
          (pubLen, p) = fieldLen bundle 2;
          (sigLen, p) = fieldLen bundle p;
          (dacLen, p) = fieldLen bundle p;
          (paiLen, p) = fieldLen bundle p
      in \<lparr>rep_version = version, rep_alg = alg, rep_pubLen = pubLen, rep_sigLen = sigLen,
          rep_dacLen = dacLen, rep_paiLen = paiLen, rep_total = length bundle,
          rep_fits = (length bundle \<le> 512)\<rparr>)"

definition ReportIdentityBundle :: "'e platform \<Rightarrow> 'e \<Rightarrow> bundle_report option \<times> 'e" where
  "ReportIdentityBundle P e =
     (let (st, signer, e) = Signer_Init P Ed25519 new_signer e
      in if st \<noteq> PSA_SUCCESS then (None, e)
         else let (err, bundle, e) = BuildIdentityBundle P signer 1600 e
              in if err \<noteq> CHIP_NO_ERROR then (None, e)
                 else (Some (report_fields bundle), e))"

section \<open>Layout\<close>

definition bundle_bytes ::
  "byte \<Rightarrow> byte list \<Rightarrow> byte list \<Rightarrow> byte list \<Rightarrow> byte list \<Rightarrow> byte list" where
  "bundle_bytes alg pubkey dacSig dac pai =
     [kIdentityBundleVersion, alg] @ concat (map put_field [pubkey, dacSig, dac, pai])"

lemma length_bundle_bytes:
  "length (bundle_bytes alg pubkey dacSig dac pai) =
   10 + length pubkey + length dacSig + length dac + length pai"
  by (simp add: bundle_bytes_def)

lemma write_bundle_eq:
  "write_bundle alg pubkey dacSig dac pai n =
     (if length pubkey < 65536 \<and> length dacSig < 65536 \<and> length dac < 65536 \<and>
         length pai < 65536 \<and> length (bundle_bytes alg pubkey dacSig dac pai) \<le> n
      then (CHIP_NO_ERROR, bundle_bytes alg pubkey dacSig dac pai)
      else (CHIP_ERROR_BUFFER_TOO_SMALL, []))"
  by (auto simp: write_bundle_def Writer_U8_def Writer_Field_def Let_def length_bundle_bytes)
     (auto simp: bundle_bytes_def put_field_def)

text \<open>The parser a client uses on the bytes it fetched.\<close>

definition read_bundle ::
  "byte list \<Rightarrow> (byte \<times> byte \<times> byte list \<times> byte list \<times> byte list \<times> byte list) option" where
  "read_bundle bs =
     (case take_u8 bs of None \<Rightarrow> None | Some (version, bs) \<Rightarrow>
       (case take_u8 bs of None \<Rightarrow> None | Some (alg, bs) \<Rightarrow>
         (case take_field bs of None \<Rightarrow> None | Some (pubkey, bs) \<Rightarrow>
           (case take_field bs of None \<Rightarrow> None | Some (dacSig, bs) \<Rightarrow>
             (case take_field bs of None \<Rightarrow> None | Some (dac, bs) \<Rightarrow>
               (case take_field bs of None \<Rightarrow> None | Some (pai, bs) \<Rightarrow>
                 if bs = [] then Some (version, alg, pubkey, dacSig, dac, pai) else None))))))"

lemma read_bundle_bundle_bytes:
  assumes "length pubkey < 65536" "length dacSig < 65536" "length dac < 65536" "length pai < 65536"
  shows "read_bundle (bundle_bytes alg pubkey dacSig dac pai) =
    Some (kIdentityBundleVersion, alg, pubkey, dacSig, dac, pai)"
  using assms take_field_put_field [OF assms(4), of "[]"]
  by (simp add: read_bundle_def bundle_bytes_def)

text \<open>A successful build, taken apart into the calls it made.\<close>

lemma BuildIdentityBundle_ok_cases:
  assumes "BuildIdentityBundle P signer n e = (CHIP_NO_ERROR, bundle, e')"
  obtains pubkey dacSig dac pai e1 e2 e3 where
    "Ready signer" "dac_provider_present P e"
    "ExportPublicKey P signer kPublicKeyLenMax e = (0, pubkey, e1)"
    "SignWithDeviceAttestationKey P
       ([kIdentityBundleVersion, wire_alg (mAlg signer)] @ pubkey) kDacSigSize e1
       = (CHIP_NO_ERROR, dacSig, e2)"
    "GetDeviceAttestationCert P kCertBufSize e2 = (CHIP_NO_ERROR, dac, e3)"
    "GetProductAttestationIntermediateCert P kCertBufSize e3 = (CHIP_NO_ERROR, pai, e')"
    "bundle = bundle_bytes (wire_alg (mAlg signer)) pubkey dacSig dac pai"
    "length pubkey < 65536" "length dacSig < 65536" "length dac < 65536" "length pai < 65536"
    "length bundle \<le> n"
  using assms unfolding BuildIdentityBundle_def
  by (auto simp: Let_def write_bundle_eq split: if_splits prod.splits)

text \<open>
  The sizes of a device's certificates, signatures and keys do not shrink: whenever the
  calls behind a bundle succeed they give at least this many bytes.
\<close>

definition provides_at_least :: "'e platform \<Rightarrow> nat \<Rightarrow> nat \<Rightarrow> nat \<Rightarrow> nat \<Rightarrow> bool" where
  "provides_at_least P key sig dac pai \<longleftrightarrow>
     (\<forall>h n e bs e'. psa_export_public_key P h n e = (PSA_SUCCESS, bs, e') \<longrightarrow> key \<le> length bs) \<and>
     (\<forall>m n e bs e'. SignWithDeviceAttestationKey P m n e = (CHIP_NO_ERROR, bs, e') \<longrightarrow> sig \<le> length bs) \<and>
     (\<forall>n e bs e'. GetDeviceAttestationCert P n e = (CHIP_NO_ERROR, bs, e') \<longrightarrow> dac \<le> length bs) \<and>
     (\<forall>n e bs e'. GetProductAttestationIntermediateCert P n e = (CHIP_NO_ERROR, bs, e') \<longrightarrow>
        pai \<le> length bs)"

lemma provides_at_leastD:
  assumes "provides_at_least P key sig dac pai"
  shows "psa_export_public_key P h n e = (0, bs, e') \<Longrightarrow> key \<le> length bs"
    and "SignWithDeviceAttestationKey P m n e = (CHIP_NO_ERROR, bs, e') \<Longrightarrow> sig \<le> length bs"
    and "GetDeviceAttestationCert P n e = (CHIP_NO_ERROR, bs, e') \<Longrightarrow> dac \<le> length bs"
    and "GetProductAttestationIntermediateCert P n e = (CHIP_NO_ERROR, bs, e') \<Longrightarrow> pai \<le> length bs"
  using assms unfolding provides_at_least_def by blast+

lemma BuildIdentityBundle_too_big:
  assumes S: "provides_at_least P key sig dac pai" and big: "n < 10 + key + sig + dac + pai"
    and B: "BuildIdentityBundle P signer n e = (err, bundle, e')"
  shows "err \<noteq> CHIP_NO_ERROR"
proof
  assume "err = CHIP_NO_ERROR"
  with B have "BuildIdentityBundle P signer n e = (CHIP_NO_ERROR, bundle, e')" by simp
  then show False
  proof (cases rule: BuildIdentityBundle_ok_cases)
    case (1 pubkey dacSig dac' pai' e1 e2 e3)
    have "psa_export_public_key P (mKeyId signer) kPublicKeyLenMax e = (0, pubkey, e1)"
      using 1(1,3) by (simp add: ExportPublicKey_def)
    note provides_at_leastD(1) [OF S this]
    moreover note provides_at_leastD(2) [OF S 1(4)] provides_at_leastD(3) [OF S 1(5)]
      provides_at_leastD(4) [OF S 1(6)]
    ultimately show False using big 1(7,12) by (simp add: length_bundle_bytes)
  qed
qed

lemma BuildIdentityBundle_steps:
  assumes S: "steps_by P R" and R: "reflp R" "transp R"
    and "BuildIdentityBundle P signer n e = (err, bundle, e')"
  shows "R e e'"
proof -
  obtain st pub e1 where ex: "ExportPublicKey P signer kPublicKeyLenMax e = (st, pub, e1)"
    by (metis prod_cases3)
  obtain er1 sg e2 where sg: "SignWithDeviceAttestationKey P
      ([kIdentityBundleVersion, wire_alg (mAlg signer)] @ pub) kDacSigSize e1 = (er1, sg, e2)"
    by (metis prod_cases3)
  obtain er2 dac e3 where dac: "GetDeviceAttestationCert P kCertBufSize e2 = (er2, dac, e3)"
    by (metis prod_cases3)
  obtain er3 pai e4 where pai:
    "GetProductAttestationIntermediateCert P kCertBufSize e3 = (er3, pai, e4)"
    by (metis prod_cases3)
  have "R e e" using R(1) by (simp add: reflp_def)
  moreover have 1: "R e e1" using ExportPublicKey_steps [OF S R(1) ex] .
  moreover have 2: "R e e2" using 1 steps_byD(10) [OF S sg] R(2) by (meson transpE)
  moreover have 3: "R e e3" using 2 steps_byD(11) [OF S dac] R(2) by (meson transpE)
  moreover have "R e e4" using 3 steps_byD(12) [OF S pai] R(2) by (meson transpE)
  moreover have "e' \<in> {e, e1, e2, e3, e4}"
    using assms(4) ex sg dac pai
    by (simp add: BuildIdentityBundle_def Let_def split: if_splits prod.splits)
  ultimately show ?thesis by blast
qed

lemma fieldLen_at:
  assumes "length s < 65536"
  shows "fieldLen (pre @ put_field s @ post) (length pre) = (length s, length pre + 2 + length s)"
proof -
  have "put_field s @ post = put_u16 (length s) ! 0 # put_u16 (length s) ! 1 # s @ post"
    by (simp add: put_field_def put_u16_def)
  then have "(pre @ put_field s @ post) ! length pre = put_u16 (length s) ! 0"
    and "(pre @ put_field s @ post) ! (length pre + 1) = put_u16 (length s) ! 1"
    by (simp_all add: nth_append)
  then show ?thesis using read_u16_put_u16 [OF assms] by (simp add: fieldLen_def Let_def)
qed

lemma report_fields_bundle_bytes:
  assumes "length pubkey < 65536" "length dacSig < 65536" "length dac < 65536" "length pai < 65536"
  shows "report_fields (bundle_bytes alg pubkey dacSig dac pai) =
    (let total = length (bundle_bytes alg pubkey dacSig dac pai)
     in \<lparr>rep_version = kIdentityBundleVersion, rep_alg = alg, rep_pubLen = length pubkey,
         rep_sigLen = length dacSig, rep_dacLen = length dac, rep_paiLen = length pai,
         rep_total = total, rep_fits = (total \<le> 512)\<rparr>)"
proof -
  let ?h = "[kIdentityBundleVersion, alg]"
  let ?b = "bundle_bytes alg pubkey dacSig dac pai"
  have b: "?b = ?h @ put_field pubkey @ put_field dacSig @ put_field dac @ put_field pai"
    by (simp add: bundle_bytes_def)
  have "fieldLen ?b 2 = (length pubkey, 4 + length pubkey)"
    using fieldLen_at [OF assms(1), of ?h] b by (simp add: eval_nat_numeral)
  moreover have "fieldLen ?b (4 + length pubkey) =
      (length dacSig, 6 + length pubkey + length dacSig)"
    using fieldLen_at [OF assms(2), of "?h @ put_field pubkey"] b by (simp add: add.assoc eval_nat_numeral)
  moreover have "fieldLen ?b (6 + length pubkey + length dacSig) =
      (length dac, 8 + length pubkey + length dacSig + length dac)"
    using fieldLen_at [OF assms(3), of "?h @ put_field pubkey @ put_field dacSig"] b
    by (simp add: add.assoc eval_nat_numeral)
  moreover have "fst (fieldLen ?b (8 + length pubkey + length dacSig + length dac)) = length pai"
    using fieldLen_at [OF assms(4), of "?h @ put_field pubkey @ put_field dacSig @ put_field dac" "[]"] b
    by (simp add: add.assoc eval_nat_numeral)
  moreover have "?b ! 0 = kIdentityBundleVersion" "?b ! 1 = alg"
    by (simp_all add: b)
  ultimately show ?thesis by (auto simp: report_fields_def Let_def split: prod.splits)
qed

end
