(* ===== verification/Replay.thy ===== *)
theory Replay
  imports Platform
begin

text \<open>
  \<open>tunnel_replay.h\<close> and \<open>tunnel_replay.cpp\<close>: the reserved-ceiling replay guard. The two
  file-level variables that the load callback fills (\<open>gLoaded\<close>, \<open>gLoadedValid\<close>) are reset
  at the start of \<open>Init\<close> and read only there, so they are a record local to it.

  The first interface below is what \<open>ProcessRequest\<close> uses (\<open>IsFresh\<close>, \<open>Accept\<close>,
  \<open>Floor\<close>); the second adds resets, and with them the promise the file header makes.
\<close>

section \<open>The guard\<close>

definition kReserve :: u32 where "kReserve = 64"

definition ceiling_key :: string where "ceiling_key = ''tunnel/ceiling''"

record ReplayGuard =
  mFloor :: u32
  mCeiling :: u32
  mPersistent :: bool

definition new_guard :: ReplayGuard where
  "new_guard = \<lparr>mFloor = 0, mCeiling = 0, mPersistent = False\<rparr>"

definition IsFresh :: "ReplayGuard \<Rightarrow> u32 \<Rightarrow> bool" where
  "IsFresh g counter \<longleftrightarrow> counter > mFloor g"

text \<open>\<open>PersistCeiling\<close> sets the ceiling in RAM before the save, and keeps it if the save fails.\<close>

definition PersistCeiling ::
  "'e platform \<Rightarrow> u32 \<Rightarrow> ReplayGuard \<Rightarrow> 'e \<Rightarrow> chip_error \<times> ReplayGuard \<times> 'e" where
  "PersistCeiling P ceiling g e =
     (let g = g\<lparr>mCeiling := ceiling\<rparr>
      in if \<not> mPersistent g then (CHIP_NO_ERROR, g, e)
         else let (rc, e) = settings_save_one P ceiling_key (u32_mem ceiling) e
              in if rc \<noteq> 0 then (CHIP_ERROR_PERSISTED_STORAGE_FAILED, g, e)
                 else (CHIP_NO_ERROR, g, e))"

definition Accept ::
  "'e platform \<Rightarrow> u32 \<Rightarrow> ReplayGuard \<Rightarrow> 'e \<Rightarrow> chip_error \<times> ReplayGuard \<times> 'e" where
  "Accept P counter g e =
     (if \<not> IsFresh g counter then (CHIP_ERROR_INVALID_ARGUMENT, g, e)
      else if counter \<ge> mCeiling g
      then let nxt = counter + kReserve
           in if nxt < counter then (CHIP_ERROR_INTERNAL, g, e)
              else let (err, g, e) = PersistCeiling P nxt g e
                   in if err \<noteq> CHIP_NO_ERROR then (err, g, e)
                      else (CHIP_NO_ERROR, g\<lparr>mFloor := counter\<rparr>, e)
      else (CHIP_NO_ERROR, g\<lparr>mFloor := counter\<rparr>, e))"

record loaded_ceiling =
  gLoaded :: u32
  gLoadedValid :: bool

definition ceiling_LoadCb :: "load_call \<Rightarrow> loaded_ceiling \<Rightarrow> int \<times> loaded_ceiling" where
  "ceiling_LoadCb c ld =
     (if lc_len c \<noteq> 4 then (- EINVAL, ld)
      else let ld = ld\<lparr>gLoaded := mem_u32 (overlay (u32_mem (gLoaded ld)) (lc_data c))\<rparr>
           in if lc_ret c \<noteq> 4 then (- EIO, ld)
              else (0, ld\<lparr>gLoadedValid := True\<rparr>))"

definition ReplayGuard_Init ::
  "'e platform \<Rightarrow> ReplayGuard \<Rightarrow> 'e \<Rightarrow> chip_error \<times> ReplayGuard \<times> 'e" where
  "ReplayGuard_Init P g e =
     (let ld = \<lparr>gLoaded = 0, gLoadedValid = False\<rparr>;
          (rc, e) = settings_subsys_init P e
      in if rc \<noteq> 0
         then (CHIP_NO_ERROR, \<lparr>mFloor = 0, mCeiling = kReserve, mPersistent = False\<rparr>, e)
         else
           let g = g\<lparr>mPersistent := True\<rparr>;
               (calls, rc, e) = settings_load_subtree_direct P ceiling_key e;
               ld = fold (\<lambda>c ld. snd (ceiling_LoadCb c ld)) calls ld;
               ceiling = (if gLoadedValid ld then gLoaded ld else 0);
               g = g\<lparr>mCeiling := ceiling, mFloor := ceiling\<rparr>
           in if mCeiling g = 0
              then let (err, g, e) = PersistCeiling P kReserve g e
                   in if err \<noteq> CHIP_NO_ERROR then (err, g, e) else (CHIP_NO_ERROR, g, e)
              else (CHIP_NO_ERROR, g, e))"

section \<open>One operation at a time\<close>

lemma PersistCeiling_fields:
  assumes "PersistCeiling P c g e = (err, g', e')"
  shows "g' = g\<lparr>mCeiling := c\<rparr>" and "\<not> mPersistent g \<Longrightarrow> err = CHIP_NO_ERROR \<and> e' = e"
  using assms by (auto simp: PersistCeiling_def Let_def split: if_splits prod.splits)

lemma PersistCeiling_ok_save:
  assumes "PersistCeiling P c g e = (CHIP_NO_ERROR, g', e')" and "mPersistent g"
  shows "settings_save_one P ceiling_key (u32_mem c) e = (0, e')"
  using assms by (auto simp: PersistCeiling_def Let_def split: if_splits prod.splits)

lemma Accept_okD:
  assumes "Accept P c g e = (CHIP_NO_ERROR, g', e')"
  shows "IsFresh g c" and "mFloor g' = c" and "mPersistent g' = mPersistent g"
  using assms
  by (auto simp: Accept_def Let_def dest!: PersistCeiling_fields(1)
      split: if_splits prod.splits)

lemma no_wrap_less:
  fixes c :: u32
  assumes "\<not> c + kReserve < c"
  shows "c < c + kReserve"
proof -
  have "c \<noteq> c + kReserve" by (simp add: kReserve_def)
  with assms show ?thesis by (metis linorder_less_linear)
qed

lemma Accept_ok_below_ceiling:
  assumes "Accept P c g e = (CHIP_NO_ERROR, g', e')"
  shows "c < mCeiling g'"
  using assms
  by (auto simp: Accept_def Let_def intro: no_wrap_less dest!: PersistCeiling_fields(1)
      split: if_splits prod.splits)

lemma Accept_fail_floor:
  assumes "Accept P c g e = (err, g', e')" and "err \<noteq> CHIP_NO_ERROR"
  shows "mFloor g' = mFloor g" and "mPersistent g' = mPersistent g"
  using assms
  by (auto simp: Accept_def Let_def dest!: PersistCeiling_fields(1) split: if_splits prod.splits)

lemma Accept_stale:
  "\<not> IsFresh g c \<Longrightarrow> Accept P c g e = (CHIP_ERROR_INVALID_ARGUMENT, g, e)"
  by (simp add: Accept_def)

lemma Accept_within_reservation:
  "IsFresh g c \<Longrightarrow> c < mCeiling g \<Longrightarrow> Accept P c g e = (CHIP_NO_ERROR, g\<lparr>mFloor := c\<rparr>, e)"
  by (auto simp: Accept_def)

lemma Accept_exhausted:
  "IsFresh g c \<Longrightarrow> mCeiling g \<le> c \<Longrightarrow> c + kReserve < c \<Longrightarrow>
   Accept P c g e = (CHIP_ERROR_INTERNAL, g, e)"
  by (simp add: Accept_def)

text \<open>\<open>next < counter\<close> detects exactly the additions that leave the 32-bit range.\<close>

lemma wrap_guard_iff:
  fixes c :: u32
  shows "c + kReserve < c \<longleftrightarrow> unat c + 64 \<ge> 2 ^ 32"
proof -
  have "unat (c + kReserve) = (unat c + 64) mod 2 ^ 32"
    by (simp add: kReserve_def unat_word_ariths)
  moreover have "unat c < 2 ^ 32" using unsigned_less [of c] by simp
  ultimately show ?thesis by (auto simp: word_less_nat_alt mod_if)
qed

section \<open>The interface of the request path\<close>

text \<open>
  A guard over a state \<open>'s\<close> of its own and a counter type: freshness is being above the
  floor, accepting moves the floor to the counter, refusing leaves it. Whatever sequence of
  counters arrives, the accepted ones increase strictly.
\<close>

fun run_accepts :: "('c \<Rightarrow> 's \<Rightarrow> bool \<times> 's) \<Rightarrow> 'c list \<Rightarrow> 's \<Rightarrow> 'c list \<times> 's" where
  "run_accepts acc [] s = ([], s)"
| "run_accepts acc (c # cs) s =
     (let (ok, s1) = acc c s; (as, s2) = run_accepts acc cs s1
      in (if ok then c # as else as, s2))"

locale freshness_guard =
  fixes fresh :: "'s \<Rightarrow> 'c :: linorder \<Rightarrow> bool"
    and floor_of :: "'s \<Rightarrow> 'c"
    and acc :: "'c \<Rightarrow> 's \<Rightarrow> bool \<times> 's"
  assumes fresh_iff: "fresh s c \<longleftrightarrow> floor_of s < c"
    and acc_ok: "acc c s = (True, s') \<Longrightarrow> fresh s c \<and> floor_of s' = c"
    and acc_refused: "acc c s = (False, s') \<Longrightarrow> floor_of s' = floor_of s"
begin

lemma acc_floor_mono: "acc c s = (ok, s') \<Longrightarrow> floor_of s \<le> floor_of s'"
  by (cases ok) (auto dest!: acc_ok acc_refused simp: fresh_iff)

lemma acc_twice_refused:
  assumes "acc c s = (True, s1)" and "c' \<le> c"
  shows "fst (acc c' s1) = False"
proof (rule ccontr)
  assume "fst (acc c' s1) \<noteq> False"
  then have "acc c' s1 = (True, snd (acc c' s1))" by (simp add: prod_eq_iff)
  then have "floor_of s1 < c'" using acc_ok fresh_iff by blast
  with acc_ok [OF assms(1)] assms(2) show False by auto
qed

lemma run_accepts_sorted:
  "run_accepts acc cs s = (as, s') \<Longrightarrow>
   sorted_wrt (<) as \<and> (\<forall>a \<in> set as. floor_of s < a) \<and> floor_of s \<le> floor_of s'"
proof (induction cs arbitrary: s as)
  case Nil
  then show ?case by simp
next
  case (Cons c cs)
  obtain ok s1 where acc: "acc c s = (ok, s1)" by fastforce
  obtain as1 where run: "run_accepts acc cs s1 = (as1, s')"
    and as: "as = (if ok then c # as1 else as1)"
    using Cons.prems acc by (auto simp: Let_def split: prod.splits)
  from Cons.IH [OF run] have IH: "sorted_wrt (<) as1" "\<forall>a \<in> set as1. floor_of s1 < a"
    "floor_of s1 \<le> floor_of s'" by simp_all
  have mono: "floor_of s \<le> floor_of s1" using acc by (rule acc_floor_mono)
  show ?case
  proof (cases ok)
    case True
    with acc have "fresh s c \<and> floor_of s1 = c" by (intro acc_ok) simp
    then have "floor_of s < c" "floor_of s1 = c" by (simp_all add: fresh_iff)
    moreover have "\<forall>a \<in> set as1. floor_of s < a"
      using IH(2) calculation by (meson order.strict_trans)
    ultimately show ?thesis using IH as True by simp
  next
    case False
    moreover have "\<forall>a \<in> set as1. floor_of s < a"
      using IH(2) mono by (meson order.strict_trans1)
    ultimately show ?thesis using IH as mono by simp
  qed
qed

end

text \<open>The guard's operations in the shape of the interface: the outside state is part of \<open>'s\<close>.\<close>

definition guard_accept ::
  "'e platform \<Rightarrow> u32 \<Rightarrow> ReplayGuard \<times> 'e \<Rightarrow> bool \<times> ReplayGuard \<times> 'e" where
  "guard_accept P c s =
     (let (err, g, e) = Accept P c (fst s) (snd s) in (err = CHIP_NO_ERROR, g, e))"

lemma guard_accept_True:
  "guard_accept P c (g, e) = (True, g', e') \<longleftrightarrow> Accept P c g e = (CHIP_NO_ERROR, g', e')"
  by (auto simp: guard_accept_def Let_def split: prod.splits)

lemma guard_accept_False:
  "guard_accept P c (g, e) = (False, g', e') \<longleftrightarrow>
   (\<exists>err. err \<noteq> CHIP_NO_ERROR \<and> Accept P c g e = (err, g', e'))"
  by (auto simp: guard_accept_def Let_def split: prod.splits)

interpretation replay: freshness_guard
  "\<lambda>s. IsFresh (fst s)" "\<lambda>s. mFloor (fst s)" "guard_accept P" for P :: "'e platform"
proof unfold_locales
  fix c :: u32 and s s' :: "ReplayGuard \<times> 'e"
  show "IsFresh (fst s) c = (mFloor (fst s) < c)"
    by (simp add: IsFresh_def)
  show "guard_accept P c s = (True, s') \<Longrightarrow> IsFresh (fst s) c \<and> mFloor (fst s') = c"
    by (cases s; cases s') (auto simp: guard_accept_True dest: Accept_okD)
  show "guard_accept P c s = (False, s') \<Longrightarrow> mFloor (fst s') = mFloor (fst s)"
    by (cases s; cases s') (auto simp: guard_accept_False dest: Accept_fail_floor)
qed

end
