(* ===== verification/Replay_Life.thy ===== *)
theory Replay_Life
  imports Replay
begin

text \<open>
  The replay guard across resets. \<open>ReplayGuard::Init\<close> is evaluated for each thing the
  settings subsystem may report; the durable interface adds power cycles to the interface
  of \<open>Replay\<close>, and its interpretation on the guard is where the reserved ceiling does its
  work. The lemmas on a failing save or load show where the promise stops.
\<close>

section \<open>Init, by what the settings subsystem reports\<close>

definition valid_ceiling_call :: "load_call \<Rightarrow> bool" where
  "valid_ceiling_call c \<longleftrightarrow> lc_len c = 4 \<and> lc_ret c = 4"

lemma ceiling_LoadCb_invalid:
  "\<not> valid_ceiling_call c \<Longrightarrow> gLoadedValid (snd (ceiling_LoadCb c ld)) = gLoadedValid ld"
  by (auto simp: ceiling_LoadCb_def valid_ceiling_call_def Let_def)

lemma fold_ceiling_LoadCb_invalid:
  "list_all (\<lambda>c. \<not> valid_ceiling_call c) calls \<Longrightarrow>
   gLoadedValid (fold (\<lambda>c ld. snd (ceiling_LoadCb c ld)) calls ld) = gLoadedValid ld"
  by (induction calls arbitrary: ld) (simp_all add: ceiling_LoadCb_invalid)

lemma ceiling_LoadCb_stored:
  "snd (ceiling_LoadCb \<lparr>lc_len = length (u32_mem v), lc_ret = int (length (u32_mem v)),
     lc_data = u32_mem v\<rparr> ld) = \<lparr>gLoaded = v, gLoadedValid = True\<rparr>"
  by (cases ld) (simp add: ceiling_LoadCb_def Let_def)

text \<open>A ceiling was stored: it becomes floor and ceiling, and nothing is written.\<close>

lemma Init_stored:
  assumes "flash_ok P stored" "loads_faithfully P stored"
    and init: "settings_subsys_init P e = (0, e1)"
    and "stored e ceiling_key = Some (u32_mem v)" "v \<noteq> 0"
    and load: "settings_load_subtree_direct P ceiling_key e1 = (calls, rc, e2)"
  shows "ReplayGuard_Init P g e =
    (CHIP_NO_ERROR, \<lparr>mFloor = v, mCeiling = v, mPersistent = True\<rparr>, e2)"
proof -
  have "stored e1 ceiling_key = Some (u32_mem v)"
    using steps_byD(1) [OF flash_okD(1) [OF assms(1)] init] assms(4) by simp
  then have "calls = [\<lparr>lc_len = length (u32_mem v), lc_ret = int (length (u32_mem v)),
      lc_data = u32_mem v\<rparr>]"
    by (rule loads_faithfullyD(2) [OF assms(2) load])
  then have "fold (\<lambda>c ld. snd (ceiling_LoadCb c ld)) calls ld =
      \<lparr>gLoaded = v, gLoadedValid = True\<rparr>" for ld
    by (simp only: fold.simps ceiling_LoadCb_stored o_apply id_apply)
  then show ?thesis
    unfolding ReplayGuard_Init_def Let_def by (cases g) (simp add: init load assms(5))
qed

text \<open>
  No valid ceiling was reported, whether none is stored or the read failed: the floor is 0
  and the first reservation is written over whatever the partition holds.
\<close>

lemma Init_nothing_valid:
  assumes "settings_subsys_init P e = (0, e1)"
    and "settings_load_subtree_direct P ceiling_key e1 = (calls, rc, e2)"
    and "list_all (\<lambda>c. \<not> valid_ceiling_call c) calls"
    and "settings_save_one P ceiling_key (u32_mem kReserve) e2 = (rc', e3)"
  shows "ReplayGuard_Init P g e =
    (if rc' = 0 then CHIP_NO_ERROR else CHIP_ERROR_PERSISTED_STORAGE_FAILED,
     \<lparr>mFloor = 0, mCeiling = kReserve, mPersistent = True\<rparr>, e3)"
  using assms
  by (cases g) (simp add: ReplayGuard_Init_def Let_def fold_ceiling_LoadCb_invalid
      PersistCeiling_def)

text \<open>Without a settings subsystem the guard works from RAM alone.\<close>

lemma Init_volatile:
  "settings_subsys_init P e = (rc, e1) \<Longrightarrow> rc \<noteq> 0 \<Longrightarrow>
   ReplayGuard_Init P g e =
     (CHIP_NO_ERROR, \<lparr>mFloor = 0, mCeiling = kReserve, mPersistent = False\<rparr>, e1)"
  by (simp add: ReplayGuard_Init_def Let_def)

lemma Init_steps_other_key:
  assumes "flash_ok P stored" "ReplayGuard_Init P g e = (err, g', e')" "k \<noteq> ceiling_key"
  shows "stored e' k = stored e k"
proof -
  obtain rc e1 where init: "settings_subsys_init P e = (rc, e1)" by fastforce
  obtain calls rc' e2 where load: "settings_load_subtree_direct P ceiling_key e1 = (calls, rc', e2)"
    by (metis prod_cases3)
  have same: "stored e2 = stored e1" "stored e1 = stored e"
    using steps_byD [OF flash_okD(1) [OF assms(1)]] init load by blast+
  have "e' = e1 \<or> e' = e2 \<or> (\<exists>rc v. settings_save_one P ceiling_key v e2 = (rc, e'))"
    using assms(2)
    by (auto simp: ReplayGuard_Init_def init load PersistCeiling_def Let_def
        split: if_splits prod.splits)
  then show ?thesis using same flash_okD(3) [OF assms(1) _ assms(3)] by metis
qed

lemma Accept_steps_other_key:
  assumes "flash_ok P stored" "Accept P c g e = (err, g', e')" "k \<noteq> ceiling_key"
  shows "stored e' k = stored e k"
  using assms(2) flash_okD(3) [OF assms(1)] assms(3)
  by (fastforce simp: Accept_def PersistCeiling_def Let_def split: if_splits prod.splits)

section \<open>The durable interface\<close>

text \<open>Counters offered and power cycles, in any order; the list holds the accepted counters.\<close>

inductive guard_run :: "('c \<Rightarrow> 's \<Rightarrow> bool \<times> 's) \<Rightarrow> ('s \<Rightarrow> 's \<Rightarrow> bool) \<Rightarrow>
  's \<Rightarrow> 'c list \<Rightarrow> 's \<Rightarrow> bool" for acc restart where
  run_nil: "guard_run acc restart s [] s"
| run_accept: "acc c s = (True, s1) \<Longrightarrow> guard_run acc restart s1 as s2 \<Longrightarrow>
    guard_run acc restart s (c # as) s2"
| run_refuse: "acc c s = (False, s1) \<Longrightarrow> guard_run acc restart s1 as s2 \<Longrightarrow>
    guard_run acc restart s as s2"
| run_restart: "restart s s1 \<Longrightarrow> guard_run acc restart s1 as s2 \<Longrightarrow>
    guard_run acc restart s as s2"

locale durable_guard = freshness_guard fresh floor_of acc
  for fresh :: "'s \<Rightarrow> 'c :: linorder \<Rightarrow> bool" and floor_of :: "'s \<Rightarrow> 'c"
    and acc :: "'c \<Rightarrow> 's \<Rightarrow> bool \<times> 's" +
  fixes inv :: "'s \<Rightarrow> bool" and restart :: "'s \<Rightarrow> 's \<Rightarrow> bool"
  assumes inv_acc: "inv s \<Longrightarrow> acc c s = (ok, s') \<Longrightarrow> inv s'"
    and inv_restart: "inv s \<Longrightarrow> restart s s' \<Longrightarrow> inv s'"
    and restart_floor: "inv s \<Longrightarrow> restart s s' \<Longrightarrow> floor_of s \<le> floor_of s'"
begin

lemma guard_run_sorted:
  "guard_run acc restart s as s' \<Longrightarrow> inv s \<Longrightarrow>
   sorted_wrt (<) as \<and> (\<forall>a \<in> set as. floor_of s < a) \<and> floor_of s \<le> floor_of s' \<and> inv s'"
proof (induction rule: guard_run.induct)
  case (run_nil s)
  then show ?case by simp
next
  case (run_accept c s s1 as s2)
  have "inv s1" using run_accept.prems run_accept.hyps(1) by (rule inv_acc)
  moreover have "floor_of s < c" "floor_of s1 = c"
    using acc_ok [OF run_accept.hyps(1)] by (simp_all add: fresh_iff)
  ultimately show ?case using run_accept.IH by (auto dest: order.strict_trans)
next
  case (run_refuse c s s1 as s2)
  have "inv s1" using run_refuse.prems run_refuse.hyps(1) by (rule inv_acc)
  with run_refuse.IH acc_refused [OF run_refuse.hyps(1)] show ?case by simp
next
  case (run_restart s s1 as s2)
  have "inv s1" "floor_of s \<le> floor_of s1"
    using run_restart.prems run_restart.hyps(1) by (auto intro: inv_restart restart_floor)
  with run_restart.IH show ?case by (auto dest: order.strict_trans1)
qed

lemma guard_run_distinct: "guard_run acc restart s as s' \<Longrightarrow> inv s \<Longrightarrow> distinct as"
  using guard_run_sorted by (simp add: strict_sorted_iff)

end

section \<open>The guard provides it\<close>

text \<open>
  What ties RAM to flash: the stored ceiling is the one in RAM, the floor is not above it,
  and it is not the value that means "first boot".
\<close>

definition ceiling_inv ::
  "'e platform \<Rightarrow> ('e \<Rightarrow> string \<Rightarrow> byte list option) \<Rightarrow> ReplayGuard \<times> 'e \<Rightarrow> bool" where
  "ceiling_inv P stored s \<longleftrightarrow>
     flash_reliable P stored \<and> mPersistent (fst s) \<and>
     stored (snd s) ceiling_key = Some (u32_mem (mCeiling (fst s))) \<and>
     mFloor (fst s) \<le> mCeiling (fst s) \<and> mCeiling (fst s) \<noteq> 0"

text \<open>
  A power cycle. Power may be lost between operations or inside \<open>Accept\<close>, after the
  reservation was saved and before the floor moved; whatever else happens to the outside
  state, the stored ceiling survives, and \<open>Init\<close> runs on a fresh object.
\<close>

definition power_loss_point :: "'e platform \<Rightarrow> ReplayGuard \<times> 'e \<Rightarrow> 'e \<Rightarrow> bool" where
  "power_loss_point P s e1 \<longleftrightarrow>
     e1 = snd s \<or>
     (\<exists>c err g1. IsFresh (fst s) c \<and> mCeiling (fst s) \<le> c \<and> \<not> c + kReserve < c \<and>
        PersistCeiling P (c + kReserve) (fst s) (snd s) = (err, g1, e1))"

definition guard_restart ::
  "'e platform \<Rightarrow> ('e \<Rightarrow> string \<Rightarrow> byte list option) \<Rightarrow>
   ReplayGuard \<times> 'e \<Rightarrow> ReplayGuard \<times> 'e \<Rightarrow> bool" where
  "guard_restart P stored s s' \<longleftrightarrow>
     (\<exists>e1 e2. power_loss_point P s e1 \<and> stored e2 ceiling_key = stored e1 ceiling_key \<and>
        ReplayGuard_Init P new_guard e2 = (CHIP_NO_ERROR, s'))"

lemma Accept_ceiling_inv:
  assumes inv: "ceiling_inv P stored (g, e)" and acc: "Accept P c g e = (err, g', e')"
  shows "ceiling_inv P stored (g', e')"
proof -
  have P: "flash_reliable P stored" using inv by (simp add: ceiling_inv_def)
  consider (stale) "\<not> IsFresh g c" | (inside) "IsFresh g c" "c < mCeiling g"
    | (wrap) "IsFresh g c" "mCeiling g \<le> c" "c + kReserve < c"
    | (extend) "IsFresh g c" "mCeiling g \<le> c" "\<not> c + kReserve < c"
    by fastforce
  then show ?thesis
  proof cases
    case stale
    with acc inv show ?thesis by (simp add: Accept_stale)
  next
    case inside
    with acc inv show ?thesis by (auto simp: Accept_within_reservation ceiling_inv_def)
  next
    case wrap
    with acc inv show ?thesis by (simp add: Accept_exhausted)
  next
    case extend
    obtain rc e1 where save: "settings_save_one P ceiling_key (u32_mem (c + kReserve)) e = (rc, e1)"
      by fastforce
    have rc: "rc = 0" using flash_reliableD(3) [OF P save] .
    have less: "c < c + kReserve" using extend(3) by (rule no_wrap_less)
    have "g' = g\<lparr>mCeiling := c + kReserve, mFloor := c\<rparr>" "e' = e1"
      using acc extend save rc inv
      by (auto simp: Accept_def PersistCeiling_def Let_def ceiling_inv_def)
    moreover have "stored e1 ceiling_key = Some (u32_mem (c + kReserve))"
      using flash_okD(5) [OF flash_reliableD(1) [OF P]] save rc by blast
    moreover have "c + kReserve \<noteq> 0" using less by (metis word_not_simps(1))
    ultimately show ?thesis using inv less by (simp add: ceiling_inv_def less_imp_le)
  qed
qed

lemma power_loss_ceiling:
  assumes inv: "ceiling_inv P stored (g, e)" and loss: "power_loss_point P (g, e) e1"
  obtains v where "stored e1 ceiling_key = Some (u32_mem v)" "mFloor g \<le> v" "v \<noteq> 0"
proof -
  have P: "flash_reliable P stored" using inv by (simp add: ceiling_inv_def)
  from loss consider (idle) "e1 = e"
    | (saved) c err g1 where "IsFresh g c" "\<not> c + kReserve < c"
        "PersistCeiling P (c + kReserve) g e = (err, g1, e1)"
    by (auto simp: power_loss_point_def)
  then show thesis
  proof cases
    case idle
    with inv that show thesis by (auto simp: ceiling_inv_def)
  next
    case saved
    have pers: "mPersistent g" using inv by (simp add: ceiling_inv_def)
    then obtain rc where "settings_save_one P ceiling_key (u32_mem (c + kReserve)) e = (rc, e1)"
      using saved(3) by (auto simp: PersistCeiling_def Let_def split: if_splits prod.splits)
    then have "stored e1 ceiling_key = Some (u32_mem (c + kReserve))"
      using flash_reliableD(1,3) [OF P] flash_okD(5) by metis
    moreover have "c < c + kReserve" using saved(2) by (rule no_wrap_less)
    moreover have "mFloor g < c" using saved(1) by (simp add: IsFresh_def)
    ultimately show thesis
      using that by (metis less_imp_le order.strict_trans word_not_simps(1))
  qed
qed

lemma guard_restart_inv:
  assumes inv: "ceiling_inv P stored s" and restart: "guard_restart P stored s s'"
  shows "ceiling_inv P stored s' \<and> mFloor (fst s) \<le> mFloor (fst s')"
proof -
  obtain g e g' e' where s: "s = (g, e)" "s' = (g', e')" by fastforce
  have P: "flash_reliable P stored" using inv by (simp add: ceiling_inv_def)
  obtain e1 e2 where loss: "power_loss_point P (g, e) e1"
    and same: "stored e2 ceiling_key = stored e1 ceiling_key"
    and boot: "ReplayGuard_Init P new_guard e2 = (CHIP_NO_ERROR, g', e')"
    using restart s by (auto simp: guard_restart_def)
  obtain v where v: "stored e1 ceiling_key = Some (u32_mem v)" "mFloor g \<le> v" "v \<noteq> 0"
    using power_loss_ceiling [OF inv [unfolded s] loss] .
  obtain rc e3 where init: "settings_subsys_init P e2 = (rc, e3)" by fastforce
  obtain calls rc' e4 where load: "settings_load_subtree_direct P ceiling_key e3 = (calls, rc', e4)"
    by (metis prod_cases3)
  have rc: "rc = 0" using flash_reliableD(2) [OF P init] .
  have fo: "flash_ok P stored" using flash_reliableD(1) [OF P] .
  have "ReplayGuard_Init P new_guard e2 =
      (CHIP_NO_ERROR, \<lparr>mFloor = v, mCeiling = v, mPersistent = True\<rparr>, e4)"
    using Init_stored [OF fo _ init [unfolded rc] _ v(3) load] P same v(1)
    by (simp add: flash_reliable_def)
  then have g': "g' = \<lparr>mFloor = v, mCeiling = v, mPersistent = True\<rparr>" "e' = e4"
    using boot by simp_all
  have "stored e4 ceiling_key = Some (u32_mem v)"
    using steps_byD(1) [OF flash_okD(1) [OF fo] init] steps_byD(2) [OF flash_okD(1) [OF fo] load]
      same v(1) by simp
  with g' v s P show ?thesis by (simp add: ceiling_inv_def)
qed

interpretation durable: durable_guard "\<lambda>s. IsFresh (fst s)" "\<lambda>s. mFloor (fst s)"
  "guard_accept P" "ceiling_inv P stored" "guard_restart P stored"
  for P :: "'e platform" and stored :: "'e \<Rightarrow> string \<Rightarrow> byte list option"
proof unfold_locales
  fix s s' :: "ReplayGuard \<times> 'e" and c ok
  assume inv: "ceiling_inv P stored s" and acc: "guard_accept P c s = (ok, s')"
  obtain g e where s: "s = (g, e)" by fastforce
  obtain err g' e' where A: "Accept P c g e = (err, g', e')" by (metis prod_cases3)
  then have "s' = (g', e')" using acc s by (simp add: guard_accept_def Let_def)
  with Accept_ceiling_inv [OF inv [unfolded s] A] show "ceiling_inv P stored s'" by simp
next
  fix s s' :: "ReplayGuard \<times> 'e"
  assume "ceiling_inv P stored s" and "guard_restart P stored s s'"
  then show "ceiling_inv P stored s'" and "mFloor (fst s) \<le> mFloor (fst s')"
    by (simp_all add: guard_restart_inv)
qed

text \<open>The first boot of a device establishes what the interpretation maintains.\<close>

lemma first_boot_inv:
  assumes P: "flash_reliable P stored" and "stored e ceiling_key = None"
    and boot: "ReplayGuard_Init P g e = (err, g', e')"
  shows "err = CHIP_NO_ERROR \<and> ceiling_inv P stored (g', e') \<and> mFloor g' = 0"
proof -
  have fo: "flash_ok P stored" using flash_reliableD(1) [OF P] .
  obtain rc e1 where init: "settings_subsys_init P e = (rc, e1)" by fastforce
  obtain calls rc' e2 where load: "settings_load_subtree_direct P ceiling_key e1 = (calls, rc', e2)"
    by (metis prod_cases3)
  obtain rc'' e3 where save: "settings_save_one P ceiling_key (u32_mem kReserve) e2 = (rc'', e3)"
    by fastforce
  have "stored e1 ceiling_key = None"
    using steps_byD(1) [OF flash_okD(1) [OF fo] init] assms(2) by simp
  then have "calls = []" by (rule loads_faithfullyD(1) [OF flash_reliableD(4) [OF P] load])
  then have "ReplayGuard_Init P g e =
      (CHIP_NO_ERROR, \<lparr>mFloor = 0, mCeiling = kReserve, mPersistent = True\<rparr>, e3)"
    using Init_nothing_valid [OF _ load _ save] init flash_reliableD(2) [OF P init]
      flash_reliableD(3) [OF P save] by simp
  moreover have "stored e3 ceiling_key = Some (u32_mem kReserve)"
    using flash_okD(5) [OF fo] save flash_reliableD(3) [OF P save] by blast
  ultimately show ?thesis using boot P by (auto simp: ceiling_inv_def kReserve_def)
qed

section \<open>The price of a restart\<close>

text \<open>The ceiling is never more than one reservation ahead, so that is what a restart skips.\<close>

lemma run_accepts_invariant:
  assumes "\<And>s c ok s'. Q s \<Longrightarrow> acc c s = (ok, s') \<Longrightarrow> Q s'"
  shows "run_accepts acc cs s = (as, s') \<Longrightarrow> Q s \<Longrightarrow> Q s'"
proof (induction cs arbitrary: s as)
  case (Cons c cs)
  obtain ok s1 where a: "acc c s = (ok, s1)" by fastforce
  obtain as1 where "run_accepts acc cs s1 = (as1, s')"
    using Cons.prems(1) a by (auto simp: Let_def split: prod.splits)
  then show ?case using assms [OF Cons.prems(2) a] by (rule Cons.IH)
qed simp

definition reserve_inv ::
  "'e platform \<Rightarrow> ('e \<Rightarrow> string \<Rightarrow> byte list option) \<Rightarrow> ReplayGuard \<times> 'e \<Rightarrow> bool" where
  "reserve_inv P stored s \<longleftrightarrow>
     ceiling_inv P stored s \<and> unat (mCeiling (fst s)) \<le> unat (mFloor (fst s)) + 64"

lemma unat_add_reserve: "\<not> c + kReserve < c \<Longrightarrow> unat (c + kReserve) = unat c + 64"
  unfolding wrap_guard_iff by (simp add: kReserve_def unat_word_ariths)

lemma guard_accept_reserve:
  assumes inv: "reserve_inv P stored s" and acc: "guard_accept P c s = (ok, s')"
  shows "reserve_inv P stored s'"
proof -
  obtain g e g' e' where s: "s = (g, e)" "s' = (g', e')" by fastforce
  obtain err where A: "Accept P c g e = (err, g', e')"
    using acc s by (auto simp: guard_accept_def Let_def split: prod.splits)
  have C: "ceiling_inv P stored (g, e)" and R: "unat (mCeiling g) \<le> unat (mFloor g) + 64"
    using inv s by (simp_all add: reserve_inv_def)
  consider "\<not> IsFresh g c" | "IsFresh g c" "c < mCeiling g"
    | "IsFresh g c" "mCeiling g \<le> c" "c + kReserve < c"
    | "IsFresh g c" "mCeiling g \<le> c" "\<not> c + kReserve < c" by fastforce
  then have "unat (mCeiling g') \<le> unat (mFloor g') + 64"
  proof cases
    case 1
    with A R show ?thesis by (simp add: Accept_stale)
  next
    case 2
    have "mFloor g < c" using 2(1) by (simp add: IsFresh_def)
    then have "unat (mFloor g) < unat c" by (simp add: word_less_nat_alt)
    with A R 2 show ?thesis by (auto simp: Accept_within_reservation)
  next
    case 3
    with A R show ?thesis by (simp add: Accept_exhausted)
  next
    case 4
    obtain rc e1 where save: "settings_save_one P ceiling_key (u32_mem (c + kReserve)) e = (rc, e1)"
      by fastforce
    have "rc = 0" "mPersistent g"
      using C flash_reliableD(3) [OF _ save, of stored] by (simp_all add: ceiling_inv_def)
    then have "g' = g\<lparr>mCeiling := c + kReserve, mFloor := c\<rparr>"
      using A 4 save by (simp add: Accept_def PersistCeiling_def Let_def)
    with unat_add_reserve [OF 4(3)] show ?thesis by simp
  qed
  with Accept_ceiling_inv [OF C A] s show ?thesis by (simp add: reserve_inv_def)
qed

section \<open>Where the promise stops\<close>

text \<open>
  A save that fails while the ceiling is extended: \<open>Accept\<close> reports the error and leaves the
  floor, but the new ceiling stays in RAM although flash does not hold it.
\<close>

lemma Accept_persist_failure:
  assumes "IsFresh g c" "mCeiling g \<le> c" "\<not> c + kReserve < c" "mPersistent g"
    and "settings_save_one P ceiling_key (u32_mem (c + kReserve)) e = (rc, e')" "rc \<noteq> 0"
  shows "Accept P c g e =
    (CHIP_ERROR_PERSISTED_STORAGE_FAILED, g\<lparr>mCeiling := c + kReserve\<rparr>, e')"
  using assms by (simp add: Accept_def PersistCeiling_def)

text \<open>From then on counters up to that ceiling are accepted with no save at all.\<close>

lemma Accept_after_persist_failure:
  assumes "IsFresh g c'" "c' < c + kReserve"
  shows "Accept P c' (g\<lparr>mCeiling := c + kReserve\<rparr>) e =
    (CHIP_NO_ERROR, g\<lparr>mCeiling := c + kReserve, mFloor := c'\<rparr>, e)"
  using assms by (simp add: Accept_within_reservation IsFresh_def)

end
