(* ===== verification/Client_Key.thy ===== *)
theory Client_Key
  imports Crypto
begin

text \<open>
  \<open>tunnel_client_key.h\<close> and \<open>tunnel_client_key.cpp\<close>: the registered client key and the
  physical-presence window. \<open>mKey\<close> is the first \<open>mKeyLen\<close> bytes of the array; the
  uptime is an integer, since a 64-bit count of milliseconds does not overflow and the
  signed overflow would be undefined. The list of handlers that \<open>dk_button_handler_add\<close>
  keeps outside the component is represented by the number of times it was called. The static
  buffer \<open>gLoadedKey\<close>, of which \<open>Init\<close> resets the length only, starts from zeros here: its
  old contents are never used, since the length is set by a read of all 32 bytes.

  The registration interface says what a window is for; its client lemma bounds how many
  registrations one opening admits.
\<close>

section \<open>State and operations\<close>

definition kRegistrationWindowMs :: int where "kRegistrationWindowMs = 60000"

definition clientkey_key :: string where "clientkey_key = ''tunnel/clientkey''"

text \<open>\<open>DK_BTN4_MSK\<close> of the board support library is bit 3.\<close>

definition kRegisterButtonMask :: u32 where "kRegisterButtonMask = 8"

definition kKeySize :: nat where "kKeySize = 32"

record ClientKeyStore =
  mKey :: "byte list"
  mKeyLen :: nat
  mWindowUntilMs :: int
  mImported :: u32
  mHandlersAdded :: nat

definition new_store :: ClientKeyStore where
  "new_store = \<lparr>mKey = replicate 32 0, mKeyLen = 0, mWindowUntilMs = 0,
     mImported = PSA_KEY_ID_NULL, mHandlersAdded = 0\<rparr>"

record loaded_key =
  gLoadedKey :: "byte list"
  gLoadedLen :: nat

definition clientkey_LoadCb :: "load_call \<Rightarrow> loaded_key \<Rightarrow> int \<times> loaded_key" where
  "clientkey_LoadCb c ld =
     (if lc_len c \<noteq> kKeySize then (- EINVAL, ld)
      else let ld = ld\<lparr>gLoadedKey := overlay (gLoadedKey ld) (lc_data c)\<rparr>
           in if lc_ret c \<noteq> int kKeySize then (- EIO, ld)
              else (0, ld\<lparr>gLoadedLen := kKeySize\<rparr>))"

definition ClientKeyStore_Init ::
  "'e platform \<Rightarrow> ClientKeyStore \<Rightarrow> 'e \<Rightarrow> chip_error \<times> ClientKeyStore \<times> 'e" where
  "ClientKeyStore_Init P ks e =
     (let ld = \<lparr>gLoadedKey = replicate kKeySize 0, gLoadedLen = 0\<rparr>;
          (rc, e) = settings_subsys_init P e;
          (ld, e) = (if rc = 0
            then let (calls, rc, e) = settings_load_subtree_direct P clientkey_key e
                 in (fold (\<lambda>c ld. snd (clientkey_LoadCb c ld)) calls ld, e)
            else (ld, e));
          ks = (if gLoadedLen ld = kKeySize
                then ks\<lparr>mKey := gLoadedKey ld, mKeyLen := kKeySize\<rparr> else ks);
          ks = ks\<lparr>mHandlersAdded := mHandlersAdded ks + 1\<rparr>
      in (CHIP_NO_ERROR, ks, e))"

definition HasKey :: "ClientKeyStore \<Rightarrow> bool" where
  "HasKey ks \<longleftrightarrow> mKeyLen ks \<noteq> 0"

definition Key :: "ClientKeyStore \<Rightarrow> byte list" where
  "Key ks = take (mKeyLen ks) (mKey ks)"

definition WindowOpen :: "'e platform \<Rightarrow> ClientKeyStore \<Rightarrow> 'e \<Rightarrow> bool" where
  "WindowOpen P ks e \<longleftrightarrow> mWindowUntilMs ks \<noteq> 0 \<and> k_uptime_get P e < mWindowUntilMs ks"

definition OpenWindow :: "'e platform \<Rightarrow> 'e \<Rightarrow> ClientKeyStore \<Rightarrow> ClientKeyStore" where
  "OpenWindow P e ks = ks\<lparr>mWindowUntilMs := k_uptime_get P e + kRegistrationWindowMs\<rparr>"

text \<open>
  The handler, and its call by the button library: a handler that was never added is not
  called.
\<close>

definition ButtonHandler ::
  "'e platform \<Rightarrow> u32 \<Rightarrow> u32 \<Rightarrow> 'e \<Rightarrow> ClientKeyStore \<Rightarrow> ClientKeyStore" where
  "ButtonHandler P button_state has_changed e ks =
     (if (kRegisterButtonMask AND has_changed) AND button_state \<noteq> 0
      then OpenWindow P e ks else ks)"

definition button_event ::
  "'e platform \<Rightarrow> u32 \<Rightarrow> u32 \<Rightarrow> 'e \<Rightarrow> ClientKeyStore \<Rightarrow> ClientKeyStore" where
  "button_event P button_state has_changed e ks =
     (if mHandlersAdded ks = 0 then ks else ButtonHandler P button_state has_changed e ks)"

text \<open>\<open>Register\<close>: the result of the save is logged and otherwise ignored.\<close>

definition Register ::
  "'e platform \<Rightarrow> byte list \<Rightarrow> ClientKeyStore \<Rightarrow> 'e \<Rightarrow> chip_error \<times> ClientKeyStore \<times> 'e" where
  "Register P key ks e =
     (if \<not> WindowOpen P ks e then (CHIP_ERROR_ACCESS_DENIED, ks, e)
      else if length key \<noteq> kKeySize then (CHIP_ERROR_INVALID_ARGUMENT, ks, e)
      else
        let ks = ks\<lparr>mKey := key, mKeyLen := kKeySize\<rparr>;
            (ks, e) = (if mImported ks \<noteq> PSA_KEY_ID_NULL
              then let (st, e) = psa_destroy_key P (mImported ks) e
                   in (ks\<lparr>mImported := PSA_KEY_ID_NULL\<rparr>, e)
              else (ks, e));
            (rc, e) = settings_save_one P clientkey_key (mKey ks) e;
            ks = ks\<lparr>mWindowUntilMs := 0\<rparr>
        in (CHIP_NO_ERROR, ks, e))"

text \<open>\<open>ClientKeyStore::Verify\<close>: \<open>ImportPublicKey\<close> writes \<open>mImported\<close> in either case.\<close>

definition store_Verify ::
  "'e platform \<Rightarrow> byte list \<Rightarrow> byte list \<Rightarrow> ClientKeyStore \<Rightarrow> 'e \<Rightarrow>
   int \<times> ClientKeyStore \<times> 'e" where
  "store_Verify P msg sig ks e =
     (if mKeyLen ks = 0 then (PSA_ERROR_BAD_STATE, ks, e)
      else
        let (st, ks, e) = (if mImported ks = PSA_KEY_ID_NULL
              then let (st, h, e) = ImportPublicKey P Ed25519 (Key ks) e
                   in (st, ks\<lparr>mImported := h\<rparr>, e)
              else (PSA_SUCCESS, ks, e))
        in if st \<noteq> PSA_SUCCESS then (st, ks, e)
           else let (st, e) = VerifyWith P (mImported ks) Ed25519 msg sig e
                in (st, ks, e))"

section \<open>One operation at a time\<close>

definition store_wf :: "ClientKeyStore \<Rightarrow> bool" where
  "store_wf ks \<longleftrightarrow> length (mKey ks) = kKeySize \<and> (mKeyLen ks = 0 \<or> mKeyLen ks = kKeySize)"

lemma new_store_wf [simp]: "store_wf new_store"
  by (simp add: store_wf_def new_store_def kKeySize_def)

lemma Key_full: "store_wf ks \<Longrightarrow> HasKey ks \<Longrightarrow> Key ks = mKey ks"
  by (auto simp: store_wf_def HasKey_def Key_def)

lemma length_Key: "store_wf ks \<Longrightarrow> HasKey ks \<Longrightarrow> length (Key ks) = 32"
  by (auto simp: store_wf_def HasKey_def Key_def kKeySize_def)

lemma Register_closed:
  "\<not> WindowOpen P ks e \<Longrightarrow> Register P key ks e = (CHIP_ERROR_ACCESS_DENIED, ks, e)"
  by (simp add: Register_def)

lemma Register_bad_length:
  "WindowOpen P ks e \<Longrightarrow> length key \<noteq> 32 \<Longrightarrow>
   Register P key ks e = (CHIP_ERROR_INVALID_ARGUMENT, ks, e)"
  by (simp add: Register_def kKeySize_def)

text \<open>A registration that succeeds, taken apart.\<close>

lemma Register_ok_cases:
  assumes "Register P key ks e = (CHIP_NO_ERROR, ks', e')"
  obtains e1 rc where "WindowOpen P ks e" "length key = 32"
    "ks' = ks\<lparr>mKey := key, mKeyLen := 32, mWindowUntilMs := 0, mImported := 0\<rparr>"
    "(mImported ks = 0 \<and> e1 = e) \<or>
     (mImported ks \<noteq> 0 \<and> (\<exists>st. psa_destroy_key P (mImported ks) e = (st, e1)))"
    "settings_save_one P clientkey_key key e1 = (rc, e')"
proof (cases "mImported ks = 0")
  case True
  then show thesis
    using assms that [of e]
    by (cases ks) (auto simp: Register_def kKeySize_def Let_def split: if_splits prod.splits)
next
  case False
  obtain st e1 where d: "psa_destroy_key P (mImported ks) e = (st, e1)" by fastforce
  show thesis
    using assms that [of e1] d False
    by (cases ks) (auto simp: Register_def kKeySize_def Let_def split: if_splits prod.splits)
qed

lemma Register_refused:
  "Register P key ks e = (err, ks', e') \<Longrightarrow> err \<noteq> CHIP_NO_ERROR \<Longrightarrow> ks' = ks \<and> e' = e"
  by (auto simp: Register_def Let_def split: if_splits prod.splits)

lemma Register_wf:
  assumes "Register P key ks e = (err, ks', e')" "store_wf ks"
  shows "store_wf ks'"
proof (cases "err = CHIP_NO_ERROR")
  case True
  with assms(1) have "Register P key ks e = (CHIP_NO_ERROR, ks', e')" by simp
  then show ?thesis
    by (rule Register_ok_cases) (auto simp: store_wf_def kKeySize_def)
next
  case False
  with Register_refused [OF assms(1)] assms(2) show ?thesis by simp
qed

lemma store_Verify_fields:
  "store_Verify P msg sig ks e = (st, ks', e') \<Longrightarrow>
   mKey ks' = mKey ks \<and> mKeyLen ks' = mKeyLen ks \<and> mWindowUntilMs ks' = mWindowUntilMs ks \<and>
   mHandlersAdded ks' = mHandlersAdded ks"
  by (auto simp: store_Verify_def Let_def split: if_splits prod.splits)

lemma store_Verify_wf:
  "store_Verify P msg sig ks e = (st, ks', e') \<Longrightarrow> store_wf ks \<Longrightarrow> store_wf ks'"
  using store_Verify_fields by (fastforce simp: store_wf_def)

lemma OpenWindow_wf: "store_wf ks \<Longrightarrow> store_wf (OpenWindow P e ks)"
  by (simp add: store_wf_def OpenWindow_def)

lemma button_event_wf: "store_wf ks \<Longrightarrow> store_wf (button_event P b c e ks)"
  by (simp add: button_event_def ButtonHandler_def OpenWindow_wf)

lemma length_clientkey_LoadCb [simp]:
  "length (gLoadedKey (snd (clientkey_LoadCb c ld))) = length (gLoadedKey ld)"
  by (simp add: clientkey_LoadCb_def Let_def)

lemma length_fold_clientkey_LoadCb [simp]:
  "length (gLoadedKey (fold (\<lambda>c ld. snd (clientkey_LoadCb c ld)) calls ld)) = length (gLoadedKey ld)"
  by (induction calls arbitrary: ld) simp_all

lemma ClientKeyStore_Init_wf:
  "ClientKeyStore_Init P ks e = (err, ks', e') \<Longrightarrow> store_wf ks \<Longrightarrow> store_wf ks'"
  by (auto simp: ClientKeyStore_Init_def Let_def store_wf_def split: if_splits prod.splits)

lemma ClientKeyStore_Init_fields:
  "ClientKeyStore_Init P ks e = (err, ks', e') \<Longrightarrow>
   mWindowUntilMs ks' = mWindowUntilMs ks \<and> mImported ks' = mImported ks \<and>
   mHandlersAdded ks' = mHandlersAdded ks + 1 \<and> err = CHIP_NO_ERROR"
  by (auto simp: ClientKeyStore_Init_def Let_def split: if_splits prod.splits)

text \<open>The window opens only by the handler, for exactly the advertised time.\<close>

lemma OpenWindow_until:
  "0 \<le> k_uptime_get P e \<Longrightarrow>
   WindowOpen P (OpenWindow P e ks) e' \<longleftrightarrow>
     k_uptime_get P e' < k_uptime_get P e + kRegistrationWindowMs"
  by (auto simp: WindowOpen_def OpenWindow_def kRegistrationWindowMs_def)

text \<open>Effects on the outside state.\<close>

lemma store_Verify_steps:
  assumes S: "steps_by P R" and R: "reflp R" "transp R"
    and V: "store_Verify P msg sig ks e = (st, ks', e')"
  shows "R e e'"
proof -
  obtain st1 h e1 where imp: "ImportPublicKey P Ed25519 (Key ks) e = (st1, h, e1)"
    by (metis prod_cases3)
  have "R e e" using R(1) by (simp add: reflp_def)
  moreover have i: "R e e1"
    using steps_byD(9) [OF S] imp by (auto simp: ImportPublicKey_def)
  moreover have "\<And>x h' st2. R e x \<Longrightarrow> VerifyWith P h' Ed25519 msg sig x = (st2, e') \<Longrightarrow> R e e'"
    using steps_byD(8) [OF S] R(2) unfolding VerifyWith_def by (meson transpE)
  ultimately show ?thesis
    using V imp by (auto simp: store_Verify_def Let_def split: if_splits prod.splits)
qed

lemma ClientKeyStore_Init_steps:
  assumes S: "steps_by P R" and R: "transp R"
    and "ClientKeyStore_Init P ks e = (err, ks', e')"
  shows "R e e'"
proof -
  obtain rc e1 where init: "settings_subsys_init P e = (rc, e1)" by fastforce
  obtain calls rc' e2 where load: "settings_load_subtree_direct P clientkey_key e1 = (calls, rc', e2)"
    by (metis prod_cases3)
  have "R e e1" "R e1 e2" using steps_byD [OF S] init load by blast+
  then have "R e e2" using R by (meson transpE)
  with \<open>R e e1\<close> show ?thesis
    using assms(3) init load by (auto simp: ClientKeyStore_Init_def Let_def split: if_splits)
qed

section \<open>The registration interface\<close>

text \<open>
  A gate: registering needs an open window and closes it, a refused registration changes
  nothing. So between two openings at most one key is recorded, whoever sends it.
\<close>

fun run_registers :: "('k \<Rightarrow> 's \<Rightarrow> bool \<times> 's) \<Rightarrow> 'k list \<Rightarrow> 's \<Rightarrow> 'k list \<times> 's" where
  "run_registers reg [] s = ([], s)"
| "run_registers reg (k # ks) s =
     (let (ok, s1) = reg k s; (rs, s2) = run_registers reg ks s1
      in (if ok then k # rs else rs, s2))"

locale registration_gate =
  fixes gate_open :: "'s \<Rightarrow> bool"
    and reg :: "'k \<Rightarrow> 's \<Rightarrow> bool \<times> 's"
    and registered :: "'s \<Rightarrow> 'k option"
  assumes reg_needs_open: "reg k s = (True, s') \<Longrightarrow> gate_open s"
    and reg_closes: "reg k s = (True, s') \<Longrightarrow> \<not> gate_open s' \<and> registered s' = Some k"
    and reg_refused: "reg k s = (False, s') \<Longrightarrow> s' = s"
begin

lemma closed_gate_admits_nothing:
  "\<not> gate_open s \<Longrightarrow> run_registers reg ks s = ([], s)"
proof (induction ks arbitrary: s)
  case Nil
  then show ?case by simp
next
  case (Cons k ks)
  obtain ok s1 where r: "reg k s = (ok, s1)" by fastforce
  have "\<not> ok" using reg_needs_open [of k s s1] r Cons.prems by auto
  then have "s1 = s" using reg_refused [of k s s1] r by simp
  with r \<open>\<not> ok\<close> Cons show ?case by simp
qed

lemma one_registration_per_opening:
  "run_registers reg ks s = (rs, s') \<Longrightarrow>
   (rs = [] \<and> s' = s) \<or> (\<exists>k. rs = [k] \<and> registered s' = Some k \<and> \<not> gate_open s')"
proof (induction ks arbitrary: s)
  case Nil
  then show ?case by simp
next
  case (Cons k ks)
  obtain ok s1 where r: "reg k s = (ok, s1)" by fastforce
  show ?case
  proof (cases ok)
    case True
    then have "reg k s = (True, s1)" using r by simp
    note c = reg_closes [OF this]
    have "run_registers reg ks s1 = ([], s1)" using c by (intro closed_gate_admits_nothing) simp
    with Cons.prems r True c show ?thesis by (auto simp: Let_def)
  next
    case False
    then have "s1 = s" using reg_refused [of k s s1] r by simp
    with Cons r False show ?thesis by (auto simp: Let_def split: prod.splits)
  qed
qed

end

definition gate_register ::
  "'e platform \<Rightarrow> byte list \<Rightarrow> ClientKeyStore \<times> 'e \<Rightarrow> bool \<times> ClientKeyStore \<times> 'e" where
  "gate_register P key s =
     (let (err, ks, e) = Register P key (fst s) (snd s) in (err = CHIP_NO_ERROR, ks, e))"

lemma gate_register_True:
  "gate_register P key (ks, e) = (True, ks', e') \<longleftrightarrow>
   Register P key ks e = (CHIP_NO_ERROR, ks', e')"
  by (auto simp: gate_register_def Let_def split: prod.splits)

lemma gate_register_False:
  "gate_register P key (ks, e) = (False, ks', e') \<longleftrightarrow>
   (\<exists>err. err \<noteq> CHIP_NO_ERROR \<and> Register P key ks e = (err, ks', e'))"
  by (auto simp: gate_register_def Let_def split: prod.splits)

interpretation gate: registration_gate
  "\<lambda>s. WindowOpen P (fst s) (snd s)" "gate_register P"
  "\<lambda>s. if HasKey (fst s) then Some (Key (fst s)) else None"
  for P :: "'e platform"
proof unfold_locales
  fix k and s s' :: "ClientKeyStore \<times> 'e"
  show "gate_register P k s = (True, s') \<Longrightarrow> WindowOpen P (fst s) (snd s)"
    by (cases s; cases s') (auto simp: gate_register_True elim: Register_ok_cases)
  show "gate_register P k s = (True, s') \<Longrightarrow> \<not> WindowOpen P (fst s') (snd s') \<and>
      (if HasKey (fst s') then Some (Key (fst s')) else None) = Some k"
    by (cases s; cases s')
       (auto simp: gate_register_True WindowOpen_def HasKey_def Key_def elim!: Register_ok_cases)
  show "gate_register P k s = (False, s') \<Longrightarrow> s' = s"
    by (cases s; cases s') (auto simp: gate_register_False dest: Register_refused)
qed

end
