(* ===== verification/Core.thy ===== *)
theory Core
  imports Envelope Identity Replay_Life Client_Key
begin

text \<open>
  \<open>tunnel_core.h\<close> and the transport-agnostic part of \<open>tunnel_server.cpp\<close>: the file-level
  state, the two lazy initialisers and \<open>ProcessRequest\<close>, one definition per arm of its
  switch. A result is the response bytes (\<open>out\<close> up to the returned length) with
  \<open>*reject\<close>. The preprocessor's configuration is a record tested where the code has
  \<open>#if\<close>.

  Two arms go back to the request buffer after calls that take time. \<open>view k\<close> is what the
  buffer holds at the \<open>k\<close>-th of these points: 0 the header checks, 1 the request preimage (or
  the key to register), 2 the client signature, 3 the response preimage, 4 the copy into the
  response. The Matter transport passes one buffer that does not change (\<open>ProcessRequest\<close>);
  \<open>Ble_Adapter\<close> uses the general form (\<open>ProcessRequest_view\<close>), because there the buffer is
  shared with the receive callback.
\<close>

section \<open>Configuration and constants\<close>

record config =
  CONFIG_TUNNEL_SECURITY :: bool
  CONFIG_TUNNEL_CLIENT_AUTH :: bool

text \<open>\<open>TUNNEL_CLIENT_AUTH\<close> depends on \<open>TUNNEL_SECURITY\<close> in \<open>Kconfig\<close>.\<close>

definition config_ok :: "config \<Rightarrow> bool" where
  "config_ok cfg \<longleftrightarrow> (CONFIG_TUNNEL_CLIENT_AUTH cfg \<longrightarrow> CONFIG_TUNNEL_SECURITY cfg)"

definition full_config :: config where
  "full_config = \<lparr>CONFIG_TUNNEL_SECURITY = True, CONFIG_TUNNEL_CLIENT_AUTH = True\<rparr>"

datatype reject = Reject_None | InvalidCommand | ConstraintError | Failure

definition kMaxResponse :: nat where "kMaxResponse = 512"

definition kTypeEcho :: byte where "kTypeEcho = 0xFF"
definition kTypeIdentityRequest :: byte where "kTypeIdentityRequest = 0x00"
definition kTypeIdentityResponse :: byte where "kTypeIdentityResponse = 0x01"
definition kTypeSignedRequest :: byte where "kTypeSignedRequest = 0x02"
definition kTypeSignedResponse :: byte where "kTypeSignedResponse = 0x03"
definition kTypeReplayReject :: byte where "kTypeReplayReject = 0x04"
definition kTypeRegisterClientKey :: byte where "kTypeRegisterClientKey = 0x05"
definition kTypeRegisterAck :: byte where "kTypeRegisterAck = 0x06"
definition kTypeAuthReject :: byte where "kTypeAuthReject = 0x07"

lemmas type_defs = kTypeEcho_def kTypeIdentityRequest_def kTypeIdentityResponse_def
  kTypeSignedRequest_def kTypeSignedResponse_def kTypeReplayReject_def
  kTypeRegisterClientKey_def kTypeRegisterAck_def kTypeAuthReject_def

definition kMaxChunk :: nat where "kMaxChunk = 400"

section \<open>State\<close>

record 'e core =
  gSigner :: Signer
  gBundle :: "byte list"
  gBundleLen :: nat
  gDevicePub :: "byte list"
  gReplay :: ReplayGuard
  gReplayReady :: bool
  gStore :: ClientKeyStore
  env :: 'e

text \<open>RAM after a reset.\<close>

definition boot :: "'e \<Rightarrow> 'e core" where
  "boot e = \<lparr>gSigner = new_signer, gBundle = replicate 1200 0, gBundleLen = 0, gDevicePub = [],
     gReplay = new_guard, gReplayReady = False, gStore = new_store, env = e\<rparr>"

section \<open>The lazy initialisers\<close>

text \<open>
  A build of the bundle that fails may have written part of \<open>gBundle\<close>; that is left out, since
  \<open>gBundleLen\<close> stays 0 and nothing reads the bytes until a later build replaces them.
\<close>

definition EnsureBundle :: "'e platform \<Rightarrow> 'e core \<Rightarrow> bool \<times> 'e core" where
  "EnsureBundle P d =
     (if gBundleLen d \<noteq> 0 then (True, d)
      else
        let (st, sg, e) = Signer_Init P Ed25519 (gSigner d) (env d);
            d = d\<lparr>gSigner := sg, env := e\<rparr>
        in if st \<noteq> PSA_SUCCESS then (False, d) else
        let (err, bundle, e) = BuildIdentityBundle P (gSigner d) 1200 (env d);
            d = d\<lparr>env := e\<rparr>
        in if err \<noteq> CHIP_NO_ERROR then (False, d) else
        let d = d\<lparr>gBundle := bundle, gBundleLen := length bundle\<rparr>;
            (st, pub, e) = ExportPublicKey P (gSigner d) kPublicKeyLenMax (env d);
            d = d\<lparr>env := e\<rparr>
        in if st \<noteq> PSA_SUCCESS then (False, d\<lparr>gBundleLen := 0\<rparr>)
           else (True, d\<lparr>gDevicePub := pub\<rparr>))"

definition EnsureReplay :: "'e platform \<Rightarrow> config \<Rightarrow> 'e core \<Rightarrow> bool \<times> 'e core" where
  "EnsureReplay P cfg d =
     (if gReplayReady d then (True, d)
      else
        let (err, g, e) = ReplayGuard_Init P (gReplay d) (env d);
            d = d\<lparr>gReplay := g, env := e\<rparr>
        in if err \<noteq> CHIP_NO_ERROR then (False, d) else
        let d = d\<lparr>gReplayReady := True\<rparr>
        in if CONFIG_TUNNEL_CLIENT_AUTH cfg
           then let (err, ks, e) = ClientKeyStore_Init P (gStore d) (env d)
                in (True, d\<lparr>gStore := ks, env := e\<rparr>)
           else (True, d))"

section \<open>The arms of ProcessRequest\<close>

definition echo_request :: "byte list \<Rightarrow> nat \<Rightarrow> byte list \<times> reject" where
  "echo_request inp outCap =
     (if length inp > outCap then ([], ConstraintError) else (inp, Reject_None))"

definition identity_request ::
  "'e platform \<Rightarrow> byte list \<Rightarrow> nat \<Rightarrow> 'e core \<Rightarrow> (byte list \<times> reject) \<times> 'e core" where
  "identity_request P inp outCap d =
     (if length inp < 3 then (([], InvalidCommand), d)
      else
        let offset = read_u16 (inp ! 1) (inp ! 2);
            (ok, d) = EnsureBundle P d
        in if \<not> ok then (([], Failure), d)
           else if offset \<ge> gBundleLen d then (([], ConstraintError), d)
           else
             let remaining = gBundleLen d - offset;
                 chunk = (if remaining < kMaxChunk then remaining else kMaxChunk)
             in if 5 + chunk > outCap then (([], ConstraintError), d)
                else (([kTypeIdentityResponse] @ put_u16 offset @ put_u16 (gBundleLen d)
                       @ take chunk (drop offset (gBundle d)), Reject_None), d))"

text \<open>
  The signed request: header and length checks first. The result is the counter and the two
  lengths; \<open>None\<close> is \<open>InvalidCommand\<close>.
\<close>

definition signed_parse :: "byte list \<Rightarrow> (u32 \<times> nat \<times> nat) option" where
  "signed_parse inp =
     (if length inp < 7 then None
      else
        let counter = ReadU32 (drop 1 inp);
            payloadLen = read_u16 (inp ! 5) (inp ! 6)
        in if length inp < 7 + payloadLen + 2 then None
           else
             let reqSigLen = read_u16 (inp ! (7 + payloadLen)) (inp ! (8 + payloadLen))
             in if length inp < 9 + payloadLen + reqSigLen then None
                else Some (counter, payloadLen, reqSigLen))"

definition payload_at :: "byte list \<Rightarrow> nat \<Rightarrow> byte list" where
  "payload_at inp payloadLen = take payloadLen (drop 7 inp)"

definition sig_at :: "byte list \<Rightarrow> nat \<Rightarrow> nat \<Rightarrow> byte list" where
  "sig_at inp payloadLen sigLen = take sigLen (drop (9 + payloadLen) inp)"

text \<open>Authenticity: \<open>None\<close> means the request goes on.\<close>

definition authenticate ::
  "'e platform \<Rightarrow> u32 \<Rightarrow> byte list \<Rightarrow> byte list \<Rightarrow> 'e core \<Rightarrow>
   (byte list \<times> reject) option \<times> 'e core" where
  "authenticate P counter payload reqSig d =
     (if \<not> HasKey (gStore d) then (Some ([kTypeAuthReject], Reject_None), d)
      else
        let (err, pre) = BuildPreimage kDirRequest counter (gDevicePub d) payload 700
        in if err \<noteq> CHIP_NO_ERROR then (Some ([], ConstraintError), d)
           else
             let (st, ks, e) = store_Verify P pre reqSig (gStore d) (env d);
                 d = d\<lparr>gStore := ks, env := e\<rparr>
             in if st \<noteq> PSA_SUCCESS then (Some ([kTypeAuthReject], Reject_None), d)
                else (None, d))"

text \<open>Freshness, and the state change it guards.\<close>

definition consume_counter ::
  "'e platform \<Rightarrow> u32 \<Rightarrow> 'e core \<Rightarrow> (byte list \<times> reject) option \<times> 'e core" where
  "consume_counter P counter d =
     (if \<not> IsFresh (gReplay d) counter
      then (Some (kTypeReplayReject # PutU32 (mFloor (gReplay d)), Reject_None), d)
      else
        let (err, g, e) = Accept P counter (gReplay d) (env d);
            d = d\<lparr>gReplay := g, env := e\<rparr>
        in if err \<noteq> CHIP_NO_ERROR then (Some ([], Failure), d) else (None, d))"

definition sign_response ::
  "'e platform \<Rightarrow> u32 \<Rightarrow> byte list \<Rightarrow> 'e core \<Rightarrow> (reject + byte list) \<times> 'e core" where
  "sign_response P counter payload d =
     (let (err, preimage) = BuildPreimage kDirResponse counter (gDevicePub d) payload 700
      in if err \<noteq> CHIP_NO_ERROR then (Inl ConstraintError, d)
         else
           let (st, sig, e) = Sign P (gSigner d) preimage kSignatureLen (env d);
               d = d\<lparr>env := e\<rparr>
           in if st \<noteq> PSA_SUCCESS then (Inl Failure, d) else (Inr sig, d))"

definition emit_response :: "u32 \<Rightarrow> nat \<Rightarrow> byte list \<Rightarrow> byte list \<Rightarrow> nat \<Rightarrow> byte list \<times> reject" where
  "emit_response counter payloadLen payload sig outCap =
     (if payloadLen > 256 \<or> 9 + payloadLen + kSignatureLen > outCap then ([], ConstraintError)
      else ([kTypeSignedResponse] @ PutU32 counter @ put_u16 payloadLen @ payload
            @ put_u16 (length sig) @ sig, Reject_None))"

definition signed_request ::
  "'e platform \<Rightarrow> config \<Rightarrow> (nat \<Rightarrow> byte list) \<Rightarrow> nat \<Rightarrow> 'e core \<Rightarrow>
   (byte list \<times> reject) \<times> 'e core" where
  "signed_request P cfg view outCap d =
     (case signed_parse (view 0) of
        None \<Rightarrow> (([], InvalidCommand), d)
      | Some (counter, payloadLen, reqSigLen) \<Rightarrow>
          let (ok, d) = EnsureBundle P d
          in if \<not> ok then (([], Failure), d) else
          let (ok, d) = EnsureReplay P cfg d
          in if \<not> ok then (([], Failure), d) else
          let (early, d) = (if CONFIG_TUNNEL_CLIENT_AUTH cfg
                then authenticate P counter (payload_at (view 1) payloadLen)
                       (sig_at (view 2) payloadLen reqSigLen) d
                else (None, d))
          in case early of Some r \<Rightarrow> (r, d) | None \<Rightarrow>
          let (early, d) = consume_counter P counter d
          in case early of Some r \<Rightarrow> (r, d) | None \<Rightarrow>
          let (res, d) = sign_response P counter (payload_at (view 3) payloadLen) d
          in case res of Inl rej \<Rightarrow> (([], rej), d) | Inr sig \<Rightarrow>
          (emit_response counter payloadLen (payload_at (view 4) payloadLen) sig outCap, d))"

definition register_client_key ::
  "'e platform \<Rightarrow> (nat \<Rightarrow> byte list) \<Rightarrow> nat \<Rightarrow> 'e core \<Rightarrow> (byte list \<times> reject) \<times> 'e core" where
  "register_client_key P view outCap d =
     (if length (view 0) < 3 then (([], InvalidCommand), d)
      else
        let keyLen = read_u16 (view 0 ! 1) (view 0 ! 2)
        in if length (view 0) < 3 + keyLen then (([], InvalidCommand), d) else
        let (ok, d) = EnsureBundle P d
        in if \<not> ok then (([], Failure), d) else
        let (err, ks, e) = Register P (take keyLen (drop 3 (view 1))) (gStore d) (env d);
            d = d\<lparr>gStore := ks, env := e\<rparr>
        in if err \<noteq> CHIP_NO_ERROR then (([kTypeAuthReject], Reject_None), d) else
        let stored = Key (gStore d);
            (err, pre) = BuildPreimage kDirResponse 0 (gDevicePub d) stored 256
        in if err \<noteq> CHIP_NO_ERROR then (([], Failure), d) else
        let (st, sig, e) = Sign P (gSigner d) pre kSignatureLen (env d);
            d = d\<lparr>env := e\<rparr>
        in if st \<noteq> PSA_SUCCESS then (([], Failure), d)
           else if 5 + length stored + kSignatureLen > outCap then (([], ConstraintError), d)
           else (([kTypeRegisterAck] @ put_u16 (length stored) @ stored
                  @ put_u16 (length sig) @ sig, Reject_None), d))"

definition ProcessRequest_view ::
  "'e platform \<Rightarrow> config \<Rightarrow> (nat \<Rightarrow> byte list) \<Rightarrow> nat \<Rightarrow> 'e core \<Rightarrow> (byte list \<times> reject) \<times> 'e core" where
  "ProcessRequest_view P cfg view outCap d =
     (let inp = view 0 in
      if length inp < 1 then (([], InvalidCommand), d)
      else
        let type = inp ! 0
        in if type = kTypeEcho then (echo_request inp outCap, d)
           else if CONFIG_TUNNEL_SECURITY cfg \<and> type = kTypeIdentityRequest
           then identity_request P inp outCap d
           else if CONFIG_TUNNEL_SECURITY cfg \<and> type = kTypeSignedRequest
           then signed_request P cfg view outCap d
           else if CONFIG_TUNNEL_SECURITY cfg \<and> CONFIG_TUNNEL_CLIENT_AUTH cfg \<and>
             type = kTypeRegisterClientKey
           then register_client_key P view outCap d
           else (([], InvalidCommand), d))"

text \<open>The same over a buffer that stays as it is.\<close>

definition ProcessRequest ::
  "'e platform \<Rightarrow> config \<Rightarrow> byte list \<Rightarrow> nat \<Rightarrow> 'e core \<Rightarrow> (byte list \<times> reject) \<times> 'e core" where
  "ProcessRequest P cfg inp outCap d = ProcessRequest_view P cfg (\<lambda>_. inp) outCap d"

end
