(* ===== verification/Core_Lemmas.thy ===== *)
theory Core_Lemmas
  imports Core
begin

text \<open>
  The lemmas of the core, component by component: what each step of \<open>ProcessRequest\<close> may
  change, the case rules that take a whole arm apart, and the invariant that every request
  keeps. \<open>core_frames\<close> collects the field-by-field facts.
\<close>

named_theorems core_frames \<open>fields that a step leaves alone\<close>

section \<open>EnsureBundle\<close>

lemma EnsureBundle_done: "gBundleLen d \<noteq> 0 \<Longrightarrow> EnsureBundle P d = (True, d)"
  by (simp add: EnsureBundle_def)

lemma EnsureBundle_frame [core_frames]:
  "EnsureBundle P d = (ok, d') \<Longrightarrow>
   gReplay d' = gReplay d \<and> gReplayReady d' = gReplayReady d \<and> gStore d' = gStore d"
  by (auto simp: EnsureBundle_def Let_def split: if_splits prod.splits)

lemma EnsureBundle_built_cases:
  assumes "EnsureBundle P d = (True, d')"
  obtains (cached) "gBundleLen d \<noteq> 0" "d' = d"
  | (built) sg e1 bdl e2 pub e3 where "gBundleLen d = 0"
      "Signer_Init P Ed25519 (gSigner d) (env d) = (0, sg, e1)"
      "BuildIdentityBundle P sg 1200 e1 = (CHIP_NO_ERROR, bdl, e2)"
      "ExportPublicKey P sg kPublicKeyLenMax e2 = (0, pub, e3)"
      "d' = d\<lparr>gSigner := sg, gBundle := bdl, gBundleLen := length bdl,
              gDevicePub := pub, env := e3\<rparr>"
  using assms unfolding EnsureBundle_def
  by (auto simp: Let_def split: if_splits prod.splits)

lemma EnsureBundle_ok_len:
  assumes "EnsureBundle P d = (True, d')"
  shows "gBundleLen d' \<noteq> 0"
  using assms
proof (cases rule: EnsureBundle_built_cases)
  case (built sg e1 bdl e2 pub e3)
  from built(3) show ?thesis
    by (rule BuildIdentityBundle_ok_cases) (use built(5) in \<open>simp add: length_bundle_bytes\<close>)
qed simp

lemma EnsureBundle_failed_len:
  "EnsureBundle P d = (False, d') \<Longrightarrow> gBundleLen d' = 0"
  by (auto simp: EnsureBundle_def Let_def split: if_splits prod.splits)

lemma EnsureBundle_steps:
  assumes S: "steps_by P R" and R: "reflp R" "transp R"
    and E: "EnsureBundle P d = (ok, d')"
  shows "R (env d) (env d')"
proof -
  obtain st sg e1 where si: "Signer_Init P Ed25519 (gSigner d) (env d) = (st, sg, e1)"
    by (metis prod_cases3)
  obtain err bdl e2 where bb: "BuildIdentityBundle P sg 1200 e1 = (err, bdl, e2)"
    by (metis prod_cases3)
  obtain st' pub e3 where ex: "ExportPublicKey P sg kPublicKeyLenMax e2 = (st', pub, e3)"
    by (metis prod_cases3)
  have 0: "R (env d) (env d)" using R(1) by (simp add: reflp_def)
  have 1: "R (env d) e1" using Signer_Init_steps [OF S R si] .
  have 2: "R (env d) e2" using 1 BuildIdentityBundle_steps [OF S R bb] R(2) by (meson transpE)
  have 3: "R (env d) e3" using 2 ExportPublicKey_steps [OF S R(1) ex] R(2) by (meson transpE)
  have "env d' \<in> {env d, e1, e2, e3}"
    using E si bb ex by (auto simp: EnsureBundle_def Let_def split: if_splits)
  with 0 1 2 3 show ?thesis by auto
qed

section \<open>EnsureReplay\<close>

lemma EnsureReplay_ready: "gReplayReady d \<Longrightarrow> EnsureReplay P cfg d = (True, d)"
  by (simp add: EnsureReplay_def)

lemma EnsureReplay_frame [core_frames]:
  "EnsureReplay P cfg d = (ok, d') \<Longrightarrow>
   gSigner d' = gSigner d \<and> gBundle d' = gBundle d \<and> gBundleLen d' = gBundleLen d \<and>
   gDevicePub d' = gDevicePub d"
  by (auto simp: EnsureReplay_def Let_def split: if_splits prod.splits)

lemma EnsureReplay_cases:
  assumes "EnsureReplay P cfg d = (ok, d')"
  obtains (ready) "gReplayReady d" "ok" "d' = d"
  | (init_failed) err g e where "\<not> gReplayReady d" "\<not> ok"
      "ReplayGuard_Init P (gReplay d) (env d) = (err, g, e)" "err \<noteq> CHIP_NO_ERROR"
      "d' = d\<lparr>gReplay := g, env := e\<rparr>"
  | (guard_only) g e where "\<not> gReplayReady d" "ok" "\<not> CONFIG_TUNNEL_CLIENT_AUTH cfg"
      "ReplayGuard_Init P (gReplay d) (env d) = (CHIP_NO_ERROR, g, e)"
      "d' = d\<lparr>gReplay := g, gReplayReady := True, env := e\<rparr>"
  | (with_store) g e err ks e' where "\<not> gReplayReady d" "ok" "CONFIG_TUNNEL_CLIENT_AUTH cfg"
      "ReplayGuard_Init P (gReplay d) (env d) = (CHIP_NO_ERROR, g, e)"
      "ClientKeyStore_Init P (gStore d) e = (err, ks, e')"
      "d' = d\<lparr>gReplay := g, gReplayReady := True, gStore := ks, env := e'\<rparr>"
  using assms unfolding EnsureReplay_def
  by (auto simp: Let_def split: if_splits prod.splits)

lemma EnsureReplay_ok_ready: "EnsureReplay P cfg d = (True, d') \<Longrightarrow> gReplayReady d'"
  by (erule EnsureReplay_cases) auto

section \<open>The steps of the signed arm\<close>

lemma authenticate_frame [core_frames]:
  "authenticate P c p s d = (r, d') \<Longrightarrow>
   gSigner d' = gSigner d \<and> gBundle d' = gBundle d \<and> gBundleLen d' = gBundleLen d \<and>
   gDevicePub d' = gDevicePub d \<and> gReplay d' = gReplay d \<and> gReplayReady d' = gReplayReady d"
  by (auto simp: authenticate_def Let_def split: if_splits prod.splits)

text \<open>Authentication passes only by a verification of the request preimage that succeeded.\<close>

lemma authenticate_passed_cases:
  assumes "authenticate P c p s d = (None, d')"
  obtains pre ks e where "HasKey (gStore d)"
    "BuildPreimage kDirRequest c (gDevicePub d) p 700 = (CHIP_NO_ERROR, pre)"
    "store_Verify P pre s (gStore d) (env d) = (0, ks, e)" "d' = d\<lparr>gStore := ks, env := e\<rparr>"
  using assms unfolding authenticate_def
  by (auto simp: Let_def split: if_splits prod.splits)

lemma authenticate_refused:
  assumes "authenticate P c p s d = (Some r, d')"
  shows "r = ([kTypeAuthReject], Reject_None) \<or> r = ([], ConstraintError)"
  using assms unfolding authenticate_def
  by (auto simp: Let_def split: if_splits prod.splits)

lemma authenticate_store:
  assumes "authenticate P c p s d = (r, d')"
  shows "mKey (gStore d') = mKey (gStore d) \<and> mKeyLen (gStore d') = mKeyLen (gStore d) \<and>
    mWindowUntilMs (gStore d') = mWindowUntilMs (gStore d) \<and>
    mHandlersAdded (gStore d') = mHandlersAdded (gStore d)"
  using assms unfolding authenticate_def
  by (auto simp: Let_def dest: store_Verify_fields split: if_splits prod.splits)

lemma authenticate_steps:
  assumes S: "steps_by P R" and R: "reflp R" "transp R"
    and A: "authenticate P c p s d = (r, d')"
  shows "R (env d) (env d')"
proof -
  have "R (env d) (env d)" using R(1) by (simp add: reflp_def)
  moreover have "\<And>pre st ks e. store_Verify P pre s (gStore d) (env d) = (st, ks, e) \<Longrightarrow> R (env d) e"
    using store_Verify_steps [OF S R] .
  ultimately show ?thesis
    using A by (auto simp: authenticate_def Let_def split: if_splits prod.splits)
qed

lemma consume_counter_frame [core_frames]:
  "consume_counter P c d = (r, d') \<Longrightarrow>
   gSigner d' = gSigner d \<and> gBundle d' = gBundle d \<and> gBundleLen d' = gBundleLen d \<and>
   gDevicePub d' = gDevicePub d \<and> gReplayReady d' = gReplayReady d \<and> gStore d' = gStore d"
  by (auto simp: consume_counter_def Let_def split: if_splits prod.splits)

lemma consume_counter_cases:
  assumes "consume_counter P c d = (r, d')"
  obtains (stale) "\<not> IsFresh (gReplay d) c" "d' = d"
      "r = Some (kTypeReplayReject # PutU32 (mFloor (gReplay d)), Reject_None)"
  | (failed) err g e where "IsFresh (gReplay d) c" "Accept P c (gReplay d) (env d) = (err, g, e)"
      "err \<noteq> CHIP_NO_ERROR" "d' = d\<lparr>gReplay := g, env := e\<rparr>" "r = Some ([], Failure)"
  | (consumed) g e where "IsFresh (gReplay d) c"
      "Accept P c (gReplay d) (env d) = (CHIP_NO_ERROR, g, e)"
      "d' = d\<lparr>gReplay := g, env := e\<rparr>" "r = None"
  using assms unfolding consume_counter_def
  by (auto simp: Let_def split: if_splits prod.splits)

lemma sign_response_cases:
  assumes "sign_response P c p d = (r, d')"
  obtains (no_room) "r = Inl ConstraintError" "d' = d"
  | (no_sig) pre st sig e where
      "BuildPreimage kDirResponse c (gDevicePub d) p 700 = (CHIP_NO_ERROR, pre)"
      "Sign P (gSigner d) pre kSignatureLen (env d) = (st, sig, e)" "st \<noteq> 0"
      "r = Inl Failure" "d' = d\<lparr>env := e\<rparr>"
  | (signed) pre sig e where
      "BuildPreimage kDirResponse c (gDevicePub d) p 700 = (CHIP_NO_ERROR, pre)"
      "Sign P (gSigner d) pre kSignatureLen (env d) = (0, sig, e)"
      "r = Inr sig" "d' = d\<lparr>env := e\<rparr>"
  using assms unfolding sign_response_def
  by (auto simp: Let_def split: if_splits prod.splits)

lemma sign_response_frame [core_frames]:
  "sign_response P c p d = (r, d') \<Longrightarrow> \<exists>e. d' = d\<lparr>env := e\<rparr>"
  by (erule sign_response_cases) (auto intro: exI [of _ "env d"])

lemma sign_response_steps:
  assumes S: "steps_by P R" and R: "reflp R" and "sign_response P c p d = (r, d')"
  shows "R (env d) (env d')"
  using assms(3)
proof (cases rule: sign_response_cases)
  case no_room
  then show ?thesis using R by (simp add: reflp_def)
qed (use Sign_steps [OF S R] in auto)

lemma sign_response_rejects: "sign_response P c p d = (Inl rej, d') \<Longrightarrow> rej \<noteq> Reject_None"
  by (erule sign_response_cases) auto

lemma emit_response_ok:
  assumes "emit_response c n p sig outCap = (bs, Reject_None)"
  shows "bs = [kTypeSignedResponse] @ PutU32 c @ put_u16 n @ p @ put_u16 (length sig) @ sig"
    and "n \<le> 256" and "9 + n + 64 \<le> outCap"
  using assms by (auto simp: emit_response_def kSignatureLen_def split: if_splits)

lemma emit_response_xor: "emit_response c n p sig outCap = (bs, r) \<Longrightarrow> bs = [] \<longleftrightarrow> r \<noteq> Reject_None"
  by (auto simp: emit_response_def split: if_splits)

text \<open>The whole signed arm, by how far it gets.\<close>

definition auth_gate ::
  "'e platform \<Rightarrow> config \<Rightarrow> u32 \<Rightarrow> byte list \<Rightarrow> byte list \<Rightarrow> 'e core \<Rightarrow>
   (byte list \<times> reject) option \<times> 'e core" where
  "auth_gate P cfg c p s d =
     (if CONFIG_TUNNEL_CLIENT_AUTH cfg then authenticate P c p s d else (None, d))"

lemma auth_gate_frame [core_frames]:
  "auth_gate P cfg c p s d = (r, d') \<Longrightarrow>
   gSigner d' = gSigner d \<and> gBundle d' = gBundle d \<and> gBundleLen d' = gBundleLen d \<and>
   gDevicePub d' = gDevicePub d \<and> gReplay d' = gReplay d \<and> gReplayReady d' = gReplayReady d"
  by (auto simp: auth_gate_def dest: authenticate_frame split: if_splits)

lemma signed_request_cases:
  assumes "signed_request P cfg view outCap d = ((bs, r), d')"
  obtains (malformed) "signed_parse (view 0) = None" "bs = []" "r = InvalidCommand" "d' = d"
  | (no_bundle) x where "signed_parse (view 0) = Some x" "EnsureBundle P d = (False, d')"
      "bs = []" "r = Failure"
  | (no_replay) x d1 where "signed_parse (view 0) = Some x" "EnsureBundle P d = (True, d1)"
      "EnsureReplay P cfg d1 = (False, d')" "bs = []" "r = Failure"
  | (refused) c n m d1 d2 where "signed_parse (view 0) = Some (c, n, m)" "EnsureBundle P d = (True, d1)"
      "EnsureReplay P cfg d1 = (True, d2)"
      "auth_gate P cfg c (payload_at (view 1) n) (sig_at (view 2) n m) d2 = (Some (bs, r), d')"
  | (not_fresh) c n m d1 d2 d3 where "signed_parse (view 0) = Some (c, n, m)"
      "EnsureBundle P d = (True, d1)" "EnsureReplay P cfg d1 = (True, d2)"
      "auth_gate P cfg c (payload_at (view 1) n) (sig_at (view 2) n m) d2 = (None, d3)"
      "consume_counter P c d3 = (Some (bs, r), d')"
  | (unsigned) c n m d1 d2 d3 d4 where "signed_parse (view 0) = Some (c, n, m)"
      "EnsureBundle P d = (True, d1)" "EnsureReplay P cfg d1 = (True, d2)"
      "auth_gate P cfg c (payload_at (view 1) n) (sig_at (view 2) n m) d2 = (None, d3)"
      "consume_counter P c d3 = (None, d4)"
      "sign_response P c (payload_at (view 3) n) d4 = (Inl r, d')" "bs = []"
  | (answered) c n m d1 d2 d3 d4 sig where "signed_parse (view 0) = Some (c, n, m)"
      "EnsureBundle P d = (True, d1)" "EnsureReplay P cfg d1 = (True, d2)"
      "auth_gate P cfg c (payload_at (view 1) n) (sig_at (view 2) n m) d2 = (None, d3)"
      "consume_counter P c d3 = (None, d4)"
      "sign_response P c (payload_at (view 3) n) d4 = (Inr sig, d')"
      "emit_response c n (payload_at (view 4) n) sig outCap = (bs, r)"
  using assms unfolding signed_request_def auth_gate_def [symmetric]
  by (auto simp: Let_def split: option.splits prod.splits sum.splits if_splits)

text \<open>
  An invariant of the signed arm is an invariant of its five steps; the last three run only
  once the guard is initialised.
\<close>

lemma signed_request_preserves:
  assumes "signed_request P cfg view outCap d = ((bs, r), d')" and Q: "Q d"
    and eb: "\<And>d ok d'. EnsureBundle P d = (ok, d') \<Longrightarrow> Q d \<Longrightarrow> Q d'"
    and er: "\<And>d ok d'. EnsureReplay P cfg d = (ok, d') \<Longrightarrow> Q d \<Longrightarrow> Q d'"
    and ag: "\<And>c p s d r d'. auth_gate P cfg c p s d = (r, d') \<Longrightarrow> gReplayReady d \<Longrightarrow> Q d \<Longrightarrow> Q d'"
    and cc: "\<And>c d r d'. consume_counter P c d = (r, d') \<Longrightarrow> gReplayReady d \<Longrightarrow> Q d \<Longrightarrow> Q d'"
    and sr: "\<And>c p d r d'. sign_response P c p d = (r, d') \<Longrightarrow> gReplayReady d \<Longrightarrow> Q d \<Longrightarrow> Q d'"
  shows "Q d'"
proof -
  have er': "\<And>d d'. EnsureReplay P cfg d = (True, d') \<Longrightarrow> Q d \<Longrightarrow> Q d' \<and> gReplayReady d'"
    using er EnsureReplay_ok_ready by blast
  have ag': "\<And>c p s d r d'. auth_gate P cfg c p s d = (r, d') \<Longrightarrow> Q d \<and> gReplayReady d \<Longrightarrow>
      Q d' \<and> gReplayReady d'"
    using ag auth_gate_frame by blast
  have cc': "\<And>c d r d'. consume_counter P c d = (r, d') \<Longrightarrow> Q d \<and> gReplayReady d \<Longrightarrow>
      Q d' \<and> gReplayReady d'"
    using cc consume_counter_frame by blast
  from assms(1) show ?thesis
  proof (cases rule: signed_request_cases)
    case malformed
    with Q show ?thesis by simp
  next
    case (no_bundle x)
    show ?thesis by (rule eb [OF no_bundle(2) Q])
  next
    case (no_replay x d1)
    show ?thesis by (rule er [OF no_replay(3) eb [OF no_replay(2) Q]])
  next
    case (refused c n m d1 d2)
    note q = er' [OF refused(3) eb [OF refused(2) Q]]
    from ag' [OF refused(4) q] show ?thesis ..
  next
    case (not_fresh c n m d1 d2 d3)
    note q = ag' [OF not_fresh(4) er' [OF not_fresh(3) eb [OF not_fresh(2) Q]]]
    from cc' [OF not_fresh(5) q] show ?thesis ..
  next
    case (unsigned c n m d1 d2 d3 d4)
    note q = cc' [OF unsigned(5) ag' [OF unsigned(4) er' [OF unsigned(3) eb [OF unsigned(2) Q]]]]
    show ?thesis by (rule sr [OF unsigned(6) q [THEN conjunct2] q [THEN conjunct1]])
  next
    case (answered c n m d1 d2 d3 d4 sig)
    note q = cc' [OF answered(5) ag' [OF answered(4) er' [OF answered(3) eb [OF answered(2) Q]]]]
    show ?thesis by (rule sr [OF answered(6) q [THEN conjunct2] q [THEN conjunct1]])
  qed
qed

section \<open>The other arms\<close>

lemma identity_request_cases:
  assumes "identity_request P inp outCap d = ((bs, r), d')"
  obtains (malformed) "length inp < 3" "bs = []" "r = InvalidCommand" "d' = d"
  | (no_bundle) "EnsureBundle P d = (False, d')" "bs = []" "r = Failure"
  | (constraint) "EnsureBundle P d = (True, d')" "bs = []" "r = ConstraintError"
  | (chunk) "EnsureBundle P d = (True, d')" "r = Reject_None" "3 \<le> length inp"
      "read_u16 (inp ! 1) (inp ! 2) < gBundleLen d'"
      "5 + min (gBundleLen d' - read_u16 (inp ! 1) (inp ! 2)) 400 \<le> outCap"
      "bs = [kTypeIdentityResponse] @ put_u16 (read_u16 (inp ! 1) (inp ! 2))
              @ put_u16 (gBundleLen d')
              @ take (min (gBundleLen d' - read_u16 (inp ! 1) (inp ! 2)) 400)
                  (drop (read_u16 (inp ! 1) (inp ! 2)) (gBundle d'))"
  using assms unfolding identity_request_def
  by (auto simp: Let_def kMaxChunk_def min_def not_less split: prod.splits if_splits)

lemma register_client_key_recorded:
  assumes "3 + n \<le> length (view 0)" "n = read_u16 (view 0 ! 1) (view 0 ! 2)"
    and "EnsureBundle P d = (True, d1)"
    and "Register P (take n (drop 3 (view 1))) (gStore d1) (env d1) = (CHIP_NO_ERROR, ks, e1)"
    and "BuildPreimage kDirResponse 0 (gDevicePub d1) (Key ks) 256 = (er, pre)"
    and "Sign P (gSigner d1) pre kSignatureLen e1 = (st, sig, e2)"
  shows "register_client_key P view outCap d =
     (if er \<noteq> CHIP_NO_ERROR then (([], Failure), d1\<lparr>gStore := ks, env := e1\<rparr>)
      else if st \<noteq> 0 then (([], Failure), d1\<lparr>gStore := ks, env := e2\<rparr>)
      else if 5 + length (Key ks) + 64 > outCap
      then (([], ConstraintError), d1\<lparr>gStore := ks, env := e2\<rparr>)
      else (([kTypeRegisterAck] @ put_field (Key ks) @ put_u16 (length sig) @ sig, Reject_None),
            d1\<lparr>gStore := ks, env := e2\<rparr>))"
proof -
  have "\<not> length (view 0) < 3" "\<not> length (view 0) < 3 + n" using assms(1) by linarith+
  then show ?thesis
    using assms(3-6)
    by (simp add: register_client_key_def Let_def assms(2) [symmetric] kSignatureLen_def put_field_def
        del: One_nat_def)
qed

lemma register_client_key_cases:
  assumes "register_client_key P view outCap d = ((bs, r), d')"
  obtains (malformed) "bs = []" "r = InvalidCommand" "d' = d"
  | (no_bundle) "EnsureBundle P d = (False, d')" "bs = []" "r = Failure"
  | (refused) n d1 err where "3 + n \<le> length (view 0)" "n = read_u16 (view 0 ! 1) (view 0 ! 2)"
      "EnsureBundle P d = (True, d1)"
      "Register P (take n (drop 3 (view 1))) (gStore d1) (env d1) = (err, gStore d', env d')"
      "err \<noteq> CHIP_NO_ERROR" "d' = d1" "bs = [kTypeAuthReject]" "r = Reject_None"
  | (recorded) n d1 ks e1 e2 where "3 + n \<le> length (view 0)" "n = read_u16 (view 0 ! 1) (view 0 ! 2)"
      "EnsureBundle P d = (True, d1)"
      "Register P (take n (drop 3 (view 1))) (gStore d1) (env d1) = (CHIP_NO_ERROR, ks, e1)"
      "d' = d1\<lparr>gStore := ks, env := e2\<rparr>"
      "(e2 = e1 \<and> bs = [] \<and> r = Failure) \<or>
       (\<exists>pre st sig. BuildPreimage kDirResponse 0 (gDevicePub d1) (Key ks) 256 = (CHIP_NO_ERROR, pre) \<and>
          Sign P (gSigner d1) pre kSignatureLen e1 = (st, sig, e2) \<and>
          (if st \<noteq> 0 then bs = [] \<and> r = Failure
           else if 5 + length (Key ks) + 64 > outCap then bs = [] \<and> r = ConstraintError
           else r = Reject_None \<and> bs = [kTypeRegisterAck] @ put_field (Key ks) @ put_u16 (length sig) @ sig))"
proof -
  let ?n = "read_u16 (view 0 ! 1) (view 0 ! 2)"
  obtain ok d1 where eb: "EnsureBundle P d = (ok, d1)" by fastforce
  obtain err ks e1 where reg: "Register P (take ?n (drop 3 (view 1))) (gStore d1) (env d1) = (err, ks, e1)"
    by (metis prod_cases3)
  obtain er pre where bp: "BuildPreimage kDirResponse 0 (gDevicePub d1) (Key ks) 256 = (er, pre)"
    by fastforce
  obtain st sig e2 where sg: "Sign P (gSigner d1) pre kSignatureLen e1 = (st, sig, e2)"
    by (metis prod_cases3)
  consider "length (view 0) < 3 + ?n \<or> length (view 0) < 3" | "3 + ?n \<le> length (view 0)" "\<not> ok"
    | "3 + ?n \<le> length (view 0)" "ok" "err \<noteq> CHIP_NO_ERROR"
    | "3 + ?n \<le> length (view 0)" "ok" "err = CHIP_NO_ERROR"
    by linarith
  then show thesis
  proof cases
    case 1
    then have "register_client_key P view outCap d = (([], InvalidCommand), d)"
      unfolding register_client_key_def Let_def by presburger
    then show thesis using assms malformed by simp
  next
    case 2
    then show thesis
      using assms no_bundle eb by (auto simp: register_client_key_def Let_def split: if_splits)
  next
    case 3
    have same: "ks = gStore d1" "e1 = env d1" using Register_refused [OF reg 3(3)] by simp_all
    have "\<not> length (view 0) < 3" "\<not> length (view 0) < 3 + ?n" using 3(1) by linarith+
    then have "register_client_key P view outCap d =
        (([kTypeAuthReject], Reject_None), d1\<lparr>gStore := ks, env := e1\<rparr>)"
      using 3(2,3) by (simp add: register_client_key_def Let_def eb reg del: One_nat_def)
    then have "bs = [kTypeAuthReject]" "r = Reject_None" "d' = d1"
      using assms same by simp_all
    then show thesis using refused [OF 3(1) refl] eb 3 reg same by simp
  next
    case 4
    have "EnsureBundle P d = (True, d1)" using eb 4(2) by simp
    note eq = register_client_key_recorded [OF 4(1) refl this reg [unfolded 4(3)] bp sg, of outCap]
    show thesis
      using recorded [OF 4(1) refl _ _ _ disjI1] recorded [OF 4(1) refl _ _ _ disjI2] assms eq eb 4 reg bp sg
      by (auto split: if_splits)
  qed
qed

text \<open>Which arm a request takes.\<close>

lemma ProcessRequest_view_arms:
  assumes "ProcessRequest_view P cfg view outCap d = ((bs, r), d')"
  obtains (other) "bs = []" "r = InvalidCommand" "d' = d"
  | (echo) "view 0 \<noteq> []" "view 0 ! 0 = kTypeEcho" "echo_request (view 0) outCap = (bs, r)" "d' = d"
  | (identity) "CONFIG_TUNNEL_SECURITY cfg" "view 0 ! 0 = kTypeIdentityRequest"
      "identity_request P (view 0) outCap d = ((bs, r), d')"
  | (signed) "CONFIG_TUNNEL_SECURITY cfg" "view 0 ! 0 = kTypeSignedRequest"
      "signed_request P cfg view outCap d = ((bs, r), d')"
  | (register) "CONFIG_TUNNEL_SECURITY cfg" "CONFIG_TUNNEL_CLIENT_AUTH cfg"
      "view 0 ! 0 = kTypeRegisterClientKey"
      "register_client_key P view outCap d = ((bs, r), d')"
  using assms unfolding ProcessRequest_view_def
  by (auto simp: Let_def split: if_splits)

lemmas ProcessRequest_arms = ProcessRequest_view_arms [where view = "\<lambda>_. inp" for inp,
  folded ProcessRequest_def]

end
