(* ===== verification/Core_Invariants.thy ===== *)
theory Core_Invariants
  imports Core_Lemmas
begin

text \<open>
  What every request preserves. \<open>core_wf\<close> relates the cached bundle, the signer, the key
  store and the two initialisation flags; \<open>keys_inv\<close> says that an imported handle stands
  for the registered key; both are proved arm by arm and then for a whole
  request.
\<close>

section \<open>Well-formed state\<close>

definition core_wf :: "'e core \<Rightarrow> bool" where
  "core_wf d \<longleftrightarrow>
     store_wf (gStore d) \<and>
     (gBundleLen d \<noteq> 0 \<longrightarrow>
        length (gBundle d) = gBundleLen d \<and> gBundleLen d \<le> 1200 \<and> Ready (gSigner d)) \<and>
     (\<not> gReplayReady d \<longrightarrow> mImported (gStore d) = PSA_KEY_ID_NULL \<and> mHandlersAdded (gStore d) = 0) \<and>
     mHandlersAdded (gStore d) \<le> 1"

lemma core_wf_boot [simp]: "core_wf (boot e)"
  by (simp add: core_wf_def boot_def new_store_def store_wf_def kKeySize_def)

lemma EnsureBundle_wf:
  assumes E: "EnsureBundle P d = (ok, d')" and wf: "core_wf d"
  shows "core_wf d'"
proof (cases ok)
  case True
  with E have "EnsureBundle P d = (True, d')" by simp
  then show ?thesis
  proof (cases rule: EnsureBundle_built_cases)
    case (built sg e1 bdl e2 pub e3)
    from built(3) have "Ready sg" "length bdl \<le> 1200"
      by (auto elim: BuildIdentityBundle_ok_cases)
    with built(5) wf show ?thesis by (simp add: core_wf_def)
  qed (use wf in simp)
next
  case False
  with E have "gBundleLen d' = 0" using EnsureBundle_failed_len by metis
  with EnsureBundle_frame [OF E] wf show ?thesis by (simp add: core_wf_def)
qed

lemma EnsureReplay_wf:
  assumes "EnsureReplay P cfg d = (ok, d')" and "core_wf d"
  shows "core_wf d'"
  using assms(1)
proof (cases rule: EnsureReplay_cases)
  case (with_store g e err ks e')
  have "store_wf ks" using ClientKeyStore_Init_wf [OF with_store(5)] assms(2)
    by (simp add: core_wf_def)
  moreover have "mHandlersAdded ks = 1"
    using ClientKeyStore_Init_fields [OF with_store(5)] assms(2) with_store(1)
    by (simp add: core_wf_def)
  ultimately show ?thesis using with_store(6) assms(2) by (simp add: core_wf_def)
qed (use assms(2) in \<open>auto simp: core_wf_def\<close>)

lemma authenticate_wf:
  assumes "authenticate P c p s d = (r, d')" and "core_wf d" and "gReplayReady d"
  shows "core_wf d'"
  using assms authenticate_frame [OF assms(1)] authenticate_store [OF assms(1)]
  by (simp add: core_wf_def store_wf_def)

lemma consume_counter_wf:
  "consume_counter P c d = (r, d') \<Longrightarrow> core_wf d \<Longrightarrow> core_wf d'"
  by (drule consume_counter_frame) (simp add: core_wf_def)

lemma sign_response_wf: "sign_response P c p d = (r, d') \<Longrightarrow> core_wf d \<Longrightarrow> core_wf d'"
  by (drule sign_response_frame) (auto simp: core_wf_def)

lemma auth_gate_wf:
  "auth_gate P cfg c p s d = (r, d') \<Longrightarrow> core_wf d \<Longrightarrow> gReplayReady d \<Longrightarrow> core_wf d'"
  by (auto simp: auth_gate_def dest: authenticate_wf split: if_splits)

lemma signed_request_wf:
  assumes "signed_request P cfg view outCap d = ((bs, r), d')" and "core_wf d"
  shows "core_wf d'"
  by (rule signed_request_preserves [where Q = core_wf, OF assms])
     (blast intro: EnsureBundle_wf EnsureReplay_wf auth_gate_wf consume_counter_wf sign_response_wf)+

lemma identity_request_wf:
  assumes "identity_request P inp outCap d = ((bs, r), d')" and "core_wf d"
  shows "core_wf d'"
  using assms(1) by (rule identity_request_cases) (use assms(2) EnsureBundle_wf in blast)+

lemma register_client_key_wf:
  assumes "register_client_key P view outCap d = ((bs, r), d')" and wf: "core_wf d"
  shows "core_wf d'"
  using assms(1)
proof (cases rule: register_client_key_cases)
  case (recorded n d1 ks e1 e2)
  have "core_wf d1" using EnsureBundle_wf [OF recorded(3) wf] .
  moreover have "store_wf ks" using Register_wf [OF recorded(4)] calculation
    by (simp add: core_wf_def)
  moreover have "mHandlersAdded ks = mHandlersAdded (gStore d1)" "mImported ks = 0"
    using recorded(4) by (auto elim!: Register_ok_cases)
  ultimately show ?thesis using recorded(5) by (simp add: core_wf_def)
qed (use wf EnsureBundle_wf in blast)+

lemma ProcessRequest_view_wf:
  assumes "ProcessRequest_view P cfg view outCap d = ((bs, r), d')" and "core_wf d"
  shows "core_wf d'"
  using assms(1)
proof (cases rule: ProcessRequest_view_arms)
  case identity
  show ?thesis by (rule identity_request_wf [OF identity(3) assms(2)])
next
  case signed
  show ?thesis by (rule signed_request_wf [OF signed(3) assms(2)])
next
  case register
  show ?thesis by (rule register_client_key_wf [OF register(4) assms(2)])
qed (use assms(2) in simp_all)

section \<open>Imported keys\<close>

definition keys_inv :: "('e \<Rightarrow> u32 \<Rightarrow> byte list option) \<Rightarrow> 'e core \<Rightarrow> bool" where
  "keys_inv pubkey d \<longleftrightarrow>
     (mImported (gStore d) \<noteq> PSA_KEY_ID_NULL \<longrightarrow>
        HasKey (gStore d) \<and> pubkey (env d) (mImported (gStore d)) = Some (Key (gStore d)))"

lemma keys_inv_boot [simp]: "keys_inv pubkey (boot e)"
  by (simp add: keys_inv_def boot_def new_store_def)

lemma reflp_map_le: "reflp (\<lambda>e e'. f e \<subseteq>\<^sub>m f e')"
  by (simp add: reflp_def)

lemma transp_map_le: "transp (\<lambda>e e'. f e \<subseteq>\<^sub>m f e')"
  by (auto simp: transp_def intro: map_le_trans)

lemma reflp_eq: "reflp (\<lambda>e e'. f e' = f e)"
  by (simp add: reflp_def)

lemma transp_eq: "transp (\<lambda>e e'. f e' = f e)"
  by (simp add: transp_def)

lemma map_leD: "f \<subseteq>\<^sub>m g \<Longrightarrow> f h = Some k \<Longrightarrow> g h = Some k"
  by (metis domI map_le_def)

lemma keys_inv_grow:
  "keys_inv pubkey d \<Longrightarrow> pubkey (env d) \<subseteq>\<^sub>m pubkey (env d') \<Longrightarrow> gStore d' = gStore d \<Longrightarrow>
   keys_inv pubkey d'"
  by (auto simp: keys_inv_def intro: map_leD)

lemma EnsureBundle_keys:
  assumes "keys_ok P pubkey valid_sig" "EnsureBundle P d = (ok, d')" "keys_inv pubkey d"
  shows "keys_inv pubkey d'"
  using EnsureBundle_steps [OF keys_okD(1) [OF assms(1)] reflp_map_le transp_map_le assms(2)]
    EnsureBundle_frame [OF assms(2)] keys_inv_grow [OF assms(3)] by blast

lemma EnsureReplay_keys:
  assumes "EnsureReplay P cfg d = (ok, d')" "keys_inv pubkey d" "core_wf d"
  shows "keys_inv pubkey d'"
  using assms(1)
proof (cases rule: EnsureReplay_cases)
  case (with_store g e err ks e')
  then show ?thesis
    using assms(3) ClientKeyStore_Init_fields [OF with_store(5)]
    by (simp add: keys_inv_def core_wf_def)
qed (use assms(2,3) in \<open>auto simp: keys_inv_def core_wf_def\<close>)

text \<open>
  After a verification the handle stands for the key, and a successful one is a valid
  signature under it.
\<close>

lemma VerifyWith_keys:
  assumes "keys_ok P pubkey valid_sig" and "VerifyWith P h Ed25519 m s x = (st, e)"
  shows "pubkey x \<subseteq>\<^sub>m pubkey e"
    and "st = 0 \<Longrightarrow> \<exists>kb. pubkey x h = Some kb \<and> valid_sig PSA_ALG_PURE_EDDSA kb m s"
  using steps_byD(8) [OF keys_okD(1) [OF assms(1)]] keys_okD(6) [OF assms(1)] assms(2)
  by (simp_all add: VerifyWith_def)

text \<open>The first verification after a registration imports the key.\<close>

lemma import_keys:
  assumes K: "keys_ok P pubkey valid_sig" and V: "store_Verify P m s ks e = (st, ks', e')"
    and none: "mKeyLen ks \<noteq> 0" "mImported ks = 0"
  shows "(mImported ks' \<noteq> 0 \<longrightarrow> pubkey e' (mImported ks') = Some (Key ks)) \<and>
    (st = 0 \<longrightarrow> valid_sig PSA_ALG_PURE_EDDSA (Key ks) m s)"
proof -
  obtain st1 h e1 where imp: "ImportPublicKey P Ed25519 (Key ks) e = (st1, h, e1)"
    by (metis prod_cases3)
  show ?thesis
  proof (cases "st1 = 0")
    case True
    then have k: "h \<noteq> 0 \<and> pubkey e1 h = Some (Key ks)"
      using keys_okD(4) [OF K] imp by (simp add: ImportPublicKey_def)
    have v: "VerifyWith P h Ed25519 m s e1 = (st, e')" "ks' = ks\<lparr>mImported := h\<rparr>"
      using V imp True none by (auto simp: store_Verify_def split: prod.splits)
    have "pubkey e' h = Some (Key ks)" using map_leD VerifyWith_keys(1) [OF K v(1)] k by metis
    moreover have "st = 0 \<Longrightarrow> valid_sig PSA_ALG_PURE_EDDSA (Key ks) m s"
      using VerifyWith_keys(2) [OF K v(1)] k by fastforce
    ultimately show ?thesis using v(2) by simp
  next
    case False
    then have "h = 0" using keys_okD(5) [OF K] imp by (simp add: ImportPublicKey_def)
    with V imp False none show ?thesis by (auto simp: store_Verify_def split: prod.splits)
  qed
qed

lemma store_Verify_keys:
  assumes K: "keys_ok P pubkey valid_sig" and V: "store_Verify P m s ks e = (st, ks', e')"
    and inv: "mImported ks \<noteq> 0 \<longrightarrow> HasKey ks \<and> pubkey e (mImported ks) = Some (Key ks)"
  shows "mImported ks' \<noteq> 0 \<longrightarrow> HasKey ks' \<and> pubkey e' (mImported ks') = Some (Key ks')"
    and "st = 0 \<Longrightarrow> valid_sig PSA_ALG_PURE_EDDSA (Key ks) m s"
proof -
  have key: "Key ks' = Key ks \<and> HasKey ks' = HasKey ks"
    using store_Verify_fields [OF V] by (simp add: Key_def HasKey_def)
  consider (none) "mKeyLen ks = 0" | (cached) "mKeyLen ks \<noteq> 0" "mImported ks \<noteq> 0"
    | (import) "mKeyLen ks \<noteq> 0" "mImported ks = 0" by fastforce
  then have "(mImported ks' \<noteq> 0 \<longrightarrow> HasKey ks \<and> pubkey e' (mImported ks') = Some (Key ks)) \<and>
      (st = 0 \<longrightarrow> valid_sig PSA_ALG_PURE_EDDSA (Key ks) m s)"
  proof cases
    case none
    with V inv show ?thesis by (auto simp: store_Verify_def HasKey_def)
  next
    case cached
    then have "VerifyWith P (mImported ks) Ed25519 m s e = (st, e')" "ks' = ks"
      using V by (auto simp: store_Verify_def split: prod.splits)
    with inv cached VerifyWith_keys [OF K] map_leD show ?thesis by (metis option.inject)
  next
    case import
    then show ?thesis using import_keys [OF K V] by (simp add: HasKey_def)
  qed
  then show "mImported ks' \<noteq> 0 \<longrightarrow> HasKey ks' \<and> pubkey e' (mImported ks') = Some (Key ks')"
    and "st = 0 \<Longrightarrow> valid_sig PSA_ALG_PURE_EDDSA (Key ks) m s"
    using key by simp_all
qed

lemma authenticate_keys:
  assumes K: "keys_ok P pubkey valid_sig" and A: "authenticate P c p s d = (r, d')"
    and inv: "keys_inv pubkey d"
  shows "keys_inv pubkey d'"
proof -
  have "d' = d \<or> (\<exists>pre st ks e. store_Verify P pre s (gStore d) (env d) = (st, ks, e) \<and>
      d' = d\<lparr>gStore := ks, env := e\<rparr>)"
    using A unfolding authenticate_def
    by (auto simp: Let_def split: if_splits prod.splits)
  then show ?thesis
    using inv store_Verify_keys(1) [OF K] unfolding keys_inv_def by fastforce
qed

lemma auth_gate_keys:
  "keys_ok P pubkey valid_sig \<Longrightarrow> auth_gate P cfg c p s d = (r, d') \<Longrightarrow>
   keys_inv pubkey d \<Longrightarrow> keys_inv pubkey d'"
  by (auto simp: auth_gate_def dest: authenticate_keys split: if_splits)

lemma Accept_grow:
  assumes "keys_ok P pubkey valid_sig" "Accept P c g e = (err, g', e')"
  shows "pubkey e \<subseteq>\<^sub>m pubkey e'"
  using assms(2) keys_okD(2) [OF assms(1)]
  by (auto simp: Accept_def PersistCeiling_def Let_def split: if_splits prod.splits)

lemma consume_counter_keys:
  assumes K: "keys_ok P pubkey valid_sig" and C: "consume_counter P c d = (r, d')"
    and inv: "keys_inv pubkey d"
  shows "keys_inv pubkey d'"
  using C
proof (cases rule: consume_counter_cases)
  case (failed err g e)
  with Accept_grow [OF K failed(2)] keys_inv_grow [OF inv] show ?thesis by simp
next
  case (consumed g e)
  with Accept_grow [OF K consumed(2)] keys_inv_grow [OF inv] show ?thesis by simp
qed (use inv in simp)

lemma sign_response_keys:
  assumes K: "keys_ok P pubkey valid_sig" and S: "sign_response P c p d = (r, d')"
    and inv: "keys_inv pubkey d"
  shows "keys_inv pubkey d'"
  using sign_response_steps [OF keys_okD(1) [OF K] reflp_map_le S] sign_response_frame [OF S]
    keys_inv_grow [OF inv] by fastforce

lemma signed_request_keys:
  assumes K: "keys_ok P pubkey valid_sig"
    and "signed_request P cfg view outCap d = ((bs, r), d')"
    and "keys_inv pubkey d" "core_wf d"
  shows "keys_inv pubkey d'"
proof -
  have "keys_inv pubkey d' \<and> core_wf d'"
    by (rule signed_request_preserves [where Q = "\<lambda>d. keys_inv pubkey d \<and> core_wf d", OF assms(2)])
       (blast intro: assms(3,4) EnsureBundle_wf EnsureReplay_wf auth_gate_wf consume_counter_wf
          sign_response_wf EnsureReplay_keys EnsureBundle_keys [OF K] auth_gate_keys [OF K]
          consume_counter_keys [OF K] sign_response_keys [OF K])+
  then show ?thesis by simp
qed

lemma ProcessRequest_view_keys:
  assumes K: "keys_ok P pubkey valid_sig"
    and "ProcessRequest_view P cfg view outCap d = ((bs, r), d')"
    and inv: "keys_inv pubkey d" and wf: "core_wf d"
  shows "keys_inv pubkey d'"
  using assms(2)
proof (cases rule: ProcessRequest_view_arms)
  case identity
  from identity(3) show ?thesis
    by (rule identity_request_cases) (use inv EnsureBundle_keys [OF K] in blast)+
next
  case signed
  show ?thesis using signed_request_keys [OF K signed(3) inv wf] .
next
  case register
  from register(4) show ?thesis
  proof (cases rule: register_client_key_cases)
    case (recorded n d1 ks e1 e2)
    have "mImported ks = 0" using recorded(4) by (auto elim!: Register_ok_cases)
    with recorded(5) show ?thesis by (simp add: keys_inv_def)
  qed (use inv EnsureBundle_keys [OF K] in blast)+
qed (use inv in simp_all)

end
