(* ===== verification/Core_Responses.thy ===== *)
theory Core_Responses
  imports Core_Invariants
begin

text \<open>
  What the core answers. The interface at the top is the contract of
  \<open>tunnel_core.h\<close> that both transport adapters rely on: an empty response exactly when there
  is a rejection, and never more bytes than the buffer holds. Below it: the signed response
  and what must have happened before it is sent, the refusals that leave the guard alone,
  the request format, and the retrieval of the identity bundle in chunks.
\<close>

section \<open>The transport interface\<close>

fun serve_all :: "('q \<Rightarrow> nat \<Rightarrow> 's \<Rightarrow> 'r \<times> 's) \<Rightarrow> nat \<Rightarrow> 'q list \<Rightarrow> 's \<Rightarrow> 'r list \<times> 's" where
  "serve_all process cap [] s = ([], s)"
| "serve_all process cap (q # qs) s =
     (let (r, s1) = process q cap s; (rs, s2) = serve_all process cap qs s1 in (r # rs, s2))"

definition reply_ok :: "nat \<Rightarrow> byte list \<times> reject \<Rightarrow> bool" where
  "reply_ok cap reply \<longleftrightarrow>
     (fst reply = [] \<longleftrightarrow> snd reply \<noteq> Reject_None) \<and> length (fst reply) \<le> cap"

locale transport_core =
  fixes process :: "'q \<Rightarrow> nat \<Rightarrow> 's \<Rightarrow> (byte list \<times> reject) \<times> 's" and inv :: "'s \<Rightarrow> bool"
  assumes reply_xor: "process q cap s = ((bs, r), s') \<Longrightarrow> bs = [] \<longleftrightarrow> r \<noteq> Reject_None"
    and reply_fits: "inv s \<Longrightarrow> 5 \<le> cap \<Longrightarrow> process q cap s = ((bs, r), s') \<Longrightarrow> length bs \<le> cap"
    and inv_step: "inv s \<Longrightarrow> process q cap s = (reply, s') \<Longrightarrow> inv s'"
begin

lemma process_reply_ok:
  "inv s \<Longrightarrow> 5 \<le> cap \<Longrightarrow> process q cap s = (reply, s') \<Longrightarrow> reply_ok cap reply"
  using reply_xor reply_fits by (cases reply) (fastforce simp: reply_ok_def)

lemma serve_all_ok:
  "inv s \<Longrightarrow> 5 \<le> cap \<Longrightarrow> serve_all process cap qs s = (rs, s') \<Longrightarrow>
   inv s' \<and> length rs = length qs \<and> (\<forall>reply \<in> set rs. reply_ok cap reply)"
proof (induction qs arbitrary: s rs)
  case (Cons q qs)
  obtain r s1 where p: "process q cap s = (r, s1)" by fastforce
  obtain rs1 where t: "serve_all process cap qs s1 = (rs1, s')" "rs = r # rs1"
    using Cons.prems(3) p by (auto split: prod.splits)
  have "inv s1" using inv_step [OF Cons.prems(1) p] .
  from Cons.IH [OF this Cons.prems(2) t(1)] process_reply_ok [OF Cons.prems(1,2) p] t(2)
  show ?case by simp
qed simp

end

section \<open>The core provides it\<close>

lemma authenticate_reply:
  "authenticate P c p s d = (Some (bs, r), d') \<Longrightarrow>
   (bs = [] \<longleftrightarrow> r \<noteq> Reject_None) \<and> length bs \<le> 1"
  by (drule authenticate_refused) auto

lemma auth_gate_reply:
  "auth_gate P cfg c p s d = (Some (bs, r), d') \<Longrightarrow>
   (bs = [] \<longleftrightarrow> r \<noteq> Reject_None) \<and> length bs \<le> 1"
  by (auto simp: auth_gate_def dest: authenticate_reply split: if_splits)

lemma consume_counter_reply:
  "consume_counter P c d = (Some (bs, r), d') \<Longrightarrow>
   (bs = [] \<longleftrightarrow> r \<noteq> Reject_None) \<and> length bs \<le> 5"
  by (erule consume_counter_cases) auto

lemma signed_request_xor:
  assumes "signed_request P cfg view outCap d = ((bs, r), d')"
  shows "bs = [] \<longleftrightarrow> r \<noteq> Reject_None"
  using assms
proof (cases rule: signed_request_cases)
  case (refused c n m d1 d2)
  then show ?thesis using auth_gate_reply by metis
next
  case (not_fresh c n m d1 d2 d3)
  then show ?thesis using consume_counter_reply by metis
next
  case (unsigned c n m d1 d2 d3 d4)
  then show ?thesis using sign_response_rejects by metis
next
  case (answered c n m d1 d2 d3 d4 sig)
  then show ?thesis using emit_response_xor by metis
qed simp_all

lemma signed_request_fits:
  assumes L: "lengths_ok P" and cap: "5 \<le> outCap"
    and "signed_request P cfg view outCap d = ((bs, r), d')"
  shows "length bs \<le> outCap"
  using assms(3)
proof (cases rule: signed_request_cases)
  case (refused c n m d1 d2)
  from auth_gate_reply [OF refused(4)] cap show ?thesis by linarith
next
  case (not_fresh c n m d1 d2 d3)
  from consume_counter_reply [OF not_fresh(5)] cap show ?thesis by linarith
next
  case (answered c n m d1 d2 d3 d4 sig)
  have "length sig \<le> 64"
    using answered(6) by (cases rule: sign_response_cases)
      (auto simp: kSignatureLen_def dest: Sign_length [OF L])
  moreover have "length (payload_at (view 4) n) \<le> n" by (simp add: payload_at_def)
  ultimately show ?thesis
    using answered(7) by (auto simp: emit_response_def kSignatureLen_def split: if_splits)
qed simp_all

lemma register_client_key_reply:
  assumes "register_client_key P view outCap d = ((bs, r), d')"
  shows "bs = [] \<longleftrightarrow> r \<noteq> Reject_None" and "lengths_ok P \<Longrightarrow> 5 \<le> outCap \<Longrightarrow> length bs \<le> outCap"
  using assms
  by (cases rule: register_client_key_cases;
      auto simp: kSignatureLen_def dest!: Sign_length split: if_splits)+

lemma ProcessRequest_view_xor:
  assumes "ProcessRequest_view P cfg view outCap d = ((bs, r), d')"
  shows "bs = [] \<longleftrightarrow> r \<noteq> Reject_None"
  using assms
proof (cases rule: ProcessRequest_view_arms)
  case identity
  from identity(3) show ?thesis by (rule identity_request_cases) auto
qed (auto simp: echo_request_def signed_request_xor register_client_key_reply(1) split: if_splits)

lemma ProcessRequest_view_fits:
  assumes L: "lengths_ok P" and cap: "5 \<le> outCap"
    and "ProcessRequest_view P cfg view outCap d = ((bs, r), d')"
  shows "length bs \<le> outCap"
  using assms(3)
proof (cases rule: ProcessRequest_view_arms)
  case echo
  then show ?thesis by (auto simp: echo_request_def split: if_splits)
next
  case identity
  from identity(3) show ?thesis by (rule identity_request_cases) auto
next
  case signed
  show ?thesis by (rule signed_request_fits [OF L cap signed(3)])
next
  case register
  show ?thesis by (rule register_client_key_reply(2) [OF register(4) L cap])
qed simp

interpretation core: transport_core "ProcessRequest_view P cfg" "\<lambda>d. lengths_ok P \<and> core_wf d"
  for P :: "'e platform" and cfg
proof unfold_locales
  fix view cap and d d' :: "'e core" and bs r reply
  show "ProcessRequest_view P cfg view cap d = ((bs, r), d') \<Longrightarrow> bs = [] \<longleftrightarrow> r \<noteq> Reject_None"
    by (rule ProcessRequest_view_xor)
  show "lengths_ok P \<and> core_wf d \<Longrightarrow> 5 \<le> cap \<Longrightarrow>
      ProcessRequest_view P cfg view cap d = ((bs, r), d') \<Longrightarrow> length bs \<le> cap"
    using ProcessRequest_view_fits by blast
  show "lengths_ok P \<and> core_wf d \<Longrightarrow> ProcessRequest_view P cfg view cap d = (reply, d') \<Longrightarrow>
      lengths_ok P \<and> core_wf d'"
    by (cases reply) (auto dest: ProcessRequest_view_wf)
qed

section \<open>The signed response\<close>

text \<open>
  A response whose first byte is \<open>kTypeSignedResponse\<close> comes out of one place: the end of
  the signed arm. The case rule names every state on the way there.
\<close>

lemma refusal_types:
  "auth_gate P cfg c p s d = (Some (bs, r), d') \<Longrightarrow> bs = [] \<or> bs = [kTypeAuthReject]"
  "consume_counter P c d = (Some (bs, r), d') \<Longrightarrow> bs = [] \<or> bs ! 0 = kTypeReplayReject"
  by (auto simp: auth_gate_def dest: authenticate_refused elim!: consume_counter_cases
      split: if_splits)

lemma signed_reply_cases:
  assumes P: "ProcessRequest_view P cfg view outCap d = ((bs, r), d')"
    and bs: "bs \<noteq> []" "bs ! 0 = kTypeSignedResponse"
  obtains c n m d1 d2 d3 d4 sig where
    "CONFIG_TUNNEL_SECURITY cfg" "view 0 ! 0 = kTypeSignedRequest"
    "signed_parse (view 0) = Some (c, n, m)"
    "EnsureBundle P d = (True, d1)" "EnsureReplay P cfg d1 = (True, d2)"
    "auth_gate P cfg c (payload_at (view 1) n) (sig_at (view 2) n m) d2 = (None, d3)"
    "consume_counter P c d3 = (None, d4)"
    "sign_response P c (payload_at (view 3) n) d4 = (Inr sig, d')"
    "emit_response c n (payload_at (view 4) n) sig outCap = (bs, r)"
  using P
proof (cases rule: ProcessRequest_view_arms)
  case echo
  then show ?thesis using bs by (auto simp: echo_request_def type_defs split: if_splits)
next
  case identity
  from identity(3) show ?thesis
    by (rule identity_request_cases) (use bs in \<open>auto simp: type_defs\<close>)
next
  case register
  from register(4) show ?thesis
    by (rule register_client_key_cases) (use bs in \<open>auto simp: type_defs split: if_splits\<close>)
next
  case signed
  from signed(3) show ?thesis
  proof (cases rule: signed_request_cases)
    case (refused c n m d1 d2)
    from refusal_types(1) [OF refused(4)] bs show ?thesis by (auto simp: type_defs)
  next
    case (not_fresh c n m d1 d2 d3)
    from refusal_types(2) [OF not_fresh(5)] bs show ?thesis by (auto simp: type_defs)
  next
    case (answered c n m d1 d2 d3 d4 sig)
    show ?thesis by (rule that [OF signed(1,2) answered])
  qed (use bs in simp_all)
qed (use bs in simp)

text \<open>The counter of a signed response, as its reader finds it.\<close>

definition response_counter :: "byte list \<Rightarrow> u32 option" where
  "response_counter bs =
     (if bs \<noteq> [] \<and> bs ! 0 = kTypeSignedResponse then Some (ReadU32 (drop 1 bs)) else None)"

lemma response_counter_Some:
  "response_counter bs = Some c \<longleftrightarrow>
   bs \<noteq> [] \<and> bs ! 0 = kTypeSignedResponse \<and> ReadU32 (drop 1 bs) = c"
  by (auto simp: response_counter_def)

lemma emitted_counter:
  assumes "emit_response c n p sig outCap = (bs, r)" "bs \<noteq> []"
  shows "response_counter bs = Some c" and "r = Reject_None"
    and "bs = [kTypeSignedResponse] @ PutU32 c @ put_u16 n @ p @ put_u16 (length sig) @ sig"
  using assms by (auto simp: emit_response_def response_counter_def split: if_splits)

text \<open>
  What sending it says about the guard: its counter was above the floor and is the new one.
  \<open>Q\<close> is any invariant of the steps before that point.
\<close>

lemma signed_reply_guard:
  assumes P: "ProcessRequest_view P cfg view outCap d = ((bs, r), d')"
    and c: "response_counter bs = Some c" and Q: "Q d"
    and eb: "\<And>d ok d'. EnsureBundle P d = (ok, d') \<Longrightarrow> Q d \<Longrightarrow> Q d'"
    and er: "\<And>d ok d'. EnsureReplay P cfg d = (ok, d') \<Longrightarrow> Q d \<Longrightarrow> Q d'"
    and ag: "\<And>c p s d r d'. auth_gate P cfg c p s d = (r, d') \<Longrightarrow> gReplayReady d \<Longrightarrow> Q d \<Longrightarrow> Q d'"
  obtains d3 where "Q d3" "gReplayReady d3" "mFloor (gReplay d3) < c"
    "gReplayReady d'" "mFloor (gReplay d') = c"
proof -
  obtain b n m d1 d2 d3 d4 sig where s: "EnsureBundle P d = (True, d1)"
    "EnsureReplay P cfg d1 = (True, d2)"
    "auth_gate P cfg b (payload_at (view 1) n) (sig_at (view 2) n m) d2 = (None, d3)"
    "consume_counter P b d3 = (None, d4)"
    "sign_response P b (payload_at (view 3) n) d4 = (Inr sig, d')"
    "emit_response b n (payload_at (view 4) n) sig outCap = (bs, r)"
    using signed_reply_cases [OF P] c unfolding response_counter_Some by metis
  have "bs \<noteq> []" using c by (simp add: response_counter_Some)
  then have [simp]: "b = c" using emitted_counter(1) [OF s(6)] c by simp
  have ready: "gReplayReady d2" by (rule EnsureReplay_ok_ready [OF s(2)])
  have "Q d3" by (rule ag [OF s(3) ready er [OF s(2) eb [OF s(1) Q]]])
  moreover have "gReplayReady d3" using auth_gate_frame [OF s(3)] ready by simp
  moreover have "mFloor (gReplay d3) < c \<and> mFloor (gReplay d4) = c \<and> gReplayReady d4"
    using s(4)
  proof (cases rule: consume_counter_cases)
    case (consumed g e)
    with Accept_okD(2) [OF consumed(2)] \<open>gReplayReady d3\<close> show ?thesis
      by (simp add: IsFresh_def)
  qed simp_all
  moreover have "gReplay d' = gReplay d4 \<and> gReplayReady d' = gReplayReady d4"
    using sign_response_frame [OF s(5)] by auto
  ultimately show thesis using that by simp
qed

text \<open>An invariant of every step is an invariant of every request.\<close>

lemma ProcessRequest_view_preserves:
  assumes P: "ProcessRequest_view P cfg view outCap d = ((bs, r), d')" and Q: "Q d"
    and eb: "\<And>d ok d'. EnsureBundle P d = (ok, d') \<Longrightarrow> Q d \<Longrightarrow> Q d'"
    and er: "\<And>d ok d'. EnsureReplay P cfg d = (ok, d') \<Longrightarrow> Q d \<Longrightarrow> Q d'"
    and ag: "\<And>c p s d r d'. auth_gate P cfg c p s d = (r, d') \<Longrightarrow> gReplayReady d \<Longrightarrow> Q d \<Longrightarrow> Q d'"
    and cc: "\<And>c d r d'. consume_counter P c d = (r, d') \<Longrightarrow> gReplayReady d \<Longrightarrow> Q d \<Longrightarrow> Q d'"
    and sg: "\<And>m n d st sig e. Sign P (gSigner d) m n (env d) = (st, sig, e) \<Longrightarrow> Q d \<Longrightarrow>
      Q (d\<lparr>env := e\<rparr>)"
    and rg: "\<And>k d err ks e. Register P k (gStore d) (env d) = (err, ks, e) \<Longrightarrow> Q d \<Longrightarrow>
      Q (d\<lparr>gStore := ks, env := e\<rparr>)"
  shows "Q d'"
  using P
proof (cases rule: ProcessRequest_view_arms)
  case identity
  from identity(3) show ?thesis by (rule identity_request_cases) (use Q eb in blast)+
next
  case signed
  have sr: "Q d'" if "sign_response P c p d = (r, d')" "Q d" for c p d r d'
    using that(1) by (rule sign_response_cases) (use that(2) sg in auto)
  show ?thesis
    by (rule signed_request_preserves [where Q = Q, OF signed(3) Q eb er ag cc sr])
next
  case register
  from register(4) show ?thesis
  proof (cases rule: register_client_key_cases)
    case (recorded n d1 ks e1 e2)
    have q: "Q (d1\<lparr>gStore := ks, env := e1\<rparr>)" by (rule rg [OF recorded(4) eb [OF recorded(3) Q]])
    have "e2 = e1 \<or> (\<exists>pre st sig. Sign P (gSigner d1) pre kSignatureLen e1 = (st, sig, e2))"
      using recorded(6) by blast
    then show ?thesis
    proof
      assume "e2 = e1" with q recorded(5) show ?thesis by simp
    next
      assume "\<exists>pre st sig. Sign P (gSigner d1) pre kSignatureLen e1 = (st, sig, e2)"
      then show ?thesis using sg [OF _ q] recorded(5) by fastforce
    qed
  qed (use Q eb in blast)+
qed (use Q in simp_all)

section \<open>The request format\<close>

text \<open>What a client sends: type, counter, payload field, signature field.\<close>

definition encode_signed :: "u32 \<Rightarrow> byte list \<Rightarrow> byte list \<Rightarrow> byte list" where
  "encode_signed c payload sig = [kTypeSignedRequest] @ PutU32 c @ put_field payload @ put_field sig"

lemma PutU32_four: "PutU32 v = [PutU32 v ! 0, PutU32 v ! 1, PutU32 v ! 2, PutU32 v ! 3]"
  by (simp add: PutU32_def)

lemma put_u16_two: "put_u16 n = [put_u16 n ! 0, put_u16 n ! 1]"
  by (simp add: put_u16_def)

lemma nth_append_two:
  "length pre = k \<Longrightarrow> (pre @ x # y # r) ! k = x \<and> (pre @ x # y # r) ! Suc k = y"
  by (auto simp: nth_append)

lemma signed_parse_encode:
  assumes "length payload < 65536" "length sig < 65536"
  shows "signed_parse (encode_signed c payload sig @ rest) = Some (c, length payload, length sig)"
    and "payload_at (encode_signed c payload sig @ rest) (length payload) = payload"
    and "sig_at (encode_signed c payload sig @ rest) (length payload) (length sig) = sig"
proof -
  let ?b = "encode_signed c payload sig @ rest"
  have b: "?b = kTypeSignedRequest # PutU32 c @ put_u16 (length payload) @ payload @
      put_u16 (length sig) @ sig @ rest"
    by (simp add: encode_signed_def put_field_def)
  have "?b ! 5 = put_u16 (length payload) ! 0" "?b ! 6 = put_u16 (length payload) ! 1"
    by (simp_all add: b put_u16_def PutU32_def)
  moreover have "?b ! (7 + length payload) = put_u16 (length sig) ! 0"
    "?b ! (8 + length payload) = put_u16 (length sig) ! 1"
  proof -
    let ?pre = "[kTypeSignedRequest] @ PutU32 c @ put_u16 (length payload) @ payload"
    have "?b = ?pre @ put_u16 (length sig) ! 0 # put_u16 (length sig) ! 1 # sig @ rest"
      using put_u16_two [of "length sig"] by (simp add: b)
    moreover have "length ?pre = 7 + length payload" by simp
    ultimately show "?b ! (7 + length payload) = put_u16 (length sig) ! 0"
      "?b ! (8 + length payload) = put_u16 (length sig) ! 1"
      using nth_append_two [of ?pre "7 + length payload"] by (simp_all only: eval_nat_numeral)
        simp_all
  qed
  moreover have "ReadU32 (drop 1 ?b) = c" by (simp add: b)
  moreover have "length ?b = 9 + length payload + length sig + length rest" by (simp add: b)
  ultimately show "signed_parse ?b = Some (c, length payload, length sig)"
    using read_u16_put_u16 [OF assms(1)] read_u16_put_u16 [OF assms(2)]
    by (simp add: signed_parse_def Let_def del: One_nat_def)
  show "payload_at ?b (length payload) = payload"
    by (simp add: payload_at_def b)
  let ?pre = "[kTypeSignedRequest] @ PutU32 c @ put_u16 (length payload) @ payload @ put_u16 (length sig)"
  have "?b = ?pre @ sig @ rest" "9 + length payload = length ?pre" by (simp_all add: b)
  then show "sig_at ?b (length payload) (length sig) = sig"
    unfolding sig_at_def by (simp only: append_eq_conv_conj [symmetric] drop_append) simp
qed

lemma drop_two: "k + 2 \<le> length xs \<Longrightarrow> drop k xs = xs ! k # xs ! (k + 1) # drop (k + 2) xs"
  by (metis Cons_nth_drop_Suc Suc_eq_plus1 add_2_eq_Suc' le_simps(3) less_imp_le_nat)

text \<open>A request that parses is such an encoding, with whatever follows it ignored.\<close>

lemma signed_parse_SomeD:
  assumes "signed_parse inp = Some (c, n, m)" "inp ! 0 = kTypeSignedRequest"
  shows "inp = encode_signed c (payload_at inp n) (sig_at inp n m) @ drop (9 + n + m) inp"
    and "length (payload_at inp n) = n" and "length (sig_at inp n m) = m"
    and "n < 65536" "m < 65536"
proof -
  have len: "7 \<le> length inp" "9 + n + m \<le> length inp"
    and c: "c = ReadU32 (drop 1 inp)" and n: "n = read_u16 (inp ! 5) (inp ! 6)"
    and m: "m = read_u16 (inp ! (7 + n)) (inp ! (8 + n))"
    using assms(1) by (auto simp: signed_parse_def Let_def split: if_splits)
  obtain a0 a1 a2 a3 a4 a5 a6 tl where inp: "inp = a0 # a1 # a2 # a3 # a4 # a5 # a6 # tl"
    using len(1) by (auto simp: Suc_le_length_iff eval_nat_numeral)
  have "PutU32 c = [a1, a2, a3, a4]"
    using PutU32_ReadU32 [of a1 a2 a3 a4] by (simp add: c inp ReadU32_def)
  moreover have "put_u16 n = [a5, a6]" by (simp add: n inp put_u16_read_u16)
  moreover have "drop (7 + n) inp = put_u16 m @ drop (9 + n) inp"
    using drop_two [of "7 + n" inp] len(2) by (simp add: m put_u16_read_u16 ac_simps)
  ultimately have "inp = [a0] @ PutU32 c @ put_u16 n @ take n (drop 7 inp) @ put_u16 m @
      take m (drop (9 + n) inp) @ drop (9 + n + m) inp"
  proof -
    have "inp = [a0, a1, a2, a3, a4, a5, a6] @ take n (drop 7 inp) @ drop (7 + n) inp"
    proof -
      have "drop 7 inp = tl" by (simp add: inp)
      moreover have "drop (7 + n) inp = drop n (drop 7 inp)" by (simp only: drop_drop add.commute)
      ultimately have "drop (7 + n) inp = drop n tl" by simp
      with \<open>drop 7 inp = tl\<close> show ?thesis by (simp add: inp)
    qed
    moreover have "drop (9 + n) inp = take m (drop (9 + n) inp) @ drop (9 + n + m) inp"
      using append_take_drop_id [of m "drop (9 + n) inp"] by (simp add: ac_simps)
    ultimately show ?thesis
      using \<open>PutU32 c = _\<close> \<open>put_u16 n = _\<close> \<open>drop (7 + n) inp = _\<close>
      by (metis append.assoc append_Cons append_Nil)
  qed
  moreover show "length (payload_at inp n) = n" "length (sig_at inp n m) = m"
    using len(2) by (simp_all add: payload_at_def sig_at_def)
  ultimately show "inp = encode_signed c (payload_at inp n) (sig_at inp n m) @ drop (9 + n + m) inp"
    using assms(2) by (simp add: encode_signed_def put_field_def payload_at_def sig_at_def inp)
  show "n < 65536" "m < 65536" using n m read_u16_lt by simp_all
qed

section \<open>What a signed response certifies\<close>

text \<open>Which reads of the buffer end up where.\<close>

lemma signed_view_contents:
  assumes P: "ProcessRequest_view P cfg view outCap d = ((bs, r), d')"
    and c: "response_counter bs = Some c"
  obtains n m sig pre e where
    "signed_parse (view 0) = Some (c, n, m)" "view 0 ! 0 = kTypeSignedRequest" "n \<le> 256"
    "bs = [kTypeSignedResponse] @ PutU32 c @ put_u16 n @ payload_at (view 4) n
            @ put_u16 (length sig) @ sig"
    "BuildPreimage kDirResponse c (gDevicePub d') (payload_at (view 3) n) 700 = (CHIP_NO_ERROR, pre)"
    "Sign P (gSigner d') pre kSignatureLen e = (0, sig, env d')"
proof -
  obtain b n m d4 sig where s: "view 0 ! 0 = kTypeSignedRequest"
    "signed_parse (view 0) = Some (b, n, m)"
    "sign_response P b (payload_at (view 3) n) d4 = (Inr sig, d')"
    "emit_response b n (payload_at (view 4) n) sig outCap = (bs, r)"
    using signed_reply_cases [OF P] c unfolding response_counter_Some by metis
  have ne: "bs \<noteq> []" using c by (simp add: response_counter_Some)
  note em = emitted_counter [OF s(4) ne]
  have [simp]: "b = c" using em(1) c by simp
  have n: "n \<le> 256" using emit_response_ok(2) [OF s(4) [unfolded em(2)]] .
  from s(3) show thesis
    by (rule sign_response_cases) (use that s(1,2) n em(3) in auto)
qed

text \<open>
  Over an unchanging buffer: the request's counter and payload, and the signature made by
  this device over the response preimage of exactly those.
\<close>

lemma signed_response_contents:
  assumes P: "ProcessRequest P cfg inp outCap d = ((bs, r), d')"
    and c: "response_counter bs = Some c"
  obtains payload sig csig rest pre e where
    "inp = encode_signed c payload csig @ rest"
    "bs = [kTypeSignedResponse] @ PutU32 c @ put_field payload @ put_field sig"
    "BuildPreimage kDirResponse c (gDevicePub d') payload 700 = (CHIP_NO_ERROR, pre)"
    "Sign P (gSigner d') pre kSignatureLen e = (0, sig, env d')"
    "length payload \<le> 256"
proof -
  from signed_view_contents [OF P [unfolded ProcessRequest_def] c] obtain n m sig pre e where
    s: "signed_parse inp = Some (c, n, m)" "inp ! 0 = kTypeSignedRequest" "n \<le> 256"
    "bs = [kTypeSignedResponse] @ PutU32 c @ put_u16 n @ payload_at inp n
            @ put_u16 (length sig) @ sig"
    "BuildPreimage kDirResponse c (gDevicePub d') (payload_at inp n) 700 = (CHIP_NO_ERROR, pre)"
    "Sign P (gSigner d') pre kSignatureLen e = (0, sig, env d')"
    by blast
  note enc = signed_parse_SomeD [OF s(1,2)]
  show thesis
    by (rule that [OF enc(1) _ s(5,6)]) (use s(3,4) enc(2) in \<open>simp_all add: put_field_def\<close>)
qed

text \<open>With client authentication, somebody holding the registered key signed the request.\<close>

lemma signed_response_authentic:
  assumes K: "keys_ok P pubkey valid_sig" and cfg: "CONFIG_TUNNEL_CLIENT_AUTH cfg"
    and inv: "keys_inv pubkey d" "core_wf d"
    and P: "ProcessRequest_view P cfg view outCap d = ((bs, r), d')"
    and c: "response_counter bs = Some c"
  obtains n m pre where "signed_parse (view 0) = Some (c, n, m)"
    "BuildPreimage kDirRequest c (gDevicePub d') (payload_at (view 1) n) 700 = (CHIP_NO_ERROR, pre)"
    "valid_sig PSA_ALG_PURE_EDDSA (Key (gStore d')) pre (sig_at (view 2) n m)"
    "length (Key (gStore d')) = 32"
proof -
  obtain b n m d1 d2 d3 d4 sig where s: "signed_parse (view 0) = Some (b, n, m)"
    "EnsureBundle P d = (True, d1)" "EnsureReplay P cfg d1 = (True, d2)"
    "auth_gate P cfg b (payload_at (view 1) n) (sig_at (view 2) n m) d2 = (None, d3)"
    "consume_counter P b d3 = (None, d4)"
    "sign_response P b (payload_at (view 3) n) d4 = (Inr sig, d')"
    "emit_response b n (payload_at (view 4) n) sig outCap = (bs, r)"
    using signed_reply_cases [OF P] c unfolding response_counter_Some by metis
  have [simp]: "b = c"
    using emitted_counter(1) [OF s(7)] c by (simp add: response_counter_Some)
  have wf1: "core_wf d1" using EnsureBundle_wf [OF s(2) inv(2)] .
  have wf2: "core_wf d2" using EnsureReplay_wf [OF s(3) wf1] .
  have k2: "keys_inv pubkey d2"
    using EnsureReplay_keys [OF s(3) EnsureBundle_keys [OF K s(2) inv(1)] wf1] .
  have "authenticate P c (payload_at (view 1) n) (sig_at (view 2) n m) d2 = (None, d3)"
    using s(4) cfg by (simp add: auth_gate_def)
  then show thesis
  proof (cases rule: authenticate_passed_cases)
    case (1 pre ks e)
    have v: "valid_sig PSA_ALG_PURE_EDDSA (Key (gStore d2)) pre (sig_at (view 2) n m)"
      using store_Verify_keys(2) [OF K 1(3)] k2 by (simp add: keys_inv_def)
    have same: "gStore d' = ks \<and> gDevicePub d' = gDevicePub d2"
      using 1(4) consume_counter_frame [OF s(5)] sign_response_frame [OF s(6)] by auto
    have "Key ks = Key (gStore d2)" using store_Verify_fields [OF 1(3)] by (simp add: Key_def)
    moreover have "length (Key (gStore d2)) = 32"
      using length_Key [OF _ 1(1)] wf2 by (simp add: core_wf_def)
    ultimately show thesis using that s(1) 1(2) v same by simp
  qed
qed

section \<open>Refusals\<close>

text \<open>
  Authenticity comes first: a signed request whose signature does not verify leaves the
  guard, the registered key, the window and the flash partition as the lazy initialisers left
  them, and these do nothing in a device that is initialised.
\<close>

definition untouched :: "('e \<Rightarrow> string \<Rightarrow> byte list option) \<Rightarrow> 'e core \<Rightarrow> 'e core \<Rightarrow> bool" where
  "untouched stored d d' \<longleftrightarrow> gReplay d' = gReplay d \<and> mKey (gStore d') = mKey (gStore d) \<and>
     mKeyLen (gStore d') = mKeyLen (gStore d) \<and>
     mWindowUntilMs (gStore d') = mWindowUntilMs (gStore d) \<and> stored (env d') = stored (env d)"

lemma untouched_refl [simp]: "untouched stored d d"
  by (simp add: untouched_def)

lemma untouched_trans: "untouched stored d d1 \<Longrightarrow> untouched stored d1 d2 \<Longrightarrow> untouched stored d d2"
  by (simp add: untouched_def)

lemma EnsureBundle_untouched:
  "flash_ok P stored \<Longrightarrow> EnsureBundle P d = (ok, d1) \<Longrightarrow> untouched stored d d1"
  using EnsureBundle_steps [OF flash_okD(1) reflp_eq transp_eq]
  by (auto simp: untouched_def dest: EnsureBundle_frame)

lemma unauthenticated_changes_nothing:
  assumes F: "flash_ok P stored"
    and S: "signed_request P cfg view outCap d = (([kTypeAuthReject], r), d')"
  obtains d1 d2 where "EnsureBundle P d = (True, d1)" "EnsureReplay P cfg d1 = (True, d2)"
    "untouched stored d2 d'"
  using S
proof (cases rule: signed_request_cases)
  case (refused c n m d1 d2)
  have auth: "authenticate P c (payload_at (view 1) n) (sig_at (view 2) n m) d2 =
      (Some ([kTypeAuthReject], r), d')"
    using refused(4) by (auto simp: auth_gate_def split: if_splits)
  have "untouched stored d2 d'"
    using authenticate_frame [OF auth] authenticate_store [OF auth]
      authenticate_steps [OF flash_okD(1) [OF F] reflp_eq transp_eq auth] by (simp add: untouched_def)
  with refused(2,3) show thesis by (rule that)
next
  case (not_fresh c n m d1 d2 d3)
  from not_fresh(5) show ?thesis by (rule consume_counter_cases) (auto simp: PutU32_def)
next
  case (answered c n m d1 d2 d3 d4 sig)
  then show ?thesis by (auto simp: emit_response_def type_defs split: if_splits)
qed simp_all

text \<open>A stale counter is answered with the floor and changes neither guard nor flash.\<close>

lemma replay_reject_reports_floor:
  assumes F: "flash_ok P stored" and ready: "gReplayReady d"
    and S: "signed_request P cfg view outCap d = ((bs, r), d')"
    and bs: "bs \<noteq> []" "bs ! 0 = kTypeReplayReject"
  shows "bs = kTypeReplayReject # PutU32 (mFloor (gReplay d)) \<and> r = Reject_None \<and>
    gReplay d' = gReplay d \<and> stored (env d') = stored (env d)"
  using S
proof (cases rule: signed_request_cases)
  case (refused c n m d1 d2)
  from refusal_types(1) [OF refused(4)] bs show ?thesis by (auto simp: type_defs)
next
  case (not_fresh c n m d1 d2 d3)
  note st = flash_okD(1) [OF F]
  have d2: "d2 = d1"
    using not_fresh(3) EnsureBundle_frame [OF not_fresh(2)] ready by (simp add: EnsureReplay_ready)
  have "stored (env d1) = stored (env d)"
    using EnsureBundle_steps [OF st reflp_eq transp_eq not_fresh(2)] .
  moreover have "stored (env d3) = stored (env d1)"
    using not_fresh(4) d2 authenticate_steps [OF st reflp_eq transp_eq]
    by (auto simp: auth_gate_def split: if_splits)
  moreover have "gReplay d3 = gReplay d"
    using auth_gate_frame [OF not_fresh(4)] d2 EnsureBundle_frame [OF not_fresh(2)] by simp
  moreover from not_fresh(5) have "d' = d3 \<and> r = Reject_None \<and>
      bs = kTypeReplayReject # PutU32 (mFloor (gReplay d3))"
    by (rule consume_counter_cases) (use bs in auto)
  ultimately show ?thesis by simp
next
  case (answered c n m d1 d2 d3 d4 sig)
  then show ?thesis using bs by (auto simp: emit_response_def type_defs split: if_splits)
qed (use bs in simp_all)

section \<open>Requests that are answered\<close>

text \<open>
  The other direction: what is sufficient for an answer. The hypotheses follow the calls of
  the arm in their order.
\<close>

lemma signed_request_answers:
  assumes parse: "signed_parse (view 0) = Some (c, n, m)"
    and ready: "gBundleLen d \<noteq> 0" "gReplayReady d"
    and key: "HasKey (gStore d)"
    and pre: "BuildPreimage kDirRequest c (gDevicePub d) (payload_at (view 1) n) 700 = (CHIP_NO_ERROR, pre)"
    and ver: "store_Verify P pre (sig_at (view 2) n m) (gStore d) (env d) = (0, ks, e1)"
    and acc: "Accept P c (gReplay d) e1 = (CHIP_NO_ERROR, g, e2)"
    and pre': "BuildPreimage kDirResponse c (gDevicePub d) (payload_at (view 3) n) 700 = (CHIP_NO_ERROR, pre')"
    and sig: "Sign P (gSigner d) pre' kSignatureLen e2 = (0, sig, e3)"
    and room: "n \<le> 256" "9 + n + 64 \<le> outCap"
    and cfg: "CONFIG_TUNNEL_CLIENT_AUTH cfg"
  shows "signed_request P cfg view outCap d =
    (([kTypeSignedResponse] @ PutU32 c @ put_u16 n @ payload_at (view 4) n @ put_u16 (length sig) @ sig,
      Reject_None), d\<lparr>gStore := ks, gReplay := g, env := e3\<rparr>)"
proof -
  let ?d1 = "d\<lparr>gStore := ks, env := e1\<rparr>" and ?d2 = "d\<lparr>gStore := ks, gReplay := g, env := e2\<rparr>"
  have a: "authenticate P c (payload_at (view 1) n) (sig_at (view 2) n m) d = (None, ?d1)"
    using key pre ver by (simp add: authenticate_def Let_def)
  have "IsFresh (gReplay d) c" using Accept_okD(1) [OF acc] .
  then have b: "consume_counter P c ?d1 = (None, ?d2)"
    using acc by (simp add: consume_counter_def Let_def)
  have c: "sign_response P c (payload_at (view 3) n) ?d2 =
      (Inr sig, d\<lparr>gStore := ks, gReplay := g, env := e3\<rparr>)"
    using pre' sig by (simp add: sign_response_def Let_def)
  show ?thesis
    using parse cfg a b c room EnsureBundle_done [OF ready(1), of P] EnsureReplay_ready [OF ready(2), of P cfg]
    by (simp add: signed_request_def emit_response_def Let_def kSignatureLen_def)
qed

text \<open>A payload of more than 256 bytes is refused after its counter has been consumed.\<close>

lemma oversize_consumes:
  assumes "signed_request P cfg view outCap d = ((bs, r), d')"
    and "signed_parse (view 0) = Some (c, n, m)" and big: "256 < n"
    and "EnsureBundle P d = (True, d1)" "EnsureReplay P cfg d1 = (True, d2)"
    and "auth_gate P cfg c (payload_at (view 1) n) (sig_at (view 2) n m) d2 = (None, d3)"
    and "consume_counter P c d3 = (None, d4)"
  shows "bs = [] \<and> r \<noteq> Reject_None \<and> gReplay d' = gReplay d4 \<and> mFloor (gReplay d') = c"
proof -
  have "mFloor (gReplay d4) = c"
    using assms(7) by (rule consume_counter_cases) (auto dest: Accept_okD(2))
  moreover have "gReplay d' = gReplay d4 \<and> bs = [] \<and> r \<noteq> Reject_None"
    using assms(1)
  proof (cases rule: signed_request_cases)
    case (unsigned c' n' m' d1' d2' d3' d4')
    then show ?thesis
      using assms sign_response_frame [OF unsigned(6)] sign_response_rejects [OF unsigned(6)] by auto
  next
    case (answered c' n' m' d1' d2' d3' d4' sig)
    then show ?thesis
      using assms sign_response_frame [OF answered(6)]
      by (auto simp: emit_response_def split: if_splits)
  qed (use assms in auto)
  ultimately show ?thesis by simp
qed

end
