(* ===== verification/Matter_Adapter.thy ===== *)
theory Matter_Adapter
  imports Core_Responses
begin

text \<open>
  The Matter end of \<open>tunnel_server.cpp\<close>: the command callback that hands the cluster
  command's payload to the core and turns the outcome into a response or an interaction
  model status. What the callback does to the command object is the list of its calls.
\<close>

datatype im_status = Status_Failure | Status_InvalidCommand | Status_ConstraintError

datatype command_call = AddStatus im_status | AddResponse "byte list"

definition im_status_of :: "reject \<Rightarrow> im_status" where
  "im_status_of r =
     (case r of InvalidCommand \<Rightarrow> Status_InvalidCommand
      | ConstraintError \<Rightarrow> Status_ConstraintError
      | _ \<Rightarrow> Status_Failure)"

text \<open>The result is the returned flag, the calls on the command object and the core.\<close>

definition TunnelRequestCallback ::
  "'e platform \<Rightarrow> config \<Rightarrow> bool \<Rightarrow> byte list \<Rightarrow> 'e core \<Rightarrow>
   (bool \<times> command_call list) \<times> 'e core" where
  "TunnelRequestCallback P cfg has_command payload d =
     (if \<not> has_command then ((False, []), d)
      else
        let ((out, reject), d) = ProcessRequest P cfg payload kMaxResponse d
        in if length out = 0 then ((True, [AddStatus (im_status_of reject)]), d)
           else ((True, [AddResponse out]), d))"

text \<open>The core over an unchanging buffer, as an instance of the transport interface.\<close>

interpretation matter: transport_core "ProcessRequest P cfg" "\<lambda>d. lengths_ok P \<and> core_wf d"
  for P :: "'e platform" and cfg
proof unfold_locales
  fix inp cap and d d' :: "'e core" and bs r reply
  show "ProcessRequest P cfg inp cap d = ((bs, r), d') \<Longrightarrow> bs = [] \<longleftrightarrow> r \<noteq> Reject_None"
    unfolding ProcessRequest_def by (rule core.reply_xor)
  show "lengths_ok P \<and> core_wf d \<Longrightarrow> 5 \<le> cap \<Longrightarrow>
      ProcessRequest P cfg inp cap d = ((bs, r), d') \<Longrightarrow> length bs \<le> cap"
    unfolding ProcessRequest_def by (rule core.reply_fits)
  show "lengths_ok P \<and> core_wf d \<Longrightarrow> ProcessRequest P cfg inp cap d = (reply, d') \<Longrightarrow>
      lengths_ok P \<and> core_wf d'"
    unfolding ProcessRequest_def by (rule core.inv_step)
qed

text \<open>
  A command that arrives gets exactly one answer; a status is one of the three a rejection
  maps to, so the default of the switch is taken for \<open>Failure\<close> only.
\<close>

lemma TunnelRequestCallback_cases:
  assumes "TunnelRequestCallback P cfg True payload d = ((handled, calls), d')"
  obtains (response) out where "handled" "calls = [AddResponse out]" "out \<noteq> []"
      "ProcessRequest P cfg payload 512 d = ((out, Reject_None), d')"
  | (status) r where "handled" "calls = [AddStatus (im_status_of r)]" "r \<noteq> Reject_None"
      "ProcessRequest P cfg payload 512 d = (([], r), d')"
proof -
  obtain out r d1 where p: "ProcessRequest P cfg payload 512 d = ((out, r), d1)"
    by (metis prod.collapse)
  note x = matter.reply_xor [OF p]
  have res: "handled \<and> d' = d1 \<and>
      calls = (if out = [] then [AddStatus (im_status_of r)] else [AddResponse out])"
    using assms p by (auto simp: TunnelRequestCallback_def kMaxResponse_def split: if_splits)
  show thesis
  proof (cases "out = []")
    case True
    show thesis by (rule status) (use res x p True in auto)
  next
    case False
    show thesis by (rule response) (use res x p False in auto)
  qed
qed

lemma im_status_of_inject:
  "r \<noteq> Reject_None \<Longrightarrow> r' \<noteq> Reject_None \<Longrightarrow> im_status_of r = im_status_of r' \<longleftrightarrow> r = r'"
  by (cases r; cases r') (simp_all add: im_status_of_def)

end
