(* ===== verification/Device.thy ===== *)
theory Device
  imports Core_Responses
begin

text \<open>
  The device over time. A step is a request (over either transport, hence with the general
  form of the request buffer), a button event, something happening outside the component, or
  a power cycle; a run is a sequence of labelled steps. The counter interface turns per-step
  laws about spent counters into a statement about whole runs, and is interpreted twice: for
  runs without power cycles, where it needs nothing of the platform, and for the device's
  whole life, where it needs the flash.
\<close>

section \<open>Labelled runs\<close>

inductive run :: "('s \<Rightarrow> 'l \<Rightarrow> 's \<Rightarrow> bool) \<Rightarrow> 's \<Rightarrow> 'l list \<Rightarrow> 's \<Rightarrow> bool" for step where
  run_nil: "run step s [] s"
| run_cons: "step s l s1 \<Longrightarrow> run step s1 ls s2 \<Longrightarrow> run step s (l # ls) s2"

inductive_cases run_consE: "run step s (l # ls) s'"
inductive_simps run_nil_simp [simp]: "run step s [] s'"
inductive_simps run_cons_simp: "run step s (l # ls) s'"

lemma run_invariant:
  assumes "run step s ls s'" and "Q s" and "\<And>s l s'. step s l s' \<Longrightarrow> Q s \<Longrightarrow> Q s'"
  shows "Q s'"
  using assms by (induction rule: run.induct) auto

lemma run_mono: "run step s ls s' \<Longrightarrow> (\<And>s l s'. step s l s' \<Longrightarrow> l \<in> set ls \<Longrightarrow> step' s l s') \<Longrightarrow>
  run step' s ls s'"
  by (induction rule: run.induct) (auto intro: run.intros)

datatype label =
    L_Request "nat \<Rightarrow> byte list" nat "byte list \<times> reject"
  | L_Button u32 u32
  | L_Outside
  | L_PowerCycle

text \<open>
  \<open>drift\<close> is how the outside state may move on its own (time passes, other components
  write their settings). At a power cycle RAM is lost, flash is not: power may go between
  operations or inside \<open>Accept\<close>, right after the reservation was saved.
\<close>

inductive dev_step :: "'e platform \<Rightarrow> config \<Rightarrow> ('e \<Rightarrow> string \<Rightarrow> byte list option) \<Rightarrow>
  ('e \<Rightarrow> 'e \<Rightarrow> bool) \<Rightarrow> 'e core \<Rightarrow> label \<Rightarrow> 'e core \<Rightarrow> bool" for P cfg stored drift where
  request: "ProcessRequest_view P cfg view cap d = (reply, d') \<Longrightarrow>
    dev_step P cfg stored drift d (L_Request view cap reply) d'"
| button: "dev_step P cfg stored drift d (L_Button button_state has_changed)
    (d\<lparr>gStore := button_event P button_state has_changed (env d) (gStore d)\<rparr>)"
| outside: "drift (env d) e \<Longrightarrow> dev_step P cfg stored drift d L_Outside (d\<lparr>env := e\<rparr>)"
| power: "lost = env d \<or> (gReplayReady d \<and> power_loss_point P (gReplay d, env d) lost) \<Longrightarrow>
    stored e = stored lost \<Longrightarrow> dev_step P cfg stored drift d L_PowerCycle (boot e)"

inductive_cases dev_requestE: "dev_step P cfg stored drift d (L_Request view cap reply) d'"
inductive_cases dev_buttonE: "dev_step P cfg stored drift d (L_Button b c) d'"
inductive_cases dev_outsideE: "dev_step P cfg stored drift d L_Outside d'"
inductive_cases dev_powerE: "dev_step P cfg stored drift d L_PowerCycle d'"

text \<open>The counter of the signed response a step sends, if it sends one.\<close>

fun served :: "label \<Rightarrow> u32 option" where
  "served (L_Request view cap reply) = response_counter (fst reply)"
| "served _ = None"

definition served_counters :: "label list \<Rightarrow> u32 list" where
  "served_counters ls = List.map_filter served ls"

section \<open>The counter interface\<close>

text \<open>
  Counters leave a system one at a time. \<open>spent s c\<close> says that \<open>c\<close> must not leave it any
  more: it stays spent, a counter that leaves was not spent, and afterwards it is, with all
  smaller ones.
\<close>

locale counter_run =
  fixes step :: "'s \<Rightarrow> 'l \<Rightarrow> 's \<Rightarrow> bool" and emits :: "'l \<Rightarrow> 'c :: linorder option"
    and inv :: "'s \<Rightarrow> bool" and spent :: "'s \<Rightarrow> 'c \<Rightarrow> bool"
  assumes inv_step: "inv s \<Longrightarrow> step s l s' \<Longrightarrow> inv s'"
    and spent_step: "inv s \<Longrightarrow> step s l s' \<Longrightarrow> spent s c \<Longrightarrow> spent s' c"
    and emit_unspent: "inv s \<Longrightarrow> step s l s' \<Longrightarrow> emits l = Some c \<Longrightarrow> \<not> spent s c"
    and emit_spends: "inv s \<Longrightarrow> step s l s' \<Longrightarrow> emits l = Some c \<Longrightarrow> c' \<le> c \<Longrightarrow> spent s' c'"
begin

lemma run_inv: "run step s ls s' \<Longrightarrow> inv s \<Longrightarrow> inv s'"
  by (induction rule: run.induct) (auto intro: inv_step)

lemma run_emits:
  "run step s ls s' \<Longrightarrow> inv s \<Longrightarrow>
   sorted_wrt (<) (List.map_filter emits ls) \<and>
   (\<forall>c. spent s c \<longrightarrow> c \<notin> set (List.map_filter emits ls) \<and> spent s' c)"
proof (induction rule: run.induct)
  case (run_nil s)
  then show ?case by (simp add: map_filter_simps)
next
  case (run_cons s l s1 ls s2)
  note inv1 = inv_step [OF run_cons.prems run_cons.hyps(1)]
  note IH = run_cons.IH [OF inv1]
  note keep = spent_step [OF run_cons.prems run_cons.hyps(1)]
  show ?case
  proof (cases "emits l")
    case None
    then show ?thesis using IH keep by (simp add: map_filter_simps)
  next
    case (Some c)
    note out = emit_spends [OF run_cons.prems run_cons.hyps(1) Some]
    have "\<not> spent s c" using emit_unspent [OF run_cons.prems run_cons.hyps(1) Some] .
    moreover have "c < a" if "a \<in> set (List.map_filter emits ls)" for a
      using IH that out [of a] by (meson not_le)
    ultimately show ?thesis using IH keep Some by (auto simp: map_filter_simps)
  qed
qed

lemma run_emits_distinct: "run step s ls s' \<Longrightarrow> inv s \<Longrightarrow> distinct (List.map_filter emits ls)"
  using run_emits by (simp add: strict_sorted_iff)

end

section \<open>One boot\<close>

definition boot_spent :: "'e core \<Rightarrow> u32 \<Rightarrow> bool" where
  "boot_spent d c \<longleftrightarrow> gReplayReady d \<and> c \<le> mFloor (gReplay d)"

lemma boot_spent_frame [simp]:
  "boot_spent (d\<lparr>env := e\<rparr>) c = boot_spent d c"
  "boot_spent (d\<lparr>gStore := ks\<rparr>) c = boot_spent d c"
  by (simp_all add: boot_spent_def)

lemma EnsureReplay_boot_spent:
  "EnsureReplay P cfg d = (ok, d') \<Longrightarrow> boot_spent d c \<Longrightarrow> boot_spent d' c"
  by (erule EnsureReplay_cases) (auto simp: boot_spent_def)

lemma consume_counter_boot_spent:
  assumes "consume_counter P b d = (r, d')" "boot_spent d c"
  shows "boot_spent d' c"
  using assms(1)
proof (cases rule: consume_counter_cases)
  case (failed err g e)
  with Accept_fail_floor [OF failed(2,3)] assms(2) show ?thesis by (simp add: boot_spent_def)
next
  case (consumed g e)
  have "mFloor (gReplay d) < b" using consumed(1) by (simp add: IsFresh_def)
  moreover have "c \<le> mFloor (gReplay d)" using assms(2) by (simp add: boot_spent_def)
  ultimately have "c \<le> b" by (meson less_imp_le order.trans)
  with Accept_okD(2) [OF consumed(2)] assms(2) consumed(3) show ?thesis
    by (simp add: boot_spent_def)
qed (use assms(2) in simp)

lemma request_boot_spent:
  assumes P: "ProcessRequest_view P cfg view cap d = ((bs, r), d')"
  shows "boot_spent d c \<Longrightarrow> boot_spent d' c"
    and "response_counter bs = Some c \<Longrightarrow> \<not> boot_spent d c"
    and "response_counter bs = Some c \<Longrightarrow> c' \<le> c \<Longrightarrow> boot_spent d' c'"
proof -
  have eb: "boot_spent d' c" if "EnsureBundle P d = (ok, d')" "boot_spent d c" for d ok d' c
    using that EnsureBundle_frame [OF that(1)] by (simp add: boot_spent_def)
  have ag: "boot_spent d' c" if "auth_gate P cfg b p s d = (r, d')" "boot_spent d c"
    for b p s d r d' c
    using that auth_gate_frame [OF that(1)] by (simp add: boot_spent_def)
  show "boot_spent d c \<Longrightarrow> boot_spent d' c"
    by (erule ProcessRequest_view_preserves [OF P, where Q = "\<lambda>d. boot_spent d c"])
       (auto intro: eb ag EnsureReplay_boot_spent consume_counter_boot_spent)
  show "\<not> boot_spent d c" if c: "response_counter bs = Some c"
  proof
    assume "boot_spent d c"
    show False
    proof (rule signed_reply_guard [where Q = "\<lambda>d. boot_spent d c", OF P c \<open>boot_spent d c\<close>])
      fix d3 assume "boot_spent d3 c" "mFloor (gReplay d3) < c"
      then show False by (simp add: boot_spent_def leD)
    qed (auto intro: eb ag EnsureReplay_boot_spent)
  qed
  show "boot_spent d' c'" if "response_counter bs = Some c" "c' \<le> c"
    by (rule signed_reply_guard [OF P that(1), where Q = "\<lambda>_. True"])
       (use that(2) in \<open>auto simp: boot_spent_def\<close>)
qed

definition awake_step :: "'e platform \<Rightarrow> config \<Rightarrow> ('e \<Rightarrow> string \<Rightarrow> byte list option) \<Rightarrow>
  ('e \<Rightarrow> 'e \<Rightarrow> bool) \<Rightarrow> 'e core \<Rightarrow> label \<Rightarrow> 'e core \<Rightarrow> bool" where
  "awake_step P cfg stored drift d l d' \<longleftrightarrow> l \<noteq> L_PowerCycle \<and> dev_step P cfg stored drift d l d'"

lemma awake_step_cases:
  assumes "awake_step P cfg stored drift d l d'"
  obtains (request) view cap bs r where "l = L_Request view cap (bs, r)"
      "ProcessRequest_view P cfg view cap d = ((bs, r), d')"
  | (other) "served l = None" "gReplay d' = gReplay d" "gReplayReady d' = gReplayReady d"
  using assms unfolding awake_step_def
  by (cases l) (auto elim!: dev_requestE dev_buttonE dev_outsideE)

interpretation awake: counter_run "awake_step P cfg stored drift" served "\<lambda>_. True" boot_spent
  for P :: "'e platform" and cfg and stored :: "'e \<Rightarrow> string \<Rightarrow> byte list option" and drift
proof unfold_locales
  fix d d' :: "'e core" and l c c'
  assume st: "awake_step P cfg stored drift d l d'"
  show "boot_spent d c \<Longrightarrow> boot_spent d' c"
    using st by (cases rule: awake_step_cases) (auto dest: request_boot_spent(1) simp: boot_spent_def)
  show "served l = Some c \<Longrightarrow> \<not> boot_spent d c"
    using st by (cases rule: awake_step_cases) (auto dest: request_boot_spent(2))
  show "served l = Some c \<Longrightarrow> c' \<le> c \<Longrightarrow> boot_spent d' c'"
    using st by (cases rule: awake_step_cases) (auto dest: request_boot_spent(3))
qed simp

end
