(* ===== verification/Ble_Adapter.thy ===== *)
theory Ble_Adapter
  imports Matter_Adapter Device
begin

text \<open>
  \<open>tunnel_ble.cpp\<close>: the Bluetooth transport. Every callback and work handler is a function
  on the file-level state that also returns the calls it makes, in order; their return codes
  are only logged, except the two that end the initialisation, which are arguments there.
  The kernel decides when a handler runs, so a run of the adapter is any sequence of events.

  The receive callback runs on a cooperative thread and pre-empts \<open>ProcessWork\<close>, whose
  request is the very buffer the callback writes. \<open>ProcessWork\<close> therefore takes the writes
  that reach the callback before each of the later points at which the core reads it.
\<close>

section \<open>State\<close>

type_synonym u16 = "16 word"
type_synonym conn = nat

datatype work_item = sWork | sInitWork | sReadvertiseWork | sParamWork

record conn_param =
  interval_min :: u16
  interval_max :: u16
  latency :: u16
  timeout :: u16

record adv_request =
  adv_priority :: nat
  adv_options_connectable :: bool
  adv_minInterval :: nat
  adv_maxInterval :: nat
  adv_data :: "(byte list \<times> byte list)"
  adv_scanResponse :: "byte list"

datatype ble_call =
    BtGattExchangeMtu conn
  | BtConnLeParamUpdate conn conn_param
  | BtNusInit
  | BtNusSend "byte list"
  | QueueInit
  | QueueStart nat int
  | Submit work_item
  | Schedule work_item nat
  | LockChipStack
  | UnlockChipStack
  | CancelRequest adv_request
  | InsertRequest adv_request

record ble =
  sRxBuf :: "byte list"
  sRxLen :: nat
  sConn :: "conn option"
  sParamRetries :: byte
  sAdvRequest :: adv_request

definition kFastParams :: conn_param where
  "kFastParams = \<lparr>interval_min = 6, interval_max = 12, latency = 0, timeout = 400\<rparr>"

definition kAdvPriority :: nat where "kAdvPriority = 3"
definition kAdvIntervalMin :: nat where "kAdvIntervalMin = 160"
definition kAdvIntervalMax :: nat where "kAdvIntervalMax = 240"
definition kTunnelStackSize :: nat where "kTunnelStackSize = 8192"

text \<open>\<open>BT_LE_AD_GENERAL | BT_LE_AD_NO_BREDR\<close>\<close>

definition kAdvFlags :: byte where "kAdvFlags = 0x02 OR 0x04"

definition empty_adv :: adv_request where
  "empty_adv = \<lparr>adv_priority = 0, adv_options_connectable = False, adv_minInterval = 0,
     adv_maxInterval = 0, adv_data = ([], []), adv_scanResponse = []\<rparr>"

definition ble_boot :: ble where
  "ble_boot = \<lparr>sRxBuf = replicate 512 0, sRxLen = 0, sConn = None, sParamRetries = 0,
     sAdvRequest = empty_adv\<rparr>"

section \<open>Callbacks and handlers\<close>

definition RxCallback :: "byte list \<Rightarrow> ble \<Rightarrow> ble_call list \<times> ble" where
  "RxCallback data b =
     (if length data = 0 \<or> length data > kMaxResponse then ([], b)
      else ([Submit sWork],
            b\<lparr>sRxBuf := overlay (sRxBuf b) data, sRxLen := length data\<rparr>))"

text \<open>
  \<open>rx k\<close> is what reaches the callback before the core's \<open>k\<close>-th read. The length is read
  once, when \<open>ProcessRequest\<close> is called.
\<close>

definition received :: "(nat \<Rightarrow> byte list list) \<Rightarrow> nat \<Rightarrow> ble \<Rightarrow> ble" where
  "received rx k b = fold (\<lambda>data b. snd (RxCallback data b)) (concat (map rx [1..<Suc k])) b"

definition rx_view :: "(nat \<Rightarrow> byte list list) \<Rightarrow> ble \<Rightarrow> nat \<Rightarrow> byte list" where
  "rx_view rx b k = take (sRxLen b) (sRxBuf (received rx k b))"

definition ProcessWork ::
  "'e platform \<Rightarrow> config \<Rightarrow> (nat \<Rightarrow> byte list list) \<Rightarrow> ble \<times> 'e core \<Rightarrow>
   ble_call list \<times> ble \<times> 'e core" where
  "ProcessWork P cfg rx s =
     (let (b, d) = s;
          ((out, reject), d) = ProcessRequest_view P cfg (rx_view rx b) kMaxResponse d;
          b = received rx 4 b
      in if length out = 0 then ([], b, d) else ([BtNusSend out], b, d))"

definition OnConnected :: "conn \<Rightarrow> byte \<Rightarrow> ble \<Rightarrow> ble_call list \<times> ble" where
  "OnConnected conn err b =
     (if err \<noteq> 0 then ([], b)
      else ([BtGattExchangeMtu conn, BtConnLeParamUpdate conn kFastParams],
            b\<lparr>sConn := Some conn, sParamRetries := 0\<rparr>))"

definition ParamWorkHandler :: "ble \<Rightarrow> ble_call list \<times> ble" where
  "ParamWorkHandler b =
     (case sConn b of None \<Rightarrow> ([], b)
      | Some conn \<Rightarrow>
          if sParamRetries b \<ge> 3 then ([], b)
          else ([BtConnLeParamUpdate conn kFastParams], b\<lparr>sParamRetries := sParamRetries b + 1\<rparr>))"

definition OnParamUpdated :: "u16 \<Rightarrow> ble \<Rightarrow> ble_call list \<times> ble" where
  "OnParamUpdated interval b =
     (if interval > interval_max kFastParams \<and> sParamRetries b < 3
      then ([Schedule sParamWork 1500], b) else ([], b))"

definition OnDisconnected :: "ble \<Rightarrow> ble_call list \<times> ble" where
  "OnDisconnected b = ([Submit sReadvertiseWork], b\<lparr>sConn := None\<rparr>)"

definition ReadvertiseHandler :: "ble \<Rightarrow> ble_call list \<times> ble" where
  "ReadvertiseHandler b =
     ([LockChipStack, CancelRequest (sAdvRequest b), InsertRequest (sAdvRequest b),
       UnlockChipStack], b)"

text \<open>
  \<open>DoInit\<close>: the service's UUID and the device name come from outside, as do the result of
  \<open>bt_nus_init\<close> and whether the arbiter takes the request.
\<close>

definition DoInit ::
  "byte list \<Rightarrow> byte list \<Rightarrow> int \<Rightarrow> bool \<Rightarrow> ble \<Rightarrow> int \<times> ble_call list \<times> ble" where
  "DoInit nus_uuid name nus_rc insert_ok b =
     (if nus_rc \<noteq> 0 then (nus_rc, [BtNusInit], b)
      else
        let req = \<lparr>adv_priority = kAdvPriority, adv_options_connectable = True,
              adv_minInterval = kAdvIntervalMin, adv_maxInterval = kAdvIntervalMax,
              adv_data = ([kAdvFlags], nus_uuid),
              adv_scanResponse = take (length name mod 256) name\<rparr>;
            b = b\<lparr>sAdvRequest := req\<rparr>;
            calls = [BtNusInit, QueueInit, QueueStart kTunnelStackSize 4,
                     LockChipStack, InsertRequest req, UnlockChipStack]
        in if \<not> insert_ok then (- EIO, calls, b) else (0, calls, b))"

definition InitHandler ::
  "byte list \<Rightarrow> byte list \<Rightarrow> int \<Rightarrow> bool \<Rightarrow> ble \<Rightarrow> ble_call list \<times> ble" where
  "InitHandler nus_uuid name nus_rc insert_ok b =
     (let (res, cs, b) = DoInit nus_uuid name nus_rc insert_ok b in (cs, b))"

definition BleTransportScheduleInit :: "ble_call list" where
  "BleTransportScheduleInit = [Schedule sInitWork 5000]"

section \<open>Runs\<close>

datatype ble_event =
    Ev_Rx "byte list"
  | Ev_Process "nat \<Rightarrow> byte list list"
  | Ev_Connected conn byte
  | Ev_ParamWork
  | Ev_ParamUpdated u16
  | Ev_Disconnected
  | Ev_Readvertise
  | Ev_Init "byte list" "byte list" int bool

fun ble_step :: "'e platform \<Rightarrow> config \<Rightarrow> ble_event \<Rightarrow> ble \<times> 'e core \<Rightarrow>
    ble_call list \<times> ble \<times> 'e core" where
  "ble_step P cfg (Ev_Rx data) (b, d) = (let (cs, b) = RxCallback data b in (cs, b, d))"
| "ble_step P cfg (Ev_Process rx) (b, d) = ProcessWork P cfg rx (b, d)"
| "ble_step P cfg (Ev_Connected conn err) (b, d) = (let (cs, b) = OnConnected conn err b in (cs, b, d))"
| "ble_step P cfg Ev_ParamWork (b, d) = (let (cs, b) = ParamWorkHandler b in (cs, b, d))"
| "ble_step P cfg (Ev_ParamUpdated i) (b, d) = (let (cs, b) = OnParamUpdated i b in (cs, b, d))"
| "ble_step P cfg Ev_Disconnected (b, d) = (let (cs, b) = OnDisconnected b in (cs, b, d))"
| "ble_step P cfg Ev_Readvertise (b, d) = (let (cs, b) = ReadvertiseHandler b in (cs, b, d))"
| "ble_step P cfg (Ev_Init uuid name rc ok) (b, d) =
     (let (cs, b) = InitHandler uuid name rc ok b in (cs, b, d))"

fun ble_run :: "'e platform \<Rightarrow> config \<Rightarrow> ble_event list \<Rightarrow> ble \<times> 'e core \<Rightarrow>
    ble_call list \<times> ble \<times> 'e core" where
  "ble_run P cfg [] s = ([], s)"
| "ble_run P cfg (ev # evs) s =
     (let (cs, s) = ble_step P cfg ev s; (cs', s) = ble_run P cfg evs s in (cs @ cs', s))"

section \<open>The buffer\<close>

definition ble_wf :: "ble \<Rightarrow> bool" where
  "ble_wf b \<longleftrightarrow> length (sRxBuf b) = 512 \<and> sRxLen b \<le> 512 \<and> sParamRetries b \<le> 3"

lemma ble_wf_boot [simp]: "ble_wf ble_boot"
  by (simp add: ble_wf_def ble_boot_def)

lemma RxCallback_wf: "ble_wf b \<Longrightarrow> ble_wf (snd (RxCallback data b))"
  by (simp add: RxCallback_def ble_wf_def kMaxResponse_def)

lemma fold_rx_wf: "ble_wf b \<Longrightarrow> ble_wf (fold (\<lambda>data b. snd (RxCallback data b)) ds b)"
  by (induction ds arbitrary: b) (simp_all add: RxCallback_wf)

lemma received_wf: "ble_wf b \<Longrightarrow> ble_wf (received rx k b)"
  by (simp add: received_def fold_rx_wf)

lemma length_rx_view: "ble_wf b \<Longrightarrow> length (rx_view rx b k) = sRxLen b"
  using received_wf [of b rx k] by (simp add: rx_view_def ble_wf_def)

lemma fold_rx_frame:
  "sConn (fold (\<lambda>data b. snd (RxCallback data b)) ds b) = sConn b \<and>
   sParamRetries (fold (\<lambda>data b. snd (RxCallback data b)) ds b) = sParamRetries b \<and>
   sAdvRequest (fold (\<lambda>data b. snd (RxCallback data b)) ds b) = sAdvRequest b"
  by (induction ds arbitrary: b) (simp_all add: RxCallback_def)

lemma received_frame [simp]:
  "sConn (received rx k b) = sConn b" "sParamRetries (received rx k b) = sParamRetries b"
  "sAdvRequest (received rx k b) = sAdvRequest b"
  by (simp_all add: received_def fold_rx_frame)

lemma ProcessWork_result:
  assumes "ProcessWork P cfg rx (b, d) = (cs, b', d')"
  obtains out r where "ProcessRequest_view P cfg (rx_view rx b) 512 d = ((out, r), d')"
    "b' = received rx 4 b" "cs = (if out = [] then [] else [BtNusSend out])"
proof -
  obtain out r d1 where p: "ProcessRequest_view P cfg (rx_view rx b) 512 d = ((out, r), d1)"
    by (metis prod.collapse)
  show thesis
    by (rule that [of out r])
       (use assms p in \<open>auto simp: ProcessWork_def kMaxResponse_def Let_def split: if_splits\<close>)
qed

text \<open>Retries compare and count below 256.\<close>

lemma retry_count:
  fixes r :: byte
  assumes "r < 3"
  shows "unat (r + 1) = unat r + 1" and "r + 1 \<le> 3"
proof -
  have "unat r < 3" using assms by (simp add: word_less_nat_alt)
  then show *: "unat (r + 1) = unat r + 1" by (simp add: unat_word_ariths)
  with \<open>unat r < 3\<close> show "r + 1 \<le> 3" by (simp add: word_le_nat_alt)
qed

lemma ble_step_wf: "ble_step P cfg ev (b, d) = (cs, b', d') \<Longrightarrow> ble_wf b \<Longrightarrow> ble_wf b'"
proof (cases ev)
  case (Ev_Process rx)
  then show "ble_step P cfg ev (b, d) = (cs, b', d') \<Longrightarrow> ble_wf b \<Longrightarrow> ble_wf b'"
    by (auto elim!: ProcessWork_result simp: received_wf)
next
  case Ev_ParamWork
  then show "ble_step P cfg ev (b, d) = (cs, b', d') \<Longrightarrow> ble_wf b \<Longrightarrow> ble_wf b'"
    using retry_count(2)
    by (auto simp: ParamWorkHandler_def ble_wf_def not_le split: option.splits if_splits)
qed (auto simp: RxCallback_def OnConnected_def OnParamUpdated_def OnDisconnected_def
    ReadvertiseHandler_def InitHandler_def DoInit_def ble_wf_def kMaxResponse_def Let_def split: if_splits)

section \<open>Requests that do not overlap\<close>

text \<open>
  Received and processed with nothing in between, a request of at most 512 bytes is
  answered like over Matter: the two adapters are one core over two carriers.
\<close>

lemma received_quiet [simp]: "received (\<lambda>_. []) k b = b"
proof -
  have "concat (map (\<lambda>_. [] :: byte list list) xs) = []" for xs :: "nat list" by (induction xs) simp_all
  then show ?thesis by (simp only: received_def fold_simps(1) id_apply)
qed

lemma rx_view_quiet: "rx_view (\<lambda>_. []) b k = take (sRxLen b) (sRxBuf b)"
  by (simp add: rx_view_def)

lemma rx_view_after_rx:
  assumes "ble_wf b" "data \<noteq> []" "length data \<le> 512"
  shows "rx_view (\<lambda>_. []) (snd (RxCallback data b)) k = data"
  using assms by (simp add: rx_view_quiet RxCallback_def kMaxResponse_def ble_wf_def)

lemma ble_exchange:
  assumes "ble_wf b" "data \<noteq> []" "length data \<le> 512"
    and p: "ProcessRequest P cfg data 512 d = ((out, r), d')"
  shows "ble_run P cfg [Ev_Rx data, Ev_Process (\<lambda>_. [])] (b, d) =
    ([Submit sWork] @ (if out = [] then [] else [BtNusSend out]), snd (RxCallback data b), d')"
proof -
  define b1 where "b1 = snd (RxCallback data b)"
  have rx: "RxCallback data b = ([Submit sWork], b1)"
    using assms(2,3) by (simp add: b1_def RxCallback_def kMaxResponse_def)
  have "rx_view (\<lambda>_. []) b1 = (\<lambda>_. data)"
    unfolding b1_def using rx_view_after_rx [OF assms(1-3)] by (rule ext)
  then have "ProcessWork P cfg (\<lambda>_. []) (b1, d) =
      ((if out = [] then [] else [BtNusSend out]), b1, d')"
    using p by (simp add: ProcessWork_def ProcessRequest_def kMaxResponse_def)
  then show ?thesis unfolding b1_def [symmetric] by (simp add: rx)
qed

text \<open>A length outside 1..512 is dropped without a trace.\<close>

lemma bad_length_ignored:
  "data = [] \<or> 512 < length data \<Longrightarrow> RxCallback data b = ([], b)"
  by (auto simp: RxCallback_def kMaxResponse_def)

text \<open>Of two requests received before the work item runs only the second is answered.\<close>

lemma earlier_request_lost:
  assumes "ble_wf b" "data \<noteq> []" "length data \<le> 512" "data' \<noteq> []" "length data' \<le> 512"
  shows "rx_view (\<lambda>_. []) (snd (RxCallback data' (snd (RxCallback data b)))) k = data'"
  by (rule rx_view_after_rx [OF RxCallback_wf [OF assms(1)] assms(4,5)])

section \<open>Requests that do\<close>

text \<open>A write of the same length that lands between the verification and the signature.\<close>

definition late_write :: "byte list \<Rightarrow> nat \<Rightarrow> byte list list" where
  "late_write data k = (if k = 3 then [data] else [])"

lemma late_write_concat: "concat (map (late_write data) [1..<Suc k]) = (if k < 3 then [] else [data])"
proof (induction k)
  case (Suc k)
  then show ?case by (auto simp: late_write_def)
qed simp

lemma rx_view_late_write:
  assumes "ble_wf b" "sRxLen b = length data" "take (sRxLen b) (sRxBuf b) = data"
    and "data' \<noteq> []" "length data' = length data"
  shows "rx_view (late_write data') b k = (if k < 3 then data else data')"
  using assms late_write_concat [of data' k] take_overlay [of data' "sRxBuf b"]
  by (auto simp: rx_view_def received_def RxCallback_def kMaxResponse_def ble_wf_def)

text \<open>
  Then the request that was verified is not the one that is answered: counter and signature
  check belong to the first, the certified and returned payload to the second.
\<close>

lemma late_write_answer:
  assumes b: "ble_wf b" "sRxLen b = length data" "take (sRxLen b) (sRxBuf b) = data"
    and data': "data' \<noteq> []" "length data' = length data"
    and W: "ProcessWork P cfg (late_write data') (b, d) = ([BtNusSend bs], b', d')"
    and c: "response_counter bs = Some c"
  obtains n m sig pre e where
    "signed_parse data = Some (c, n, m)"
    "bs = [kTypeSignedResponse] @ PutU32 c @ put_u16 n @ payload_at data' n
            @ put_u16 (length sig) @ sig"
    "BuildPreimage kDirResponse c (gDevicePub d') (payload_at data' n) 700 = (CHIP_NO_ERROR, pre)"
    "Sign P (gSigner d') pre kSignatureLen e = (0, sig, env d')"
proof -
  from W obtain out r where
    p: "ProcessRequest_view P cfg (rx_view (late_write data') b) 512 d = ((out, r), d')" "out = bs"
    by (auto elim!: ProcessWork_result split: if_splits)
  show thesis
    by (rule signed_view_contents [OF p(1) [unfolded p(2)] c])
       (use that rx_view_late_write [OF b data'] in simp)
qed

section \<open>The retry budget\<close>

fun is_update :: "ble_call \<Rightarrow> bool" where
  "is_update (BtConnLeParamUpdate c p) = True"
| "is_update _ = False"

fun is_connect :: "ble_event \<Rightarrow> bool" where
  "is_connect (Ev_Connected c err) = (err = 0)"
| "is_connect _ = False"

definition updates :: "ble_call list \<Rightarrow> nat" where
  "updates cs = length (filter is_update cs)"

definition connects :: "ble_event list \<Rightarrow> nat" where
  "connects evs = length (filter is_connect evs)"

lemma updates_append [simp]: "updates (cs @ cs') = updates cs + updates cs'"
  by (simp add: updates_def)

text \<open>What the connection may still cost.\<close>

definition budget :: "ble \<Rightarrow> nat" where
  "budget b = of_bool (sConn b \<noteq> None) * (3 - unat (sParamRetries b))"

lemma ble_step_updates:
  assumes "ble_step P cfg ev (b, d) = (cs, b', d')" "ble_wf b"
  shows "updates cs + budget b' \<le> 4 * connects [ev] + budget b"
proof (cases ev)
  case (Ev_Process rx)
  then show ?thesis using assms(1) by (auto elim!: ProcessWork_result simp: updates_def budget_def)
next
  case Ev_ParamWork
  show ?thesis
  proof (cases "sConn b = None \<or> sParamRetries b \<ge> 3")
    case True
    then show ?thesis using Ev_ParamWork assms(1)
      by (auto simp: ParamWorkHandler_def updates_def split: option.splits)
  next
    case False
    then have "sParamRetries b < 3" by (simp add: not_le)
    then have "unat (sParamRetries b) < 3" "unat (sParamRetries b + 1) = unat (sParamRetries b) + 1"
      using retry_count(1) by (simp_all add: word_less_nat_alt)
    with False show ?thesis using Ev_ParamWork assms(1)
      by (auto simp: ParamWorkHandler_def updates_def budget_def split: option.splits)
  qed
qed (use assms(1) in \<open>auto simp: RxCallback_def OnConnected_def OnParamUpdated_def
    OnDisconnected_def ReadvertiseHandler_def InitHandler_def DoInit_def updates_def connects_def budget_def Let_def
    split: if_splits\<close>)

text \<open>
  However the events interleave, one connection costs at most four parameter requests: the
  one made when it comes up and three that re-assert it.
\<close>

lemma ble_run_updates:
  "ble_run P cfg evs (b, d) = (cs, b', d') \<Longrightarrow> ble_wf b \<Longrightarrow>
   updates cs + budget b' \<le> 4 * connects evs + budget b \<and> ble_wf b'"
proof (induction evs arbitrary: b d cs)
  case (Cons ev evs)
  obtain cs1 b1 d1 where st: "ble_step P cfg ev (b, d) = (cs1, b1, d1)" by (metis prod_cases3)
  obtain cs2 where tl: "ble_run P cfg evs (b1, d1) = (cs2, b', d')" "cs = cs1 @ cs2"
    using Cons.prems(1) st by (auto split: prod.splits)
  have "connects (ev # evs) = connects [ev] + connects evs" by (simp add: connects_def)
  with ble_step_updates [OF st Cons.prems(2)]
    Cons.IH [OF tl(1) ble_step_wf [OF st Cons.prems(2)]] tl(2)
  show ?case by simp
qed (simp add: updates_def connects_def)

section \<open>The stack lock\<close>

text \<open>Replays the calls against the lock; \<open>None\<close> is a call to the arbiter without it.\<close>

fun lock_run :: "bool \<Rightarrow> ble_call list \<Rightarrow> bool option" where
  "lock_run held [] = Some held"
| "lock_run held (LockChipStack # cs) = (if held then None else lock_run True cs)"
| "lock_run held (UnlockChipStack # cs) = (if held then lock_run False cs else None)"
| "lock_run held (CancelRequest r # cs) = (if held then lock_run held cs else None)"
| "lock_run held (InsertRequest r # cs) = (if held then lock_run held cs else None)"
| "lock_run held (c # cs) = lock_run held cs"

lemma lock_run_append: "lock_run h (cs @ cs') = Option.bind (lock_run h cs) (\<lambda>h'. lock_run h' cs')"
  by (induction h cs rule: lock_run.induct) simp_all

lemma ble_step_locks: "ble_step P cfg ev (b, d) = (cs, b', d') \<Longrightarrow> lock_run False cs = Some False"
  by (cases ev)
     (auto elim!: ProcessWork_result simp: RxCallback_def OnConnected_def OnParamUpdated_def
       OnDisconnected_def ReadvertiseHandler_def ParamWorkHandler_def InitHandler_def DoInit_def Let_def
       split: if_splits option.splits)

lemma ble_run_locks: "ble_run P cfg evs s = (cs, s') \<Longrightarrow> lock_run False cs = Some False"
proof (induction evs arbitrary: s cs)
  case (Cons ev evs)
  obtain b d cs1 b1 d1 where st: "s = (b, d)" "ble_step P cfg ev (b, d) = (cs1, b1, d1)"
    by (metis prod.collapse)
  then obtain cs2 where "ble_run P cfg evs (b1, d1) = (cs2, s')" "cs = cs1 @ cs2"
    using Cons.prems by (auto split: prod.splits)
  with Cons.IH ble_step_locks [OF st(2)] show ?case by (simp add: lock_run_append)
qed simp

section \<open>Either transport is the device\<close>

text \<open>
  What a transport does to the core is a run of \<open>Device\<close> without power cycles, and the
  responses it sends are the run's, in order.
\<close>

fun sent_by :: "ble_call \<Rightarrow> byte list option" where
  "sent_by (BtNusSend bs) = Some bs"
| "sent_by _ = None"

fun reply_of :: "label \<Rightarrow> byte list option" where
  "reply_of (L_Request view cap reply) = (if fst reply = [] then None else Some (fst reply))"
| "reply_of _ = None"

fun is_request :: "label \<Rightarrow> bool" where
  "is_request (L_Request view cap reply) = True"
| "is_request _ = False"

definition sent :: "ble_call list \<Rightarrow> byte list list" where
  "sent cs = List.map_filter sent_by cs"

definition replies :: "label list \<Rightarrow> byte list list" where
  "replies ls = List.map_filter reply_of ls"

lemma sent_append [simp]: "sent (cs @ cs') = sent cs @ sent cs'"
  by (induction cs) (auto simp: sent_def map_filter_simps split: option.splits)

lemma replies_append: "replies (ls @ ls') = replies ls @ replies ls'"
  by (induction ls) (auto simp: replies_def map_filter_simps split: option.splits)

lemma run_append: "run step s ls s1 \<Longrightarrow> run step s1 ls' s2 \<Longrightarrow> run step s (ls @ ls') s2"
  by (induction rule: run.induct) (auto intro: run.intros)

lemma ble_step_refines:
  assumes "ble_step P cfg ev (b, d) = (cs, b', d')"
  shows "\<exists>ls. run (awake_step P cfg stored drift) d ls d' \<and> sent cs = replies ls \<and> list_all is_request ls"
proof (cases "\<exists>rx. ev = Ev_Process rx")
  case True
  then obtain rx where "ProcessWork P cfg rx (b, d) = (cs, b', d')" using assms by auto
  then show ?thesis
  proof (rule ProcessWork_result)
    fix out r
    assume p: "ProcessRequest_view P cfg (rx_view rx b) 512 d = ((out, r), d')"
      and cs: "cs = (if out = [] then [] else [BtNusSend out])"
    let ?l = "L_Request (rx_view rx b) 512 (out, r)"
    have "awake_step P cfg stored drift d ?l d'"
      using p by (simp add: awake_step_def dev_step.request)
    then have "run (awake_step P cfg stored drift) d [?l] d'" by (auto intro: run.intros)
    moreover have "sent cs = replies [?l]"
      by (simp add: cs sent_def replies_def map_filter_simps)
    moreover have "list_all is_request [?l]" by simp
    ultimately show ?thesis by blast
  qed
next
  case False
  then have "d' = d \<and> sent cs = []"
    using assms
    by (cases ev) (auto simp: RxCallback_def OnConnected_def OnParamUpdated_def OnDisconnected_def
        ReadvertiseHandler_def ParamWorkHandler_def InitHandler_def DoInit_def Let_def sent_def map_filter_simps
        split: if_splits option.splits)
  then have "run (awake_step P cfg stored drift) d [] d' \<and> sent cs = replies [] \<and> list_all is_request []"
    by (simp add: replies_def map_filter_simps)
  then show ?thesis by blast
qed

lemma ble_run_refines:
  "ble_run P cfg evs (b, d) = (cs, b', d') \<Longrightarrow>
   \<exists>ls. run (awake_step P cfg stored drift) d ls d' \<and> sent cs = replies ls"
proof (induction evs arbitrary: b d cs)
  case Nil
  then have "run (awake_step P cfg stored drift) d [] d' \<and> sent cs = replies []"
    by (simp add: replies_def sent_def map_filter_simps)
  then show ?case by blast
next
  case (Cons ev evs)
  obtain cs1 b1 d1 where st: "ble_step P cfg ev (b, d) = (cs1, b1, d1)" by (metis prod_cases3)
  then obtain cs2 where tl: "ble_run P cfg evs (b1, d1) = (cs2, b', d')" "cs = cs1 @ cs2"
    using Cons.prems by (auto split: prod.splits)
  obtain ls1 where 1: "run (awake_step P cfg stored drift) d ls1 d1" "sent cs1 = replies ls1"
    using ble_step_refines [OF st] by blast
  obtain ls2 where 2: "run (awake_step P cfg stored drift) d1 ls2 d'" "sent cs2 = replies ls2"
    using Cons.IH [OF tl(1)] by blast
  have "run (awake_step P cfg stored drift) d (ls1 @ ls2) d'" by (rule run_append [OF 1(1) 2(1)])
  moreover have "sent cs = replies (ls1 @ ls2)" by (simp add: tl(2) 1(2) 2(2) replies_append)
  ultimately show ?case by blast
qed

lemma matter_refines:
  assumes "TunnelRequestCallback P cfg True payload d = ((handled, calls), d')"
  shows "\<exists>reply. dev_step P cfg stored drift d (L_Request (\<lambda>_. payload) 512 reply) d' \<and>
    (calls = [AddResponse (fst reply)] \<and> fst reply \<noteq> [] \<or>
     calls = [AddStatus (im_status_of (snd reply))] \<and> fst reply = [])"
  using assms
proof (cases rule: TunnelRequestCallback_cases)
  case (response out)
  then have "dev_step P cfg stored drift d (L_Request (\<lambda>_. payload) 512 (out, Reject_None)) d'"
    by (simp add: ProcessRequest_def dev_step.request)
  with response show ?thesis by fastforce
next
  case (status r)
  then have "dev_step P cfg stored drift d (L_Request (\<lambda>_. payload) 512 ([], r)) d'"
    by (simp add: ProcessRequest_def dev_step.request)
  with status show ?thesis by fastforce
qed

lemma served_replies:
  "served_counters ls = List.map_filter response_counter (replies ls)"
proof (induction ls)
  case (Cons l ls)
  have "served l = (case reply_of l of None \<Rightarrow> None | Some bs \<Rightarrow> response_counter bs)"
    by (cases l) (auto simp: response_counter_def)
  with Cons show ?case
    by (auto simp: served_counters_def replies_def map_filter_simps split: option.splits)
qed (simp add: served_counters_def replies_def map_filter_simps)

end
