(* ===== verification/Bench.thy ===== *)
theory Bench
  imports Crypto
begin

text \<open>
  \<open>tunnel_bench.cpp\<close>: the on-device benchmark. Cycle counts are 32-bit words whose
  difference wraps with the counter, the total is 64 bits wide. What the benchmark logs is
  its result. The lemmas say that the reported minimum, average and maximum are those of the
  twenty samples, that no conversion loses bits, and what the tamper check tests.
\<close>

section \<open>Statistics\<close>

type_synonym u64 = "64 word"

definition kCpuHz :: u32 where "kCpuHz = 64000000"
definition kIterations :: nat where "kIterations = 20"
definition kMsgLen :: nat where "kMsgLen = 64"

record Stats =
  st_min :: u32
  st_max :: u32
  st_total :: u64
  st_n :: nat

definition zero_stats :: Stats where
  "zero_stats = \<lparr>st_min = 0, st_max = 0, st_total = 0, st_n = 0\<rparr>"

definition Stats_avg :: "Stats \<Rightarrow> u32" where
  "Stats_avg s = (if st_n s \<noteq> 0 then ucast (st_total s div word_of_nat (st_n s)) else 0)"

definition Stats_us :: "u32 \<Rightarrow> u32" where
  "Stats_us cyc = ucast ((ucast cyc :: u64) * 1000000 div ucast kCpuHz)"

text \<open>The line \<open>Report\<close> prints, without its label.\<close>

record report_line =
  rl_n :: nat
  rl_min :: u32
  rl_min_us :: u32
  rl_avg :: u32
  rl_avg_us :: u32
  rl_max :: u32
  rl_max_us :: u32

definition Report :: "Stats \<Rightarrow> report_line" where
  "Report s =
     \<lparr>rl_n = st_n s, rl_min = st_min s, rl_min_us = Stats_us (st_min s),
      rl_avg = Stats_avg s, rl_avg_us = Stats_us (Stats_avg s),
      rl_max = st_max s, rl_max_us = Stats_us (st_max s)\<rparr>"

definition Accumulate :: "Stats \<Rightarrow> u32 \<Rightarrow> Stats" where
  "Accumulate s c =
     (let s = (if st_n s = 0 \<or> c < st_min s then s\<lparr>st_min := c\<rparr> else s);
          s = (if c > st_max s then s\<lparr>st_max := c\<rparr> else s)
      in s\<lparr>st_total := st_total s + ucast c, st_n := st_n s + 1\<rparr>)"

section \<open>The benchmark\<close>

definition DwtInit :: "'e platform \<Rightarrow> 'e \<Rightarrow> bool \<times> 'e" where
  "DwtInit P e =
     (let e = dwt_enable P e; (a, e) = dwt_cyccnt P e; (b, e) = dwt_cyccnt P e in (b \<noteq> a, e))"

record bench_report =
  br_pub_len :: nat
  br_keygen :: u32
  br_sign :: Stats
  br_verify :: Stats
  br_sig_len :: nat
  br_tamper_accepted :: bool

datatype bench_outcome =
    Bench_Unavailable int
  | Bench_ExportFailed int
  | Bench_SignFailed int
  | Bench_VerifyFailed int
  | Bench_Done bench_report

text \<open>
  The loop: \<open>n\<close> iterations are left and \<open>i\<close> are done. A result is the failure that ended it
  or the last message and signature with the two statistics.
\<close>

fun bench_loop ::
  "'e platform \<Rightarrow> Signer \<Rightarrow> nat \<Rightarrow> nat \<Rightarrow> byte list \<Rightarrow> byte list \<Rightarrow> Stats \<Rightarrow> Stats \<Rightarrow> 'e \<Rightarrow>
   (bench_outcome + byte list \<times> byte list \<times> Stats \<times> Stats) \<times> 'e" where
  "bench_loop P signer 0 i msg sig sign verify e = (Inr (msg, sig, sign, verify), e)"
| "bench_loop P signer (Suc n) i msg sig sign verify e =
     (let msg = msg[0 := word_of_nat i];
          (t0, e) = dwt_cyccnt P e;
          (st, sig, e) = Sign P signer msg kSignatureLen e;
          (t1, e) = dwt_cyccnt P e
      in if st \<noteq> PSA_SUCCESS then (Inl (Bench_SignFailed st), e)
         else
           let sign = Accumulate sign (t1 - t0);
               (t0, e) = dwt_cyccnt P e;
               (st, e) = Verify P signer msg sig e;
               (t1, e) = dwt_cyccnt P e
           in if st \<noteq> PSA_SUCCESS then (Inl (Bench_VerifyFailed st), e)
              else bench_loop P signer n (Suc i) msg sig sign (Accumulate verify (t1 - t0)) e)"

definition BenchmarkOne :: "'e platform \<Rightarrow> Alg \<Rightarrow> 'e \<Rightarrow> bench_outcome \<times> 'e" where
  "BenchmarkOne P alg e =
     (let msg = map word_of_nat [0..<kMsgLen];
          (t0, e) = dwt_cyccnt P e;
          (st, signer, e) = Signer_Init P alg new_signer e;
          (t1, e) = dwt_cyccnt P e;
          keygen = t1 - t0
      in if st \<noteq> PSA_SUCCESS then (Bench_Unavailable st, e) else
      let (st, pub, e) = ExportPublicKey P signer kPublicKeyLenMax e
      in if st \<noteq> PSA_SUCCESS then (Bench_ExportFailed st, e) else
      let (res, e) = bench_loop P signer kIterations 0 msg (replicate kSignatureLen 0)
            zero_stats zero_stats e
      in case res of Inl failure \<Rightarrow> (failure, e)
         | Inr (msg, sig, sign, verify) \<Rightarrow>
             let msg = msg[0 := msg ! 0 XOR 0xFF];
                 (st, e) = Verify P signer msg sig e
             in (Bench_Done \<lparr>br_pub_len = length pub, br_keygen = keygen, br_sign = sign,
                   br_verify = verify, br_sig_len = length sig,
                   br_tamper_accepted = (st = PSA_SUCCESS)\<rparr>, e))"

definition RunCryptoBenchmark :: "'e platform \<Rightarrow> 'e \<Rightarrow> bench_outcome list \<times> 'e" where
  "RunCryptoBenchmark P e =
     (let (ok, e) = DwtInit P e
      in if \<not> ok then ([], e)
         else let (r1, e) = BenchmarkOne P EcdsaP256 e;
                  (r2, e) = BenchmarkOne P Ed25519 e
              in ([r1, r2], e))"

section \<open>The statistics are those of the samples\<close>

definition stats_of :: "u32 list \<Rightarrow> Stats" where
  "stats_of cs = foldl Accumulate zero_stats cs"

text \<open>\<open>stats_ok s cs\<close>: \<open>s\<close> summarises the samples \<open>cs\<close>, as natural numbers.\<close>

definition stats_ok :: "Stats \<Rightarrow> u32 list \<Rightarrow> bool" where
  "stats_ok s cs \<longleftrightarrow>
     st_n s = length cs \<and> unat (st_total s) = sum_list (map unat cs) \<and>
     (cs \<noteq> [] \<longrightarrow> st_min s = Min (set cs)) \<and> st_max s = Max (insert 0 (set cs))"

lemma stats_ok_zero [simp]: "stats_ok zero_stats []"
  by (simp add: stats_ok_def zero_stats_def)

lemma unat_u32_lt: "unat (c :: u32) < 2 ^ 32"
  using unsigned_less [of c, where 'a = nat] by simp

lemma unat_ucast_64 [simp]: "unat (ucast (c :: u32) :: u64) = unat c"
  using unat_u32_lt [of c] by (simp add: unsigned_ucast_eq take_bit_nat_eq_self)

lemma unat_ucast_32: "unat (w :: u64) < 2 ^ 32 \<Longrightarrow> unat (ucast w :: u32) = unat w"
  by (simp add: unsigned_ucast_eq take_bit_nat_eq_self)

lemma sum_list_unat_le: "sum_list (map unat (cs :: u32 list)) \<le> length cs * (2 ^ 32 - 1)"
proof (induction cs)
  case (Cons c cs)
  have "unat c \<le> 2 ^ 32 - 1" using unat_u32_lt [of c] by simp
  with Cons show ?case by simp
qed simp

lemma Accumulate_fields:
  "st_min (Accumulate s c) = (if st_n s = 0 \<or> c < st_min s then c else st_min s)"
  "st_max (Accumulate s c) = (if c > st_max s then c else st_max s)"
  "st_total (Accumulate s c) = st_total s + ucast c"
  "st_n (Accumulate s c) = st_n s + 1"
  by (simp_all add: Accumulate_def Let_def)

lemma stats_ok_Accumulate:
  assumes s: "stats_ok s cs" and len: "length cs < 2 ^ 31"
  shows "stats_ok (Accumulate s c) (cs @ [c])"
proof -
  have "length cs * (2 ^ 32 - 1) \<le> 2 ^ 31 * (2 ^ 32 - 1)"
    using len by (intro mult_right_mono) simp_all
  then have "sum_list (map unat cs) + unat c < 2 ^ 64"
    using sum_list_unat_le [of cs] unat_u32_lt [of c] by simp
  moreover have "unat (st_total s) = sum_list (map unat cs)" using s by (simp add: stats_ok_def)
  ultimately have total: "unat (st_total s + ucast c) = sum_list (map unat cs) + unat c"
    by (simp add: unat_word_ariths)
  have mn: "st_min (Accumulate s c) = Min (set (cs @ [c]))"
  proof (cases "cs = []")
    case True
    with s show ?thesis by (simp add: Accumulate_fields stats_ok_def)
  next
    case False
    define m where "m = Min (set cs)"
    have "st_min s = m" "st_n s \<noteq> 0" using s False by (simp_all add: stats_ok_def m_def)
    then have "st_min (Accumulate s c) = min c m"
      by (auto simp: Accumulate_fields min_def not_less)
    also have "\<dots> = Min (set (cs @ [c]))" using False by (simp add: m_def)
    finally show ?thesis .
  qed
  have "Max (insert 0 (set (cs @ [c]))) = max c (Max (insert 0 (set cs)))"
    by (simp add: insert_commute [of 0 c] del: Max_insert) (rule Max_insert; simp)
  moreover define m where "m = Max (insert 0 (set cs))"
  moreover have "st_max (Accumulate s c) = max c m"
    using s by (auto simp: Accumulate_fields stats_ok_def m_def [symmetric] max_def not_less)
  ultimately have mx: "st_max (Accumulate s c) = Max (insert 0 (set (cs @ [c])))" by simp
  have "st_n (Accumulate s c) = length (cs @ [c])" "st_total (Accumulate s c) = st_total s + ucast c"
    using s by (simp_all add: Accumulate_fields stats_ok_def)
  with total mn mx show ?thesis by (simp add: stats_ok_def)
qed

text \<open>The average is the truncated mean and lies between the extremes.\<close>

lemma sum_list_bounds:
  fixes xs :: "nat list"
  assumes "\<And>x. x \<in> set xs \<Longrightarrow> l \<le> x \<and> x \<le> u"
  shows "length xs * l \<le> sum_list xs \<and> sum_list xs \<le> length xs * u"
  using assms by (induction xs) (auto simp: add_mono)

lemma stats_ok_avg:
  assumes s: "stats_ok s cs" and cs: "cs \<noteq> []" "length cs < 2 ^ 31"
  shows "unat (Stats_avg s) = sum_list (map unat cs) div length cs"
    and "st_min s \<le> Stats_avg s" and "Stats_avg s \<le> st_max s"
proof -
  let ?S = "sum_list (map unat cs)"
  have "finite (set cs)" by simp
  have mn: "st_min s \<le> c" and mx: "c \<le> st_max s" if "c \<in> set cs" for c
    using s that cs(1) by (simp_all add: stats_ok_def)
  have "unat (st_min s) \<le> x \<and> x \<le> unat (st_max s)" if "x \<in> set (map unat cs)" for x
    using that mn mx by (auto simp: word_le_nat_alt)
  then have "length (map unat cs) * unat (st_min s) \<le> ?S \<and> ?S \<le> length (map unat cs) * unat (st_max s)"
    by (rule sum_list_bounds)
  then have b: "length cs * unat (st_min s) \<le> ?S" "?S \<le> length cs * unat (st_max s)" by simp_all
  have pos: "0 < length cs" using cs(1) by simp
  have lo: "unat (st_min s) \<le> ?S div length cs"
    using b(1) pos by (simp add: less_eq_div_iff_mult_less_eq mult.commute)
  have hi: "?S div length cs \<le> unat (st_max s)"
    using div_le_mono [OF b(2), of "length cs"] pos by simp
  have q: "?S div length cs < 2 ^ 32"
    using hi unat_u32_lt [of "st_max s"] by simp
  have "unat (st_total s div word_of_nat (length cs)) = ?S div length cs"
    using s cs(2) by (simp add: stats_ok_def unat_div unat_of_nat)
  with q show avg: "unat (Stats_avg s) = ?S div length cs"
    using s pos by (simp add: Stats_avg_def stats_ok_def unat_ucast_32)
  from lo hi show "st_min s \<le> Stats_avg s" "Stats_avg s \<le> st_max s"
    by (simp_all add: word_le_nat_alt avg)
qed

text \<open>64 cycles are a microsecond; the 64-bit product does not overflow.\<close>

lemma Stats_us_eq: "unat (Stats_us c) = unat c div 64"
proof -
  have c: "unat c < 2 ^ 32" using unat_u32_lt .
  have "unat ((ucast c :: u64) * 1000000) = unat c * 1000000"
    using c by (simp add: unat_word_ariths)
  then have "unat ((ucast c :: u64) * 1000000 div ucast kCpuHz) = unat c * 1000000 div 64000000"
    by (simp add: unat_div kCpuHz_def)
  also have "\<dots> = unat c div 64" using div_mult_mult2 [of "1000000 :: nat" "unat c" 64] by simp
  finally show ?thesis using c by (simp add: Stats_us_def unat_ucast_32)
qed

text \<open>The line printed for statistics of samples.\<close>

lemma Report_stats_ok:
  assumes s: "stats_ok s cs" and cs: "cs \<noteq> []" "length cs < 2 ^ 31"
  defines "r \<equiv> Report s" and "mean \<equiv> sum_list (map unat cs) div length cs"
  shows "rl_n r = length cs" and "rl_min r = Min (set cs)" and "rl_max r = Max (set cs)"
    and "unat (rl_avg r) = mean"
    and "unat (rl_min_us r) = unat (Min (set cs)) div 64"
    and "unat (rl_avg_us r) = mean div 64"
    and "unat (rl_max_us r) = unat (Max (set cs)) div 64"
    and "rl_min r \<le> rl_avg r" and "rl_avg r \<le> rl_max r"
  using s cs(1) stats_ok_avg [OF s cs]
  by (simp_all add: r_def mean_def Report_def Stats_us_eq stats_ok_def)

text \<open>\<open>line_true l cs\<close>: the line says the truth about the samples \<open>cs\<close>.\<close>

definition line_true :: "report_line \<Rightarrow> u32 list \<Rightarrow> bool" where
  "line_true l cs \<longleftrightarrow>
     (let mean = sum_list (map unat cs) div length cs
      in rl_n l = length cs \<and>
         rl_min l = Min (set cs) \<and> unat (rl_min_us l) = unat (Min (set cs)) div 64 \<and>
         unat (rl_avg l) = mean \<and> unat (rl_avg_us l) = mean div 64 \<and>
         rl_max l = Max (set cs) \<and> unat (rl_max_us l) = unat (Max (set cs)) div 64 \<and>
         rl_min l \<le> rl_avg l \<and> rl_avg l \<le> rl_max l)"

lemma line_true_Report:
  "stats_ok s cs \<Longrightarrow> cs \<noteq> [] \<Longrightarrow> length cs < 2 ^ 31 \<Longrightarrow> line_true (Report s) cs"
  using Report_stats_ok [of s cs] by (simp add: line_true_def Let_def)

section \<open>The loop\<close>

text \<open>
  What one iteration is to measure: the counter is read right before and right after the
  signing call, and again around the verification of that signature; both calls succeed, and
  the samples are the two differences.
\<close>

definition measured ::
  "'e platform \<Rightarrow> Signer \<Rightarrow> byte list \<Rightarrow> 'e \<Rightarrow> u32 \<Rightarrow> u32 \<Rightarrow> 'e \<Rightarrow> bool" where
  "measured P signer msg e c v e' \<longleftrightarrow>
     (\<exists>t0 e1 sig e2 t1 e3 t2 e4 e5 t3.
        dwt_cyccnt P e = (t0, e1) \<and> Sign P signer msg kSignatureLen e1 = (0, sig, e2) \<and>
        dwt_cyccnt P e2 = (t1, e3) \<and> c = t1 - t0 \<and>
        dwt_cyccnt P e3 = (t2, e4) \<and> Verify P signer msg sig e4 = (0, e5) \<and>
        dwt_cyccnt P e5 = (t3, e') \<and> v = t3 - t2)"

text \<open>\<open>trace P signer i msg e cs vs e'\<close>: one iteration after the other, message \<open>i\<close> first.\<close>

fun trace ::
  "'e platform \<Rightarrow> Signer \<Rightarrow> nat \<Rightarrow> byte list \<Rightarrow> 'e \<Rightarrow> u32 list \<Rightarrow> u32 list \<Rightarrow> 'e \<Rightarrow> bool" where
  "trace P signer i msg e [] [] e' \<longleftrightarrow> e' = e"
| "trace P signer i msg e (c # cs) (v # vs) e' \<longleftrightarrow>
     (\<exists>e1. measured P signer (msg[0 := word_of_nat i]) e c v e1 \<and> trace P signer (Suc i) msg e1 cs vs e')"
| "trace P signer i msg e _ _ e' \<longleftrightarrow> False"

lemma trace_overwrite [simp]: "trace P signer i (msg[0 := b]) e cs vs e' = trace P signer i msg e cs vs e'"
  by (induction P signer i msg e cs vs e' rule: trace.induct) simp_all

text \<open>Every iteration adds one sample to either statistic, and these are what it measured.\<close>

lemma bench_loop_step:
  assumes "bench_loop P signer (Suc n) i msg sig sign verify e = (Inr x, e')"
  obtains c v sig1 e1 where "measured P signer (msg[0 := word_of_nat i]) e c v e1"
    "bench_loop P signer n (Suc i) (msg[0 := word_of_nat i]) sig1 (Accumulate sign c) (Accumulate verify v) e1 =
      (Inr x, e')"
proof -
  let ?m = "msg[0 := word_of_nat i]"
  obtain t0 e1 where 1: "dwt_cyccnt P e = (t0, e1)" by fastforce
  obtain st sg e2 where 2: "Sign P signer ?m kSignatureLen e1 = (st, sg, e2)" by (metis prod_cases3)
  obtain t1 e3 where 3: "dwt_cyccnt P e2 = (t1, e3)" by fastforce
  obtain t2 e4 where 4: "dwt_cyccnt P e3 = (t2, e4)" by fastforce
  obtain st' e5 where 5: "Verify P signer ?m sg e4 = (st', e5)" by fastforce
  obtain t3 e6 where 6: "dwt_cyccnt P e5 = (t3, e6)" by fastforce
  have ok: "st = 0" "st' = 0" and rest: "bench_loop P signer n (Suc i) ?m sg (Accumulate sign (t1 - t0))
      (Accumulate verify (t3 - t2)) e6 = (Inr x, e')"
    using assms by (simp_all add: Let_def 1 2 3 4 5 6 split: if_splits)
  have "measured P signer ?m e (t1 - t0) (t3 - t2) e6"
    unfolding measured_def using 1 2 3 4 5 6 ok by blast
  from that [OF this rest] show thesis .
qed

lemma bench_loop_stats:
  "bench_loop P signer n i msg sig sign verify e = (Inr (msg', sig', sign', verify'), e') \<Longrightarrow>
   stats_ok sign cs \<Longrightarrow> stats_ok verify vs \<Longrightarrow> length cs + n < 2 ^ 31 \<Longrightarrow> length vs + n < 2 ^ 31 \<Longrightarrow>
   \<exists>cs' vs'. length cs' = n \<and> length vs' = n \<and> trace P signer i msg e cs' vs' e' \<and>
     stats_ok sign' (cs @ cs') \<and> stats_ok verify' (vs @ vs')"
proof (induction n arbitrary: i msg sig sign verify e cs vs)
  case (Suc n)
  from Suc.prems(1) obtain c v sig1 e1 where m: "measured P signer (msg[0 := word_of_nat i]) e c v e1"
    and rest: "bench_loop P signer n (Suc i) (msg[0 := word_of_nat i]) sig1 (Accumulate sign c)
      (Accumulate verify v) e1 = (Inr (msg', sig', sign', verify'), e')"
    by (rule bench_loop_step)
  from Suc.IH [OF rest stats_ok_Accumulate [OF Suc.prems(2)] stats_ok_Accumulate [OF Suc.prems(3)]]
  obtain cs' vs' where "length cs' = n" "length vs' = n" "trace P signer (Suc i) msg e1 cs' vs' e'"
    "stats_ok sign' ((cs @ [c]) @ cs')" "stats_ok verify' ((vs @ [v]) @ vs')"
    using Suc.prems(4,5) by auto
  with m show ?case
    by (intro exI [of _ "c # cs'"] exI [of _ "v # vs'"]) auto
qed auto

text \<open>The message after the loop, and the verification that ended it.\<close>

lemma bench_loop_last:
  "bench_loop P signer (Suc n) i msg sig sign verify e = (Inr (msg', sig', sign', verify'), e') \<Longrightarrow>
   msg' = msg[0 := word_of_nat (i + n)] \<and>
   (\<exists>e1 e2 e3. Sign P signer msg' kSignatureLen e1 = (0, sig', e2) \<and>
      fst (Verify P signer msg' sig' e3) = 0)"
proof (induction n arbitrary: i msg sig sign verify e)
  case 0
  then show ?case by (auto simp: Let_def split: prod.splits if_splits) (metis fst_conv)
next
  case (Suc n)
  from Suc.prems obtain sig1 sign1 verify1 e1 where
    "bench_loop P signer (Suc n) (Suc i) (msg[0 := word_of_nat i]) sig1 sign1 verify1 e1 =
      (Inr (msg', sig', sign', verify'), e')"
    by (simp only: bench_loop.simps(2) [of P signer "Suc n"])
       (auto simp del: bench_loop.simps simp: Let_def split: prod.splits if_splits)
  from Suc.IH [OF this] show ?case
    unfolding list_update_overwrite add_Suc_shift .
qed

lemma bench_loop_not_done:
  "bench_loop P signer n i msg sig sign verify e \<noteq> (Inl (Bench_Done r), e')"
  by (induction n arbitrary: i msg sig sign verify e) (simp_all add: Let_def split: prod.splits)

text \<open>A benchmark that completes went through its loop and the tamper check.\<close>

lemma BenchmarkOne_Done:
  assumes "BenchmarkOne P alg e = (Bench_Done r, e')"
  obtains t0 x1 signer x2 t1 x3 pub m sig v w e1 e2 st where
    "dwt_cyccnt P e = (t0, x1)" "Signer_Init P alg new_signer x1 = (0, signer, x2)"
    "dwt_cyccnt P x2 = (t1, x3)" "br_keygen r = t1 - t0"
    "ExportPublicKey P signer kPublicKeyLenMax x3 = (0, pub, e1)" "br_pub_len r = length pub"
    "bench_loop P signer kIterations 0 (map word_of_nat [0..<kMsgLen]) (replicate kSignatureLen 0)
       zero_stats zero_stats e1 = (Inr (m, sig, v, w), e2)"
    "Verify P signer (m[0 := m ! 0 XOR 0xFF]) sig e2 = (st, e')"
    "br_sign r = v" "br_verify r = w" "br_sig_len r = length sig"
    "br_tamper_accepted r \<longleftrightarrow> st = 0"
  using assms
  by (auto simp: bench_loop_not_done BenchmarkOne_def Let_def split: prod.splits if_splits sum.splits)

lemma kIterations_Suc: "kIterations = Suc 19"
  by (simp add: kIterations_def)

lemma iterations_not_236: "\<forall>i < kIterations. word_of_nat i \<noteq> (236 :: byte)"
proof (intro allI impI notI)
  fix i assume "i < kIterations" "word_of_nat i = (236 :: byte)"
  then have "i < 20" "unat (word_of_nat i :: byte) = 236" by (simp_all add: kIterations_def)
  then show False by (simp add: unat_of_nat)
qed

text \<open>
  The negative control tests what it means to: the message it tampers with is the last
  one signed, whose signature had just verified, the tampered one differs in its first byte
  from every message that was signed, and it reports exactly whether that one verified.
\<close>

lemma tamper_check_is_real:
  assumes "BenchmarkOne P alg e = (Bench_Done r, e')"
  shows "\<exists>signer msg sig e1 e2 e3 e4 st. msg = (map word_of_nat [0..<64])[0 := 19] \<and>
    Sign P signer msg kSignatureLen e1 = (0, sig, e2) \<and> length sig = br_sig_len r \<and>
    fst (Verify P signer msg sig e3) = 0 \<and>
    Verify P signer (msg[0 := 236]) sig e4 = (st, e') \<and> (br_tamper_accepted r \<longleftrightarrow> st = 0) \<and>
    (\<forall>i < kIterations. word_of_nat i \<noteq> (236 :: byte))"
proof -
  obtain signer m sig v w e1 e2 st where
    l: "bench_loop P signer kIterations 0 (map word_of_nat [0..<kMsgLen]) (replicate kSignatureLen 0)
      zero_stats zero_stats e1 = (Inr (m, sig, v, w), e2)"
    and st: "Verify P signer (m[0 := m ! 0 XOR 0xFF]) sig e2 = (st, e')"
      "br_sig_len r = length sig" "br_tamper_accepted r \<longleftrightarrow> st = 0"
    by (rule BenchmarkOne_Done [OF assms]) blast
  from bench_loop_last [OF l [unfolded kIterations_Suc]] obtain e3 e4 e5 where
    m: "m = (map word_of_nat [0..<64])[0 := 19]"
    and s: "Sign P signer m kSignatureLen e3 = (0, sig, e4)" "fst (Verify P signer m sig e5) = 0"
    by (auto simp: kMsgLen_def)
  have "m ! 0 = 19" by (simp add: m)
  then have "Verify P signer (m[0 := 236]) sig e2 = (st, e')" using st(1) by simp
  moreover have "\<forall>i < kIterations. word_of_nat i \<noteq> (236 :: byte)" by (rule iterations_not_236)
  ultimately show ?thesis using s st(2,3) m
    by (intro exI [of _ signer] exI [of _ m] exI [of _ sig] exI [of _ e3] exI [of _ e4]
        exI [of _ e5] exI [of _ e2] exI [of _ st]) simp
qed

end
