(* ===== verification/Startup.thy ===== *)
theory Startup
  imports Ble_Adapter Bench Identity
begin

text \<open>
  The plugin-init callback of \<open>tunnel_server.cpp\<close>: with the Bluetooth transport configured
  it schedules that transport's initialisation, with the benchmark configured it runs the
  benchmark and the identity report. What it leaves behind outside is the lemma's subject.
\<close>

record plugin_config =
  CONFIG_BT_NUS :: bool
  CONFIG_TUNNEL_CRYPTO_BENCHMARK :: bool

definition PluginServerInitCallback ::
  "'e platform \<Rightarrow> plugin_config \<Rightarrow> 'e \<Rightarrow>
   (ble_call list \<times> bench_outcome list \<times> bundle_report option) \<times> 'e" where
  "PluginServerInitCallback P cfg e =
     (let calls = (if CONFIG_BT_NUS cfg then BleTransportScheduleInit else [])
      in if CONFIG_TUNNEL_CRYPTO_BENCHMARK cfg
         then let (outcomes, e) = RunCryptoBenchmark P e;
                  (report, e) = ReportIdentityBundle P e
              in ((calls, outcomes, report), e)
         else ((calls, [], None), e))"

lemma bench_loop_steps:
  assumes S: "steps_by P R" and R: "reflp R" "transp R"
  shows "bench_loop P signer n i msg sig sign verify e = (res, e') \<Longrightarrow> R e e'"
proof (induction n arbitrary: i msg sig sign verify e)
  case 0
  then show ?case using R(1) by (simp add: reflp_def)
next
  case (Suc n)
  let ?m = "msg[0 := word_of_nat i]"
  obtain t0 e1 where 1: "dwt_cyccnt P e = (t0, e1)" by fastforce
  obtain st sg e2 where 2: "Sign P signer ?m kSignatureLen e1 = (st, sg, e2)" by (metis prod_cases3)
  obtain t1 e3 where 3: "dwt_cyccnt P e2 = (t1, e3)" by fastforce
  obtain t2 e4 where 4: "dwt_cyccnt P e3 = (t2, e4)" by fastforce
  obtain st' e5 where 5: "Verify P signer ?m sg e4 = (st', e5)" by fastforce
  obtain t3 e6 where 6: "dwt_cyccnt P e5 = (t3, e6)" by fastforce
  have "R e e1" using steps_byD(14) [OF S 1] .
  then have "R e e2" using Sign_steps [OF S R(1) 2] R(2) by (meson transpE)
  then have r3: "R e e3" using steps_byD(14) [OF S 3] R(2) by (meson transpE)
  then have "R e e4" using steps_byD(14) [OF S 4] R(2) by (meson transpE)
  then have "R e e5" using Verify_steps [OF S R(1) 5] R(2) by (meson transpE)
  then have r6: "R e e6" using steps_byD(14) [OF S 6] R(2) by (meson transpE)
  have eq: "bench_loop P signer (Suc n) i msg sig sign verify e =
    (if st \<noteq> 0 then (Inl (Bench_SignFailed st), e3)
     else if st' \<noteq> 0 then (Inl (Bench_VerifyFailed st'), e6)
     else bench_loop P signer n (Suc i) ?m sg (Accumulate sign (t1 - t0))
            (Accumulate verify (t3 - t2)) e6)"
    by (simp add: Let_def 1 2 3 4 5 6)
  show ?case
  proof (cases "st = 0 \<and> st' = 0")
    case True
    then have "R e6 e'" using Suc.prems unfolding eq by (auto intro: Suc.IH)
    with r6 R(2) show ?thesis by (meson transpE)
  next
    case False
    then show ?thesis using Suc.prems r3 r6 unfolding eq by (auto split: if_splits)
  qed
qed

lemma BenchmarkOne_steps:
  assumes S: "steps_by P R" and R: "reflp R" "transp R" and B: "BenchmarkOne P alg e = (res, e')"
  shows "R e e'"
proof -
  let ?m = "map word_of_nat [0..<kMsgLen] :: byte list"
  obtain t0 e1 where 1: "dwt_cyccnt P e = (t0, e1)" by fastforce
  obtain st sg e2 where 2: "Signer_Init P alg new_signer e1 = (st, sg, e2)" by (metis prod_cases3)
  obtain t1 e3 where 3: "dwt_cyccnt P e2 = (t1, e3)" by fastforce
  obtain st' pub e4 where 4: "ExportPublicKey P sg kPublicKeyLenMax e3 = (st', pub, e4)"
    by (metis prod_cases3)
  obtain out e5 where 5: "bench_loop P sg kIterations 0 ?m (replicate kSignatureLen 0)
      zero_stats zero_stats e4 = (out, e5)" by fastforce
  have "R e e1" using steps_byD(14) [OF S 1] .
  then have "R e e2" using Signer_Init_steps [OF S R 2] R(2) by (meson transpE)
  then have r3: "R e e3" using steps_byD(14) [OF S 3] R(2) by (meson transpE)
  then have r4: "R e e4" using ExportPublicKey_steps [OF S R(1) 4] R(2) by (meson transpE)
  then have r5: "R e e5" using bench_loop_steps [OF S R 5] R(2) by (meson transpE)
  have r6: "R e e6" if "Verify P sg m sig e5 = (st, e6)" for m sig st e6
    using r5 Verify_steps [OF S R(1) that] R(2) by (meson transpE)
  show ?thesis
  proof (cases "st = 0 \<and> st' = 0")
    case False
    then have "e' \<in> {e3, e4}" using B 1 2 3 4 by (auto simp: BenchmarkOne_def Let_def split: if_splits)
    with r3 r4 show ?thesis by auto
  next
    case True
    show ?thesis
    proof (cases out)
      case (Inl f)
      then have "e' = e5" using B 1 2 3 4 5 True by (simp add: BenchmarkOne_def Let_def)
      with r5 show ?thesis by simp
    next
      case (Inr x)
      obtain m sig s v where x: "x = (m, sig, s, v)" by (metis prod_cases4)
      obtain st6 e6 where 6: "Verify P sg (m[0 := m ! 0 XOR 0xFF]) sig e5 = (st6, e6)" by fastforce
      then have "e' = e6" using B 1 2 3 4 5 True Inr x by (simp add: BenchmarkOne_def Let_def)
      with r6 [OF 6] show ?thesis by simp
    qed
  qed
qed

lemma RunCryptoBenchmark_steps:
  assumes S: "steps_by P R" and R: "reflp R" "transp R" and B: "RunCryptoBenchmark P e = (res, e')"
  shows "R e e'"
proof -
  obtain a e2 where 2: "dwt_cyccnt P (dwt_enable P e) = (a, e2)" by fastforce
  obtain b e3 where 3: "dwt_cyccnt P e2 = (b, e3)" by fastforce
  obtain r1 e4 where 4: "BenchmarkOne P EcdsaP256 e3 = (r1, e4)" by fastforce
  obtain r2 e5 where 5: "BenchmarkOne P Ed25519 e4 = (r2, e5)" by fastforce
  have "R e (dwt_enable P e)" using steps_byD(13) [OF S refl] .
  then have "R e e2" using steps_byD(14) [OF S 2] R(2) by (meson transpE)
  then have r3: "R e e3" using steps_byD(14) [OF S 3] R(2) by (meson transpE)
  then have "R e e4" using BenchmarkOne_steps [OF S R 4] R(2) by (meson transpE)
  then have r5: "R e e5" using BenchmarkOne_steps [OF S R 5] R(2) by (meson transpE)
  have "e' \<in> {e3, e5}"
    using B 2 3 4 5 by (auto simp: RunCryptoBenchmark_def DwtInit_def Let_def split: if_splits)
  with r3 r5 show ?thesis by auto
qed

lemma ReportIdentityBundle_steps:
  assumes S: "steps_by P R" and R: "reflp R" "transp R" and B: "ReportIdentityBundle P e = (res, e')"
  shows "R e e'"
proof -
  obtain st sg e1 where 1: "Signer_Init P Ed25519 new_signer e = (st, sg, e1)" by (metis prod_cases3)
  obtain err bdl e2 where 2: "BuildIdentityBundle P sg 1600 e1 = (err, bdl, e2)" by (metis prod_cases3)
  have r1: "R e e1" using Signer_Init_steps [OF S R 1] .
  then have r2: "R e e2" using BuildIdentityBundle_steps [OF S R 2] R(2) by (meson transpE)
  have "e' \<in> {e1, e2}"
    using B 1 2 by (auto simp: ReportIdentityBundle_def Let_def split: if_splits)
  with r1 r2 show ?thesis by auto
qed

text \<open>
  Starting up writes nothing to the settings partition, whatever it benchmarks and
  reports, and schedules the Bluetooth transport exactly when it is configured, five seconds
  out.
\<close>

lemma startup_leaves_settings:
  assumes "flash_ok P stored" and "PluginServerInitCallback P pc e = ((calls, outcomes, report), e')"
  shows "stored e' = stored e \<and> calls = (if CONFIG_BT_NUS pc then [Schedule sInitWork 5000] else []) \<and>
    (\<not> CONFIG_TUNNEL_CRYPTO_BENCHMARK pc \<longrightarrow> e' = e \<and> outcomes = [] \<and> report = None)"
proof -
  let ?R = "\<lambda>e e'. stored e' = stored e"
  have S: "steps_by P ?R" by (rule flash_okD(1) [OF assms(1)])
  have R: "reflp ?R" "transp ?R" by (auto simp: reflp_def transp_def)
  show ?thesis
  proof (cases "CONFIG_TUNNEL_CRYPTO_BENCHMARK pc")
    case True
    obtain os e1 where 1: "RunCryptoBenchmark P e = (os, e1)" by fastforce
    obtain rep e2 where 2: "ReportIdentityBundle P e1 = (rep, e2)" by fastforce
    have "stored e2 = stored e"
      using RunCryptoBenchmark_steps [OF S R 1] ReportIdentityBundle_steps [OF S R 2] by simp
    then show ?thesis using assms(2) True 1 2
      by (auto simp: PluginServerInitCallback_def BleTransportScheduleInit_def)
  qed (use assms(2) in \<open>auto simp: PluginServerInitCallback_def BleTransportScheduleInit_def\<close>)
qed

end
