(* ===== verification/Identity_Fetch.thy ===== *)
theory Identity_Fetch
  imports Core_Responses
begin

text \<open>
  Fetching the identity bundle, as \<open>tunnel_server.cpp\<close> and the README describe it: a client
  asks for offset 0, appends the chunk, and goes on from the end of what it holds until it
  has the announced total. The lemmas say that it ends with the device's bundle, and after
  how many exchanges.
\<close>

section \<open>One chunk\<close>

definition encode_identity_request :: "nat \<Rightarrow> byte list" where
  "encode_identity_request offset = [kTypeIdentityRequest] @ put_u16 offset"

lemma encode_identity_request_simps [simp]:
  assumes "offset < 65536"
  shows "length (encode_identity_request offset) = 3"
    and "encode_identity_request offset ! 0 = kTypeIdentityRequest"
    and "read_u16 (encode_identity_request offset ! 1) (encode_identity_request offset ! 2) = offset"
  using read_u16_put_u16 [OF assms] by (simp_all add: encode_identity_request_def put_u16_def)

text \<open>What the device answers once its bundle is built: the state does not change.\<close>

lemma identity_chunk:
  assumes cfg: "CONFIG_TUNNEL_SECURITY cfg" and built: "gBundleLen d \<noteq> 0"
    and off: "offset < 65536" and cap: "405 \<le> outCap"
  shows "ProcessRequest P cfg (encode_identity_request offset) outCap d =
    ((if gBundleLen d \<le> offset then ([], ConstraintError)
      else ([kTypeIdentityResponse] @ put_u16 offset @ put_u16 (gBundleLen d)
            @ take 400 (take (gBundleLen d - offset) (drop offset (gBundle d))), Reject_None)), d)"
proof -
  have "identity_request P (encode_identity_request offset) outCap d =
    ((if gBundleLen d \<le> offset then ([], ConstraintError)
      else ([kTypeIdentityResponse] @ put_u16 offset @ put_u16 (gBundleLen d)
            @ take 400 (take (gBundleLen d - offset) (drop offset (gBundle d))), Reject_None)), d)"
    using cap off encode_identity_request_simps [OF off] EnsureBundle_done [OF built, of P]
    by (simp add: identity_request_def Let_def kMaxChunk_def min_def del: One_nat_def)
  then show ?thesis
    using cfg off encode_identity_request_simps(1) [OF off]
    by (simp add: ProcessRequest_def ProcessRequest_view_def Let_def type_defs
        encode_identity_request_def)
qed

section \<open>The client's loop\<close>

text \<open>
  The loop over an arbitrary server: the bytes held so far, the number of exchanges left,
  and the result with the server's state. \<open>None\<close> is a refusal or running out of exchanges.
\<close>

fun fetch_bundle :: "(byte list \<Rightarrow> nat \<Rightarrow> 's \<Rightarrow> (byte list \<times> reject) \<times> 's) \<Rightarrow>
  nat \<Rightarrow> nat \<Rightarrow> byte list \<Rightarrow> 's \<Rightarrow> byte list option \<times> 's" where
  "fetch_bundle serve outCap 0 got s = (None, s)"
| "fetch_bundle serve outCap (Suc n) got s =
     (let ((bs, r), s) = serve (encode_identity_request (length got)) outCap s
      in if r \<noteq> Reject_None \<or> length bs < 5 then (None, s)
         else let total = read_u16 (bs ! 3) (bs ! 4);
                  got = got @ drop 5 bs
              in if length got \<ge> total then (Some got, s)
                 else fetch_bundle serve outCap n got s)"

text \<open>One round of the loop with \<open>k\<close> bytes of the bundle held.\<close>

lemma fetch_bundle_round:
  assumes cfg: "CONFIG_TUNNEL_SECURITY cfg" and cap: "405 \<le> outCap"
    and built: "length (gBundle d) = gBundleLen d" "gBundleLen d < 65536"
    and k: "k < gBundleLen d"
  shows "fetch_bundle (ProcessRequest P cfg) outCap (Suc n) (take k (gBundle d)) d =
    (if gBundleLen d \<le> k + 400 then (Some (gBundle d), d)
     else fetch_bundle (ProcessRequest P cfg) outCap n (take (k + 400) (gBundle d)) d)"
proof -
  have ne: "gBundleLen d \<noteq> 0" using k by simp
  define chunk where "chunk = take 400 (drop k (gBundle d))"
  define bs where "bs = [kTypeIdentityResponse] @ put_u16 k @ put_u16 (gBundleLen d) @ chunk"
  have "ProcessRequest P cfg (encode_identity_request k) outCap d = ((bs, Reject_None), d)"
    using identity_chunk [OF cfg ne _ cap, of k P] k built by (simp add: bs_def chunk_def)
  moreover have "read_u16 (bs ! 3) (bs ! 4) = gBundleLen d"
    using read_u16_put_u16 [OF built(2)] by (simp add: bs_def put_u16_def)
  moreover have "drop 5 bs = chunk" "\<not> length bs < 5"
    by (simp_all add: bs_def put_u16_def)
  moreover have "take k (gBundle d) @ chunk = take (k + 400) (gBundle d)"
    by (simp add: chunk_def take_add)
  moreover have "length (take k (gBundle d)) = k" using k built(1) by simp
  ultimately show ?thesis using built(1) by (simp add: Let_def)
qed

text \<open>
  The rest arrives in \<open>\<lceil>(total - k) / 400\<rceil>\<close> exchanges and the loop ends with the whole
  bundle; with fewer it does not end.
\<close>

lemma fetch_bundle_rest:
  assumes A: "CONFIG_TUNNEL_SECURITY cfg" "405 \<le> outCap"
    "length (gBundle d) = gBundleLen d" "gBundleLen d < 65536" and "k < gBundleLen d"
  shows "fetch_bundle (ProcessRequest P cfg) outCap n (take k (gBundle d)) d =
    (if gBundleLen d \<le> k + 400 * n then Some (gBundle d) else None, d)"
  using assms(5)
proof (induction n arbitrary: k)
  case (Suc n)
  show ?case
  proof (cases "gBundleLen d \<le> k + 400")
    case True
    then show ?thesis using fetch_bundle_round [OF A Suc.prems] by simp
  next
    case False
    then show ?thesis
      using fetch_bundle_round [OF A Suc.prems] Suc.IH [of "k + 400"] by simp
  qed
qed simp

text \<open>From nothing, over a device whose bundle is built.\<close>

lemma fetch_bundle_built:
  assumes "CONFIG_TUNNEL_SECURITY cfg" "405 \<le> outCap" "core_wf d" "gBundleLen d \<noteq> 0"

  shows "fetch_bundle (ProcessRequest P cfg) outCap n [] d =
    (if gBundleLen d \<le> 400 * n then Some (gBundle d) else None, d)"
  using fetch_bundle_rest [of cfg outCap d 0 P n] assms by (simp add: core_wf_def)

text \<open>The first exchange builds it.\<close>

lemma fetch_bundle_first:
  assumes E: "EnsureBundle P d = (True, d1)" and cfg: "CONFIG_TUNNEL_SECURITY cfg"
  shows "fetch_bundle (ProcessRequest P cfg) outCap n [] d =
    (if n = 0 then (None, d) else fetch_bundle (ProcessRequest P cfg) outCap n [] d1)"
proof -
  have "identity_request P (encode_identity_request 0) outCap d =
      identity_request P (encode_identity_request 0) outCap d1"
    using E EnsureBundle_done [OF EnsureBundle_ok_len [OF E], of P]
    by (simp add: identity_request_def encode_identity_request_def put_u16_def Let_def)
  then have "ProcessRequest P cfg (encode_identity_request 0) outCap d =
      ProcessRequest P cfg (encode_identity_request 0) outCap d1"
    using cfg
    by (simp add: ProcessRequest_def ProcessRequest_view_def Let_def type_defs
        encode_identity_request_def)
  then show ?thesis by (cases n) simp_all
qed

end
