(* ===== verification/Device_Life.thy ===== *)
theory Device_Life
  imports Device
begin

text \<open>
  The device's whole life: the counter interface over runs with power cycles. The invariant
  is the guard's (\<open>ceiling_inv\<close>) while it runs and, before the first signed request of a
  boot, that flash holds no ceiling or a non-zero one. Then the registration side: how the
  window, the stored key and the button bound what a run can register.
\<close>

section \<open>Counters over a life\<close>

definition drift_keeps_flash ::
  "('e \<Rightarrow> string \<Rightarrow> byte list option) \<Rightarrow> ('e \<Rightarrow> 'e \<Rightarrow> bool) \<Rightarrow> bool" where
  "drift_keeps_flash stored drift \<longleftrightarrow>
     (\<forall>e e'. drift e e' \<longrightarrow> stored e' ceiling_key = stored e ceiling_key \<and>
        stored e' clientkey_key = stored e clientkey_key)"

definition asleep_inv :: "('e \<Rightarrow> string \<Rightarrow> byte list option) \<Rightarrow> 'e \<Rightarrow> bool" where
  "asleep_inv stored e \<longleftrightarrow>
     stored e ceiling_key = None \<or> (\<exists>v. v \<noteq> 0 \<and> stored e ceiling_key = Some (u32_mem v))"

definition life_inv :: "'e platform \<Rightarrow> ('e \<Rightarrow> string \<Rightarrow> byte list option) \<Rightarrow> 'e core \<Rightarrow> bool" where
  "life_inv P stored d \<longleftrightarrow>
     flash_reliable P stored \<and>
     (if gReplayReady d then ceiling_inv P stored (gReplay d, env d) else asleep_inv stored (env d))"

definition life_spent :: "('e \<Rightarrow> string \<Rightarrow> byte list option) \<Rightarrow> 'e core \<Rightarrow> u32 \<Rightarrow> bool" where
  "life_spent stored d c \<longleftrightarrow>
     (if gReplayReady d then c \<le> mFloor (gReplay d)
      else \<exists>v. c \<le> v \<and> stored (env d) ceiling_key = Some (u32_mem v))"

text \<open>Both depend on the guard and on one flash entry only.\<close>

lemma life_frame:
  assumes "gReplay d' = gReplay d" "gReplayReady d' = gReplayReady d"
    and "stored (env d') ceiling_key = stored (env d) ceiling_key"
  shows "life_inv P stored d' = life_inv P stored d" and "life_spent stored d' c = life_spent stored d c"
  using assms by (simp_all add: life_inv_def life_spent_def ceiling_inv_def asleep_inv_def)

lemma u32_mem_inject: "u32_mem a = u32_mem b \<longleftrightarrow> a = b"
  by (metis mem_u32_u32_mem)

text \<open>Waking up: what \<open>Init\<close> makes of the stored ceiling.\<close>

lemma Init_wakes:
  assumes F: "flash_reliable P stored" and asleep: "asleep_inv stored e"
    and I: "ReplayGuard_Init P g e = (err, g', e')"
  shows "err = CHIP_NO_ERROR" and "ceiling_inv P stored (g', e')"
    and "stored e ceiling_key = Some (u32_mem v) \<Longrightarrow> v \<le> mFloor g'"
proof -
  note fo = flash_reliableD(1) [OF F]
  have *: "err = CHIP_NO_ERROR \<and> ceiling_inv P stored (g', e') \<and>
      (\<forall>v. stored e ceiling_key = Some (u32_mem v) \<longrightarrow> v \<le> mFloor g')"
  proof (cases "stored e ceiling_key")
    case None
    with first_boot_inv [OF F _ I] show ?thesis by simp
  next
    case (Some bytes)
    then obtain w where w: "w \<noteq> 0" "stored e ceiling_key = Some (u32_mem w)"
      using asleep by (auto simp: asleep_inv_def)
    obtain rc e1 where init: "settings_subsys_init P e = (rc, e1)" by fastforce
    obtain calls rc' e2 where load: "settings_load_subtree_direct P ceiling_key e1 = (calls, rc', e2)"
      by (metis prod_cases3)
    have rc: "rc = 0" using flash_reliableD(2) [OF F init] .
    have "ReplayGuard_Init P g e =
        (CHIP_NO_ERROR, \<lparr>mFloor = w, mCeiling = w, mPersistent = True\<rparr>, e2)"
      by (rule Init_stored [OF fo flash_reliableD(4) [OF F] init [unfolded rc] w(2,1) load])
    moreover have "stored e2 = stored e"
      using steps_byD(1) [OF flash_okD(1) [OF fo] init] steps_byD(2) [OF flash_okD(1) [OF fo] load]
      by simp
    ultimately show ?thesis
      using I F w by (auto simp: ceiling_inv_def u32_mem_inject)
  qed
  then show "err = CHIP_NO_ERROR" and "ceiling_inv P stored (g', e')"
    and "stored e ceiling_key = Some (u32_mem v) \<Longrightarrow> v \<le> mFloor g'" by simp_all
qed

lemma keys_differ [simp]: "clientkey_key \<noteq> ceiling_key" "ceiling_key \<noteq> clientkey_key"
  by (simp_all add: clientkey_key_def ceiling_key_def)

text \<open>Each step of a request keeps the invariant and everything spent.\<close>

definition life_ok :: "'e platform \<Rightarrow> ('e \<Rightarrow> string \<Rightarrow> byte list option) \<Rightarrow> u32 set \<Rightarrow> 'e core \<Rightarrow> bool" where
  "life_ok P stored cs d \<longleftrightarrow> life_inv P stored d \<and> (\<forall>c \<in> cs. life_spent stored d c)"

lemma life_ok_frame:
  assumes "life_ok P stored cs d" "gReplay d' = gReplay d" "gReplayReady d' = gReplayReady d"
    and "stored (env d') ceiling_key = stored (env d) ceiling_key"
  shows "life_ok P stored cs d'"
  using assms(1) life_frame(1) [where stored = stored, OF assms(2-4)]
    life_frame(2) [where stored = stored, OF assms(2-4)]
  by (simp add: life_ok_def)

lemma life_ok_flash: "life_ok P stored cs d \<Longrightarrow> flash_ok P stored"
  by (simp add: life_ok_def life_inv_def flash_reliableD)

lemma EnsureBundle_life:
  assumes "EnsureBundle P d = (ok, d')" "life_ok P stored cs d"
  shows "life_ok P stored cs d'"
  using life_ok_frame [OF assms(2)] EnsureBundle_frame [OF assms(1)]
    EnsureBundle_steps [OF flash_okD(1) [OF life_ok_flash [OF assms(2)]] reflp_eq transp_eq assms(1)]
  by simp

lemma EnsureReplay_life:
  assumes E: "EnsureReplay P cfg d = (ok, d')" and L: "life_ok P stored cs d"
  shows "life_ok P stored cs d'"
proof (cases "gReplayReady d")
  case True
  with E L show ?thesis by (simp add: EnsureReplay_ready)
next
  case False
  have F: "flash_reliable P stored" and asleep: "asleep_inv stored (env d)"
    and spent: "\<And>c. c \<in> cs \<Longrightarrow> \<exists>v. c \<le> v \<and> stored (env d) ceiling_key = Some (u32_mem v)"
    using L False by (simp_all add: life_ok_def life_inv_def life_spent_def)
  obtain err g e where I: "ReplayGuard_Init P (gReplay d) (env d) = (err, g, e)"
    by (metis prod_cases3)
  note wake = Init_wakes [OF F asleep I]
  have floor: "c \<le> mFloor g" if "c \<in> cs" for c
    using spent [OF that] wake(3) by (meson order.trans)
  let ?d = "d\<lparr>gReplay := g, gReplayReady := True, env := e\<rparr>"
  have ok: "life_ok P stored cs ?d"
    using wake(2) F floor by (simp add: life_ok_def life_inv_def life_spent_def)
  from E show ?thesis
  proof (cases rule: EnsureReplay_cases)
    case (init_failed err' g' e')
    with I wake(1) show ?thesis by simp
  next
    case (guard_only g' e')
    with I ok show ?thesis by simp
  next
    case (with_store g' e1 err' ks e')
    then have e1: "g' = g" "e1 = e" using I by simp_all
    have "stored e' = stored e"
      using ClientKeyStore_Init_steps [OF flash_okD(1) [OF flash_reliableD(1) [OF F]] transp_eq
          with_store(5)] e1 by simp
    then show ?thesis by (intro life_ok_frame [OF ok]) (simp_all add: with_store(6) e1)
  qed (use False in simp)
qed

lemma auth_gate_life:
  assumes "auth_gate P cfg b p s d = (r, d')" "life_ok P stored cs d"
  shows "life_ok P stored cs d'"
proof -
  have "stored (env d') = stored (env d)"
    using assms(1) authenticate_steps [OF flash_okD(1) [OF life_ok_flash [OF assms(2)]] reflp_eq transp_eq]
    by (auto simp: auth_gate_def split: if_splits)
  then show ?thesis using life_ok_frame [OF assms(2)] auth_gate_frame [OF assms(1)] by simp
qed

lemma consume_counter_life:
  assumes C: "consume_counter P b d = (r, d')" and ready: "gReplayReady d"
    and L: "life_ok P stored cs d"
  shows "life_ok P stored cs d'"
proof -
  have inv: "ceiling_inv P stored (gReplay d, env d)" and F: "flash_reliable P stored"
    using L ready by (simp_all add: life_ok_def life_inv_def)
  have "boot_spent d' c" if "c \<in> cs" for c
    by (rule consume_counter_boot_spent [OF C])
       (use L that ready in \<open>simp add: life_ok_def life_spent_def boot_spent_def\<close>)
  moreover have "ceiling_inv P stored (gReplay d', env d')"
    using C by (cases rule: consume_counter_cases) (use inv Accept_ceiling_inv [OF inv] in auto)
  ultimately show ?thesis
    using F consume_counter_frame [OF C] ready
    by (simp add: life_ok_def life_inv_def life_spent_def boot_spent_def)
qed

lemma Sign_life:
  assumes "Sign P sg m n (env d) = (st, sig, e)" "life_ok P stored cs d"
  shows "life_ok P stored cs (d\<lparr>env := e\<rparr>)"
  using life_ok_frame [OF assms(2)]
    Sign_steps [OF flash_okD(1) [OF life_ok_flash [OF assms(2)]] reflp_eq assms(1)]
  by simp

lemma Register_flash:
  assumes F: "flash_ok P stored" and R: "Register P k ks e = (err, ks', e')" and "q \<noteq> clientkey_key"
  shows "stored e' q = stored e q"
proof (cases "err = CHIP_NO_ERROR")
  case True
  with R have "Register P k ks e = (CHIP_NO_ERROR, ks', e')" by simp
  then show ?thesis
  proof (cases rule: Register_ok_cases)
    case (1 e1 rc)
    have "stored e1 = stored e" using 1(4) flash_okD(2) [OF F] by blast
    with flash_okD(3) [OF F 1(5) assms(3)] show ?thesis by simp
  qed
next
  case False
  with Register_refused [OF R] show ?thesis by simp
qed

lemma Register_life:
  assumes "Register P k (gStore d) (env d) = (err, ks, e)" "life_ok P stored cs d"
  shows "life_ok P stored cs (d\<lparr>gStore := ks, env := e\<rparr>)"
  using life_ok_frame [OF assms(2)] Register_flash [OF life_ok_flash [OF assms(2)] assms(1)] by simp

lemma request_life_ok:
  assumes "ProcessRequest_view P cfg view cap d = ((bs, r), d')" "life_ok P stored cs d"
  shows "life_ok P stored cs d'"
  by (rule ProcessRequest_view_preserves [where Q = "life_ok P stored cs", OF assms])
     (blast intro: EnsureBundle_life EnsureReplay_life auth_gate_life consume_counter_life Sign_life
        Register_life)+

lemma request_life_emits:
  assumes P: "ProcessRequest_view P cfg view cap d = ((bs, r), d')" and L: "life_inv P stored d"
    and c: "response_counter bs = Some c"
  shows "\<not> life_spent stored d c" and "c' \<le> c \<Longrightarrow> life_spent stored d' c'"
proof -
  show "\<not> life_spent stored d c"
  proof
    assume "life_spent stored d c"
    with L have ok: "life_ok P stored {c} d" by (simp add: life_ok_def)
    show False
    proof (rule signed_reply_guard [where Q = "life_ok P stored {c}", OF P c ok])
      fix d3 assume "life_ok P stored {c} d3" "gReplayReady d3" "mFloor (gReplay d3) < c"
      then show False by (simp add: life_ok_def life_spent_def leD)
    qed (blast intro: EnsureBundle_life EnsureReplay_life auth_gate_life)+
  qed
  show "c' \<le> c \<Longrightarrow> life_spent stored d' c'"
    by (rule signed_reply_guard [where Q = "\<lambda>_. True", OF P c]) (auto simp: life_spent_def)
qed

text \<open>A power cycle: the floor is below the stored ceiling, whenever the power went.\<close>

lemma power_life:
  assumes L: "life_inv P stored d"
    and lost: "lost = env d \<or> (gReplayReady d \<and> power_loss_point P (gReplay d, env d) lost)"
    and e: "stored e = stored lost"
  shows "life_inv P stored (boot e)" and "life_spent stored d c \<Longrightarrow> life_spent stored (boot e) c"
proof -
  have b [simp]: "\<not> gReplayReady (boot e)" "env (boot e) = e" by (simp_all add: boot_def)
  have F: "flash_reliable P stored" using L by (simp add: life_inv_def)
  have "life_inv P stored (boot e) \<and> (life_spent stored d c \<longrightarrow> life_spent stored (boot e) c)"
  proof (cases "gReplayReady d")
    case True
    then have inv: "ceiling_inv P stored (gReplay d, env d)" using L by (simp add: life_inv_def)
    have "power_loss_point P (gReplay d, env d) lost"
      using lost by (auto simp: power_loss_point_def)
    then obtain v where "stored lost ceiling_key = Some (u32_mem v)" "mFloor (gReplay d) \<le> v" "v \<noteq> 0"
      by (rule power_loss_ceiling [OF inv])
    moreover have "c \<le> mFloor (gReplay d) \<Longrightarrow> c \<le> v"
      using \<open>mFloor (gReplay d) \<le> v\<close> by (rule order.trans [rotated])
    ultimately show ?thesis
      using F e True by (auto simp: life_inv_def life_spent_def asleep_inv_def)
  next
    case False
    with L lost e show ?thesis by (auto simp: life_inv_def life_spent_def asleep_inv_def)
  qed
  then show "life_inv P stored (boot e)" and "life_spent stored d c \<Longrightarrow> life_spent stored (boot e) c"
    by simp_all
qed

lemma dev_step_cases:
  assumes "dev_step P cfg stored drift d l d'"
  obtains (request) view cap bs r where "l = L_Request view cap (bs, r)"
      "ProcessRequest_view P cfg view cap d = ((bs, r), d')"
  | (button) b c where "l = L_Button b c"
      "d' = d\<lparr>gStore := button_event P b c (env d) (gStore d)\<rparr>"
  | (outside) e where "l = L_Outside" "drift (env d) e" "d' = d\<lparr>env := e\<rparr>"
  | (power) e lost where "l = L_PowerCycle" "d' = boot e"
      "lost = env d \<or> (gReplayReady d \<and> power_loss_point P (gReplay d, env d) lost)"
      "stored e = stored lost"
  using assms
proof (cases rule: dev_step.cases)
  case (request view cap reply)
  then show thesis using that(1) [of view cap "fst reply" "snd reply"] by simp
next
  case (button b c)
  show thesis by (rule that(2) [OF button])
next
  case (outside e)
  show thesis by (rule that(3) [OF outside(1,3,2)])
next
  case (power lost e)
  show thesis by (rule that(4) [OF power(1,2,3,4)])
qed

definition device_inv :: "'e platform \<Rightarrow> ('e \<Rightarrow> string \<Rightarrow> byte list option) \<Rightarrow>
  ('e \<Rightarrow> 'e \<Rightarrow> bool) \<Rightarrow> 'e core \<Rightarrow> bool" where
  "device_inv P stored drift d \<longleftrightarrow> life_inv P stored d \<and> drift_keeps_flash stored drift"

lemma dev_step_life:
  assumes st: "dev_step P cfg stored drift d l d'" and D: "device_inv P stored drift d"
  shows "device_inv P stored drift d'" and "life_spent stored d c \<Longrightarrow> life_spent stored d' c"
    and "served l = Some c \<Longrightarrow> \<not> life_spent stored d c"
    and "served l = Some c \<Longrightarrow> c' \<le> c \<Longrightarrow> life_spent stored d' c'"
proof -
  have L: "life_inv P stored d" and K: "drift_keeps_flash stored drift"
    using D by (simp_all add: device_inv_def)
  have "life_inv P stored d' \<and> (life_spent stored d c \<longrightarrow> life_spent stored d' c)"
    using st
  proof (cases rule: dev_step_cases)
    case (request view cap bs r)
    show ?thesis
      using request_life_ok [OF request(2), of stored "{}"] request_life_ok [OF request(2), of stored "{c}"] L
      by (simp add: life_ok_def)
  next
    case (button b c)
    then have "life_inv P stored d' = life_inv P stored d" "life_spent stored d' c = life_spent stored d c"
      for c by (simp_all add: life_inv_def life_spent_def ceiling_inv_def asleep_inv_def)
    then show ?thesis using L by simp
  next
    case (outside e)
    then have "stored (env d') ceiling_key = stored (env d) ceiling_key"
      using K by (auto simp: drift_keeps_flash_def)
    then have "life_inv P stored d' = life_inv P stored d" "life_spent stored d' c = life_spent stored d c"
      for c using outside(3)
      by (simp_all add: life_inv_def life_spent_def ceiling_inv_def asleep_inv_def)
    then show ?thesis using L by simp
  next
    case (power e lost)
    from power_life [OF L power(3,4)] power(2) show ?thesis by simp
  qed
  then show "device_inv P stored drift d'" and "life_spent stored d c \<Longrightarrow> life_spent stored d' c"
    using K by (simp_all add: device_inv_def)
  show "served l = Some c \<Longrightarrow> \<not> life_spent stored d c"
    using st by (cases rule: dev_step_cases) (auto dest: request_life_emits(1) [OF _ L])
  show "served l = Some c \<Longrightarrow> c' \<le> c \<Longrightarrow> life_spent stored d' c'"
    using st by (cases rule: dev_step_cases) (auto dest: request_life_emits(2) [OF _ L])
qed

interpretation life: counter_run "dev_step P cfg stored drift" served "device_inv P stored drift"
  "life_spent stored"
  for P :: "'e platform" and cfg and stored :: "'e \<Rightarrow> string \<Rightarrow> byte list option" and drift
proof unfold_locales
  fix d d' :: "'e core" and l c c'
  assume D: "device_inv P stored drift d" and st: "dev_step P cfg stored drift d l d'"
  show "device_inv P stored drift d'" by (rule dev_step_life(1) [OF st D])
  show "life_spent stored d c \<Longrightarrow> life_spent stored d' c" by (rule dev_step_life(2) [OF st D])
  show "served l = Some c \<Longrightarrow> \<not> life_spent stored d c" by (rule dev_step_life(3) [OF st D])
  show "served l = Some c \<Longrightarrow> c' \<le> c \<Longrightarrow> life_spent stored d' c'"
    by (rule dev_step_life(4) [OF st D])
qed

lemma device_inv_factory:
  "flash_reliable P stored \<Longrightarrow> drift_keeps_flash stored drift \<Longrightarrow> stored e ceiling_key = None \<Longrightarrow>
   device_inv P stored drift (boot e)"
  by (simp add: device_inv_def life_inv_def asleep_inv_def boot_def)

end
