(* ===== verification/Presence.thy ===== *)
theory Presence
  imports Device_Life
begin

text \<open>
  Registration over a run: who may register a client key, and when. An acknowledgement costs
  an open window, a window costs a button press while the handler is installed, and the
  handler is installed by the first signed request of a boot.
\<close>

section \<open>The acknowledgement\<close>

definition is_ack :: "byte list \<Rightarrow> bool" where
  "is_ack bs \<longleftrightarrow> bs \<noteq> [] \<and> bs ! 0 = kTypeRegisterAck"

fun acks :: "label \<Rightarrow> bool" where
  "acks (L_Request view cap reply) = is_ack (fst reply)"
| "acks _ = False"

text \<open>A press of the button: its bit has changed and is set.\<close>

fun presses :: "label \<Rightarrow> bool" where
  "presses (L_Button b c) = ((kRegisterButtonMask AND c) AND b \<noteq> 0)"
| "presses _ = False"

lemma ack_arm:
  assumes P: "ProcessRequest_view P cfg view cap d = ((bs, r), d')" and a: "is_ack bs"
  shows "view 0 ! 0 = kTypeRegisterClientKey" "register_client_key P view cap d = ((bs, r), d')"
proof -
  have *: "view 0 ! 0 = kTypeRegisterClientKey \<and> register_client_key P view cap d = ((bs, r), d')"
    using P
  proof (cases rule: ProcessRequest_view_arms)
    case echo
    then show ?thesis using a by (auto simp: is_ack_def echo_request_def type_defs split: if_splits)
  next
    case identity
    from identity(3) show ?thesis
      by (rule identity_request_cases) (use a in \<open>auto simp: is_ack_def type_defs\<close>)
  next
    case signed
    from signed(3) show ?thesis
    proof (cases rule: signed_request_cases)
      case (refused c n m d1 d2)
      from refusal_types(1) [OF refused(4)] a show ?thesis by (auto simp: is_ack_def type_defs)
    next
      case (not_fresh c n m d1 d2 d3)
      from refusal_types(2) [OF not_fresh(5)] a show ?thesis by (auto simp: is_ack_def type_defs)
    next
      case (answered c n m d1 d2 d3 d4 sig)
      then show ?thesis
        using a by (auto simp: is_ack_def emit_response_def type_defs split: if_splits)
    qed (use a in \<open>simp_all add: is_ack_def\<close>)
  qed (use a in \<open>simp_all add: is_ack_def\<close>)
  then show "view 0 ! 0 = kTypeRegisterClientKey" "register_client_key P view cap d = ((bs, r), d')"
    by simp_all
qed

text \<open>
  It echoes the key that is now stored, signed by this device over a preimage with counter
  0, and it was sent because the window was open when \<open>Register\<close> read the clock; now it is
  shut.
\<close>

lemma ack_contents:
  assumes P: "ProcessRequest_view P cfg view cap d = ((bs, r), d')" and a: "is_ack bs"
  obtains key sig pre d1 e where
    "key = take (read_u16 (view 0 ! 1) (view 0 ! 2)) (drop 3 (view 1))" "length key = 32"
    "HasKey (gStore d')" "Key (gStore d') = key"
    "bs = [kTypeRegisterAck] @ put_field key @ put_field sig"
    "BuildPreimage kDirResponse 0 (gDevicePub d') key 256 = (CHIP_NO_ERROR, pre)"
    "Sign P (gSigner d') pre kSignatureLen e = (0, sig, env d')"
    "EnsureBundle P d = (True, d1)" "WindowOpen P (gStore d) (env d1)"
    "mWindowUntilMs (gStore d') = 0" "mImported (gStore d') = 0"
  using ack_arm(2) [OF P a]
proof (cases rule: register_client_key_cases)
  case (refused n d1 err)
  then show ?thesis using a by (simp add: is_ack_def type_defs)
next
  case (recorded n d1 ks e1 e2)
  let ?key = "take n (drop 3 (view 1))"
  obtain pre sig where s: "BuildPreimage kDirResponse 0 (gDevicePub d1) (Key ks) 256 = (CHIP_NO_ERROR, pre)"
    "Sign P (gSigner d1) pre kSignatureLen e1 = (0, sig, e2)"
    "bs = [kTypeRegisterAck] @ put_field (Key ks) @ put_u16 (length sig) @ sig"
    using recorded(6) a by (auto simp: is_ack_def split: if_splits)
  from recorded(4) obtain e3 rc where w: "WindowOpen P (gStore d1) (env d1)" "length ?key = 32"
    "ks = (gStore d1)\<lparr>mKey := ?key, mKeyLen := 32, mWindowUntilMs := 0, mImported := 0\<rparr>"
    by (rule Register_ok_cases)
  have "take 32 ?key = ?key" using w(2) by (metis order_refl take_all)
  then have key: "Key ks = ?key" "HasKey ks" unfolding w(3) by (simp_all add: Key_def HasKey_def)
  have "gStore d1 = gStore d" using EnsureBundle_frame [OF recorded(3)] by simp
  then show thesis
    using that [of ?key sig pre e1 d1] w key s recorded(2,3,5) by (simp add: put_field_def)
qed (use a in \<open>simp_all add: is_ack_def\<close>)

section \<open>The window\<close>

lemma request_window:
  assumes P: "ProcessRequest_view P cfg view cap d = ((bs, r), d')"
  shows "mWindowUntilMs (gStore d') = mWindowUntilMs (gStore d) \<or> mWindowUntilMs (gStore d') = 0"
proof -
  define w where "w = mWindowUntilMs (gStore d)"
  let ?Q = "\<lambda>x :: 'a core. mWindowUntilMs (gStore x) = w \<or> mWindowUntilMs (gStore x) = 0"
  have "?Q d'"
  proof (rule ProcessRequest_view_preserves [where Q = ?Q, OF P])
    show "?Q d'" if "EnsureReplay P cfg d = (ok, d')" "?Q d" for d ok d'
      using that(1) by (rule EnsureReplay_cases) (use that(2) in \<open>auto dest: ClientKeyStore_Init_fields\<close>)
    show "?Q (d\<lparr>gStore := ks, env := e\<rparr>)"
      if "Register P k (gStore d) (env d) = (err, ks, e)" "?Q d" for k d err ks e
    proof (cases "err = CHIP_NO_ERROR")
      case True
      with that(1) have "Register P k (gStore d) (env d) = (CHIP_NO_ERROR, ks, e)" by simp
      then show ?thesis by (rule Register_ok_cases) simp
    qed (use that Register_refused [OF that(1)] in simp)
  qed (auto simp: auth_gate_def dest: EnsureBundle_frame consume_counter_frame authenticate_store
      split: if_splits simp: w_def)
  then show ?thesis by (simp add: w_def)
qed

text \<open>
  Each acknowledgement uses up a window and each window a press, so no run has more
  acknowledgements than button events.
\<close>

definition window_credit :: "'e core \<Rightarrow> nat" where
  "window_credit d = (if mWindowUntilMs (gStore d) = 0 then 0 else 1)"

lemma dev_step_credit:
  assumes "dev_step P cfg stored drift d l d'"
  shows "of_bool (acks l) + window_credit d' \<le> of_bool (presses l) + window_credit d"
  using assms
proof (cases rule: dev_step_cases)
  case (request view cap bs r)
  show ?thesis
  proof (cases "is_ack bs")
    case True
    with request(2) obtain e0 where "WindowOpen P (gStore d) e0" "mWindowUntilMs (gStore d') = 0"
      by (rule ack_contents) blast
    with request(1) True show ?thesis by (simp add: window_credit_def WindowOpen_def)
  next
    case False
    with request_window [OF request(2)] request(1) show ?thesis by (auto simp: window_credit_def)
  qed
next
  case (button b c)
  then show ?thesis by (simp add: window_credit_def button_event_def ButtonHandler_def)
next
  case (outside e)
  then show ?thesis by (simp add: window_credit_def)
next
  case (power e lost)
  then show ?thesis by (simp add: window_credit_def boot_def new_store_def)
qed

lemma run_credit:
  "run (dev_step P cfg stored drift) d ls d' \<Longrightarrow>
   length (filter acks ls) + window_credit d' \<le> length (filter presses ls) + window_credit d"
proof (induction rule: run.induct)
  case (run_cons d l d1 ls d2)
  with dev_step_credit [OF run_cons.hyps(1)] show ?case
    by (cases "acks l"; cases "presses l") simp_all
qed simp

section \<open>No button, no registration\<close>

text \<open>
  With nobody at the device the registered key is the one in flash, and stays there. Other
  components do not write the client key, but with \<open>erasable\<close> they may erase it, as a factory
  reset does.
\<close>

definition keeps_client_key ::
  "('e \<Rightarrow> string \<Rightarrow> byte list option) \<Rightarrow> bool \<Rightarrow> ('e \<Rightarrow> 'e \<Rightarrow> bool) \<Rightarrow> bool" where
  "keeps_client_key stored erasable drift \<longleftrightarrow>
     (\<forall>e e'. drift e e' \<longrightarrow> stored e' clientkey_key = stored e clientkey_key \<or>
        (erasable \<and> stored e' clientkey_key = None))"

lemma drift_keeps_flash_client_key [intro]:
  "drift_keeps_flash stored drift \<Longrightarrow> keeps_client_key stored erasable drift"
  by (simp add: drift_keeps_flash_def keeps_client_key_def)

definition undisturbed ::
  "('e \<Rightarrow> string \<Rightarrow> byte list option) \<Rightarrow> bool \<Rightarrow> byte list option \<Rightarrow> 'e core \<Rightarrow> bool" where
  "undisturbed stored erasable K d \<longleftrightarrow>
     mWindowUntilMs (gStore d) = 0 \<and>
     (stored (env d) clientkey_key = K \<or> (erasable \<and> stored (env d) clientkey_key = None)) \<and>
     (HasKey (gStore d) \<longrightarrow> K = Some (Key (gStore d)))"

lemma ClientKeyStore_Init_loads:
  assumes F: "flash_ok P stored" "loads_faithfully P stored"
    and I: "ClientKeyStore_Init P ks e = (err, ks', e')"
  shows "HasKey ks' \<longrightarrow> stored e' clientkey_key = Some (Key ks') \<or> (HasKey ks \<and> Key ks' = Key ks)"
proof -
  have e': "stored e' = stored e"
    using ClientKeyStore_Init_steps [OF flash_okD(1) [OF F(1)] transp_eq I] .
  obtain rc e1 where init: "settings_subsys_init P e = (rc, e1)" by fastforce
  obtain calls rc' e2 where load: "settings_load_subtree_direct P clientkey_key e1 = (calls, rc', e2)"
    by (metis prod_cases3)
  have e1: "stored e1 = stored e" using steps_byD(1) [OF flash_okD(1) [OF F(1)] init] .
  show ?thesis
  proof (cases "rc = 0 \<and> (\<exists>v. stored e clientkey_key = Some v \<and> length v = 32)")
    case True
    then obtain v where v: "rc = 0" "stored e clientkey_key = Some v" "length v = 32" by blast
    then have "calls = [\<lparr>lc_len = 32, lc_ret = 32, lc_data = v\<rparr>]"
      using loads_faithfullyD(2) [OF F(2) load] e1 by simp
    then have "Key ks' = v"
      using I v init load
      by (simp add: ClientKeyStore_Init_def Let_def clientkey_LoadCb_def kKeySize_def Key_def)
         auto
    with e' v show ?thesis by simp
  next
    case False
    have "gLoadedLen (fold (\<lambda>c ld. snd (clientkey_LoadCb c ld)) calls ld) = gLoadedLen ld"
      if "rc = 0" for ld
    proof (cases "stored e clientkey_key")
      case None
      then show ?thesis using loads_faithfullyD(1) [OF F(2) load] e1 by simp
    next
      case (Some v)
      then have "calls = [\<lparr>lc_len = length v, lc_ret = int (length v), lc_data = v\<rparr>]"
        using loads_faithfullyD(2) [OF F(2) load] e1 by simp
      then show ?thesis using False that Some by (simp add: clientkey_LoadCb_def kKeySize_def)
    qed
    then have "ks' = ks\<lparr>mHandlersAdded := mHandlersAdded ks + 1\<rparr>"
      using I init load by (auto simp: ClientKeyStore_Init_def Let_def kKeySize_def split: if_splits)
    then show ?thesis by (simp add: HasKey_def Key_def)
  qed
qed

lemma EnsureReplay_undisturbed:
  assumes F: "flash_ok P stored" "loads_faithfully P stored"
    and E: "EnsureReplay P cfg d = (ok, d')" "undisturbed stored er K d"
  shows "undisturbed stored er K d'"
  using E(1)
proof (cases rule: EnsureReplay_cases)
  case (init_failed err g e)
  with Init_steps_other_key [OF F(1) init_failed(3) keys_differ(1)] E(2) show ?thesis
    by (simp add: undisturbed_def)
next
  case (guard_only g e)
  with Init_steps_other_key [OF F(1) guard_only(4) keys_differ(1)] E(2) show ?thesis
    by (simp add: undisturbed_def)
next
  case (with_store g e err ks e')
  have e: "stored e clientkey_key = stored (env d) clientkey_key"
    using Init_steps_other_key [OF F(1) with_store(4) keys_differ(1)] .
  have e': "stored e' = stored e"
    using ClientKeyStore_Init_steps [OF flash_okD(1) [OF F(1)] transp_eq with_store(5)] .
  from ClientKeyStore_Init_loads [OF F with_store(5)]
  show ?thesis
    using E(2) e e' with_store(6) ClientKeyStore_Init_fields [OF with_store(5)]
    by (auto simp: undisturbed_def)
qed (use E(2) in simp)

lemma request_undisturbed:
  assumes F: "flash_ok P stored" "loads_faithfully P stored"
    and P: "ProcessRequest_view P cfg view cap d = ((bs, r), d')" and Q: "undisturbed stored er K d"
  shows "undisturbed stored er K d'"
proof (rule ProcessRequest_view_preserves [where Q = "undisturbed stored er K", OF P Q])
  note st = flash_okD(1) [OF F(1)]
  show "undisturbed stored er K d'" if "EnsureBundle P d = (ok, d')" "undisturbed stored er K d" for d ok d'
    using that(2) EnsureBundle_frame [OF that(1)] EnsureBundle_steps [OF st reflp_eq transp_eq that(1)]
    by (simp add: undisturbed_def)
  show "undisturbed stored er K d'" if "auth_gate P cfg c p s d = (r, d')" "undisturbed stored er K d"
    for c p s d r d'
  proof (cases "CONFIG_TUNNEL_CLIENT_AUTH cfg")
    case True
    then have A: "authenticate P c p s d = (r, d')" using that(1) by (simp add: auth_gate_def)
    from authenticate_store [OF A] authenticate_steps [OF st reflp_eq transp_eq A] that(2)
    show ?thesis by (simp add: undisturbed_def HasKey_def Key_def)
  qed (use that in \<open>simp add: auth_gate_def\<close>)
  show "undisturbed stored er K (d\<lparr>env := e\<rparr>)"
    if "Sign P (gSigner d) m n (env d) = (st, sig, e)" "undisturbed stored er K d" for m n d st sig e
    using that(2) Sign_steps [OF flash_okD(1) [OF F(1)] reflp_eq that(1)] by (simp add: undisturbed_def)
  show "undisturbed stored er K d'" if "consume_counter P c d = (r, d')" "undisturbed stored er K d"
    for c d r d'
  proof -
    have "stored (env d') clientkey_key = stored (env d) clientkey_key"
      using that(1) by (cases rule: consume_counter_cases)
        (use Accept_steps_other_key [OF F(1) _ keys_differ(1)] in auto)
    then show ?thesis using that(2) consume_counter_frame [OF that(1)] by (simp add: undisturbed_def)
  qed
  show "undisturbed stored er K (d\<lparr>gStore := ks, env := e\<rparr>)"
    if "Register P k (gStore d) (env d) = (err, ks, e)" "undisturbed stored er K d" for k d err ks e
    using that Register_closed [of P "gStore d" "env d" k]
    by (auto simp: undisturbed_def WindowOpen_def)
  show "undisturbed stored er K d'" if "EnsureReplay P cfg d = (ok, d')" "undisturbed stored er K d"
    for d ok d'
    using EnsureReplay_undisturbed [OF F that] .
qed

lemma power_loss_clientkey:
  assumes F: "flash_ok P stored" and "power_loss_point P (g, e) lost"
  shows "stored lost clientkey_key = stored e clientkey_key"
  using assms(2) flash_okD(3) [OF F _ keys_differ(1)]
  by (auto simp: power_loss_point_def PersistCeiling_def Let_def split: if_splits prod.splits)

lemma dev_step_undisturbed:
  assumes F: "flash_ok P stored" "loads_faithfully P stored" and K: "keeps_client_key stored er drift"
    and st: "dev_step P cfg stored drift d l d'" and l: "\<not> presses l"
    and Q: "undisturbed stored er K d"
  shows "undisturbed stored er K d' \<and> \<not> acks l"
  using st
proof (cases rule: dev_step_cases)
  case (request view cap bs r)
  have "\<not> is_ack bs"
  proof
    assume "is_ack bs"
    with request(2) obtain e0 where "WindowOpen P (gStore d) e0" by (rule ack_contents) blast
    with Q show False by (simp add: WindowOpen_def undisturbed_def)
  qed
  with request_undisturbed [OF F request(2) Q] request(1) show ?thesis by simp
next
  case (outside e)
  from K outside(2) have "stored e clientkey_key = stored (env d) clientkey_key \<or>
      (er \<and> stored e clientkey_key = None)" by (simp add: keeps_client_key_def)
  with outside Q show ?thesis by (auto simp: undisturbed_def)
next
  case (power e lost)
  have "stored lost clientkey_key = stored (env d) clientkey_key"
    using power(3) power_loss_clientkey [OF F(1)] by auto
  with power Q show ?thesis
    by (simp add: undisturbed_def boot_def new_store_def HasKey_def)
next
  case (button b c)
  then have "d' = d" using l by (simp add: button_event_def ButtonHandler_def)
  with button(1) Q show ?thesis by simp
qed

lemma run_undisturbed:
  assumes F: "flash_ok P stored" "loads_faithfully P stored" and K: "keeps_client_key stored er drift"
  shows "run (dev_step P cfg stored drift) d ls d' \<Longrightarrow> \<not> list_ex presses ls \<Longrightarrow>
    undisturbed stored er K d \<Longrightarrow> undisturbed stored er K d' \<and> \<not> list_ex acks ls"
proof (induction rule: run.induct)
  case (run_cons d l d1 ls d2)
  with dev_step_undisturbed [OF F K run_cons.hyps(1)] show ?case by simp
qed simp

lemma undisturbed_boot: "undisturbed stored er (stored e clientkey_key) (boot e)"
  by (simp add: undisturbed_def boot_def new_store_def HasKey_def)

section \<open>The button before the first signed request\<close>

text \<open>Until a signed request has been seen the button has no handler.\<close>

definition unarmed :: "'e core \<Rightarrow> bool" where
  "unarmed d \<longleftrightarrow> \<not> gReplayReady d \<and> mHandlersAdded (gStore d) = 0 \<and> mWindowUntilMs (gStore d) = 0"

fun signed_label :: "label \<Rightarrow> bool" where
  "signed_label (L_Request view cap reply) = (view 0 \<noteq> [] \<and> view 0 ! 0 = kTypeSignedRequest)"
| "signed_label _ = False"

lemma unarmed_boot [simp]: "unarmed (boot e)"
  by (simp add: unarmed_def boot_def new_store_def)

lemma request_unarmed:
  assumes P: "ProcessRequest_view P cfg view cap d = ((bs, r), d')" and U: "unarmed d"
    and ty: "\<not> (view 0 \<noteq> [] \<and> view 0 ! 0 = kTypeSignedRequest)"
  shows "unarmed d' \<and> \<not> is_ack bs"
  using P
proof (cases rule: ProcessRequest_view_arms)
  case identity
  have "unarmed d'"
    using identity(3) by (rule identity_request_cases)
      (use U in \<open>auto simp: unarmed_def dest!: EnsureBundle_frame\<close>)
  moreover have "\<not> is_ack bs" using ack_arm(1) [OF P] identity(2) by (auto simp: type_defs)
  ultimately show ?thesis by simp
next
  case signed
  have "view 0 = []" using ty signed(2) by simp
  with P U show ?thesis by (simp add: ProcessRequest_view_def is_ack_def)
next
  case register
  from register(4) show ?thesis
  proof (cases rule: register_client_key_cases)
    case (recorded n d1 ks e1 e2)
    from recorded(4) have "WindowOpen P (gStore d1) (env d1)" by (rule Register_ok_cases)
    with U EnsureBundle_frame [OF recorded(3)] show ?thesis by (simp add: unarmed_def WindowOpen_def)
  next
    case (refused n d1 err)
    with U EnsureBundle_frame [OF refused(3)] show ?thesis
      by (simp add: unarmed_def is_ack_def type_defs)
  qed (use U EnsureBundle_frame in \<open>auto simp: unarmed_def is_ack_def\<close>)
qed (use U in \<open>auto simp: is_ack_def echo_request_def type_defs split: if_splits\<close>)

lemma run_unarmed:
  "run (dev_step P cfg stored drift) d ls d' \<Longrightarrow> unarmed d \<Longrightarrow> \<not> list_ex signed_label ls \<Longrightarrow>
   unarmed d' \<and> \<not> list_ex acks ls"
proof (induction rule: run.induct)
  case (run_cons d l d1 ls d2)
  have "unarmed d1 \<and> \<not> acks l"
    using run_cons.hyps(1)
  proof (cases rule: dev_step_cases)
    case (request view cap bs r)
    with request_unarmed [OF request(2) run_cons.prems(1)] run_cons.prems(2) show ?thesis by auto
  next
    case (button b c)
    with run_cons.prems(1) show ?thesis by (simp add: unarmed_def button_event_def)
  qed (use run_cons.prems(1) in \<open>simp_all add: unarmed_def boot_def new_store_def\<close>)
  with run_cons.IH run_cons.prems(2) show ?case by simp
qed simp

section \<open>Well-formed states and imported keys along a run\<close>

definition drift_keeps_keys ::
  "('e \<Rightarrow> u32 \<Rightarrow> byte list option) \<Rightarrow> ('e \<Rightarrow> 'e \<Rightarrow> bool) \<Rightarrow> bool" where
  "drift_keeps_keys pubkey drift \<longleftrightarrow> (\<forall>e e'. drift e e' \<longrightarrow> pubkey e \<subseteq>\<^sub>m pubkey e')"

lemma button_event_fields [simp]:
  "mKey (button_event P b c e ks) = mKey ks" "mKeyLen (button_event P b c e ks) = mKeyLen ks"
  "mImported (button_event P b c e ks) = mImported ks"
  "mHandlersAdded (button_event P b c e ks) = mHandlersAdded ks"
  by (simp_all add: button_event_def ButtonHandler_def OpenWindow_def)

lemma dev_step_wf:
  assumes "dev_step P cfg stored drift d l d'" and "core_wf d"
  shows "core_wf d'"
  using assms(1)
proof (cases rule: dev_step_cases)
  case (request view cap bs r)
  show ?thesis by (rule ProcessRequest_view_wf [OF request(2) assms(2)])
next
  case (button b c)
  with assms(2) show ?thesis by (simp add: core_wf_def store_wf_def)
next
  case (outside e)
  with assms(2) show ?thesis by (simp add: core_wf_def)
qed simp

lemma dev_step_keys:
  assumes K: "keys_ok P pubkey valid_sig" and D: "drift_keeps_keys pubkey drift"
    and st: "dev_step P cfg stored drift d l d'" and "keys_inv pubkey d" "core_wf d"
  shows "keys_inv pubkey d'"
  using st
proof (cases rule: dev_step_cases)
  case (request view cap bs r)
  show ?thesis by (rule ProcessRequest_view_keys [OF K request(2) assms(4,5)])
next
  case (button b c)
  with assms(4) show ?thesis by (simp add: keys_inv_def HasKey_def Key_def)
next
  case (outside e)
  then show ?thesis
    using keys_inv_grow [OF assms(4), of d'] D by (simp add: drift_keeps_keys_def)
qed simp

lemma run_keys:
  assumes K: "keys_ok P pubkey valid_sig" and D: "drift_keeps_keys pubkey drift"
    and R: "run (dev_step P cfg stored drift) (boot e) ls d"
  shows "core_wf d \<and> keys_inv pubkey d"
  by (rule run_invariant [OF R]) (auto intro: dev_step_wf dev_step_keys [OF K D])

end
