(* ===== verification/Abstract_Protocol.thy ===== *)
theory Abstract_Protocol
  imports Presence
begin

text \<open>
  What the protocol promises, without its machinery: no handles, preimage buffers, settings
  or lazy initialisers. The state is the highest spent counter, the registered client key, a
  permit that a button press grants, and the device's public key once it is known. An
  abstract step says when an event may happen and what it changes; \<open>observe\<close> reads the event
  off a label of the device, \<open>abstraction\<close> the abstract state off the device's. Every run of
  the device is a run of the protocol.
\<close>

section \<open>The protocol\<close>

record protocol =
  pr_self :: "byte list option"
  pr_floor :: u32
  pr_key :: "byte list option"
  pr_permit :: bool

text \<open>
  \<open>Answer c p s\<close>: the request with counter \<open>c\<close>, payload \<open>p\<close> and client signature \<open>s\<close> was
  answered. \<open>Stale c p s f\<close>: it was turned down, and the device reported \<open>f\<close>.
\<close>

datatype event =
    Answer u32 "byte list" "byte list"
  | Stale u32 "byte list" "byte list" u32
  | Acknowledge "byte list"
  | Refusal
  | Press
  | Reset
  | Other

text \<open>Who signed: the registered client, this counter and payload, for this device.\<close>

definition authentic ::
  "(psa_alg \<Rightarrow> byte list \<Rightarrow> byte list \<Rightarrow> byte list \<Rightarrow> bool) \<Rightarrow> protocol \<Rightarrow>
   u32 \<Rightarrow> byte list \<Rightarrow> byte list \<Rightarrow> bool" where
  "authentic valid_sig s c payload csig \<longleftrightarrow>
     (\<exists>dev k pre. pr_self s = Some dev \<and> pr_key s = Some k \<and>
        BuildPreimage kDirRequest c dev payload 700 = (CHIP_NO_ERROR, pre) \<and>
        valid_sig PSA_ALG_PURE_EDDSA k pre csig)"

text \<open>The device's key becomes known with the first request that needs it.\<close>

definition wakes :: "protocol \<Rightarrow> protocol \<Rightarrow> bool" where
  "wakes s s' \<longleftrightarrow> s' = s \<or> (pr_self s = None \<and> (\<exists>dev. s' = s\<lparr>pr_self := Some dev\<rparr>))"

text \<open>
  The floor moves for an authentic request only, the key only with a permit, and a reset
  loses neither. A request may be spent, and a key recorded, without an answer.
\<close>

inductive protocol_step ::
  "(psa_alg \<Rightarrow> byte list \<Rightarrow> byte list \<Rightarrow> byte list \<Rightarrow> bool) \<Rightarrow>
   protocol \<Rightarrow> event \<Rightarrow> protocol \<Rightarrow> bool" for valid_sig where
  answer: "wakes s s1 \<Longrightarrow> authentic valid_sig s1 c p csig \<Longrightarrow> pr_floor s1 < c \<Longrightarrow>
    protocol_step valid_sig s (Answer c p csig) (s1\<lparr>pr_floor := c\<rparr>)"
| stale: "wakes s s1 \<Longrightarrow> authentic valid_sig s1 c p csig \<Longrightarrow> c \<le> pr_floor s1 \<Longrightarrow>
    protocol_step valid_sig s (Stale c p csig (pr_floor s1)) s1"
| acknowledge: "wakes s s1 \<Longrightarrow> pr_permit s1 \<Longrightarrow> length k = 32 \<Longrightarrow>
    protocol_step valid_sig s (Acknowledge k) (s1\<lparr>pr_key := Some k, pr_permit := False\<rparr>)"
| refusal: "wakes s s1 \<Longrightarrow> protocol_step valid_sig s Refusal s1"
| press: "protocol_step valid_sig s Press (s\<lparr>pr_permit := b\<rparr>)"
| reset: "pr_floor s \<le> f \<Longrightarrow>
    protocol_step valid_sig s Reset (s\<lparr>pr_self := None, pr_floor := f, pr_permit := False\<rparr>)"
| idle: "wakes s s1 \<Longrightarrow> protocol_step valid_sig s Other s1"
| spent: "wakes s s1 \<Longrightarrow> authentic valid_sig s1 c p csig \<Longrightarrow> pr_floor s1 < c \<Longrightarrow>
    protocol_step valid_sig s Other (s1\<lparr>pr_floor := c\<rparr>)"
| recorded: "wakes s s1 \<Longrightarrow> pr_permit s1 \<Longrightarrow> length k = 32 \<Longrightarrow>
    protocol_step valid_sig s Other (s1\<lparr>pr_key := Some k, pr_permit := False\<rparr>)"

inductive_cases protocol_answerE: "protocol_step valid_sig s (Answer c p csig) s'"
inductive_cases protocol_ackE: "protocol_step valid_sig s (Acknowledge k) s'"

lemma wakes_refl [simp]: "wakes s s"
  by (simp add: wakes_def)

lemma wakes_fields:
  "wakes s s' \<Longrightarrow> pr_floor s' = pr_floor s \<and> pr_key s' = pr_key s \<and> pr_permit s' = pr_permit s"
  by (auto simp: wakes_def)

text \<open>The promise of the protocol follows from its rules alone.\<close>

lemma protocol_floor_mono: "protocol_step valid_sig s ev s' \<Longrightarrow> pr_floor s \<le> pr_floor s'"
  by (cases rule: protocol_step.cases) (auto dest: wakes_fields)

fun answered :: "event \<Rightarrow> u32 option" where
  "answered (Answer c p csig) = Some c"
| "answered _ = None"

interpretation protocol: counter_run "protocol_step valid_sig" answered "\<lambda>_. True"
  "\<lambda>s c. c \<le> pr_floor s"
  for valid_sig
proof unfold_locales
  fix s s' ev and c c' :: u32
  assume st: "protocol_step valid_sig s ev s'"
  show "c \<le> pr_floor s \<Longrightarrow> c \<le> pr_floor s'"
    using protocol_floor_mono [OF st] by (rule order.trans [rotated])
  show "answered ev = Some c \<Longrightarrow> \<not> c \<le> pr_floor s"
    using st by (cases ev) (auto elim!: protocol_answerE dest: wakes_fields)
  show "answered ev = Some c \<Longrightarrow> c' \<le> c \<Longrightarrow> c' \<le> pr_floor s'"
    using st by (cases ev) (auto elim!: protocol_answerE)
qed simp

text \<open>Without a press nobody else becomes the client.\<close>

lemma protocol_key_needs_press:
  "run (protocol_step valid_sig) s evs s' \<Longrightarrow> \<not> pr_permit s \<Longrightarrow> Press \<notin> set evs \<Longrightarrow>
   pr_key s' = pr_key s \<and> \<not> pr_permit s' \<and> (\<forall>k. Acknowledge k \<notin> set evs)"
proof (induction rule: run.induct)
  case (run_cons s ev s1 evs s2)
  have "pr_key s1 = pr_key s \<and> \<not> pr_permit s1 \<and> (\<forall>k. ev \<noteq> Acknowledge k)"
    using run_cons.hyps(1) run_cons.prems
    by (cases rule: protocol_step.cases) (auto dest: wakes_fields)
  with run_cons show ?case by auto
qed simp

section \<open>The abstraction\<close>

definition flash_floor :: "('e \<Rightarrow> string \<Rightarrow> byte list option) \<Rightarrow> 'e \<Rightarrow> u32" where
  "flash_floor stored e = (case stored e ceiling_key of None \<Rightarrow> 0 | Some v \<Rightarrow> mem_u32 v)"

definition flash_key :: "('e \<Rightarrow> string \<Rightarrow> byte list option) \<Rightarrow> 'e \<Rightarrow> byte list option" where
  "flash_key stored e =
     (case stored e clientkey_key of None \<Rightarrow> None | Some k \<Rightarrow> if length k = 32 then Some k else None)"

definition ram_key :: "ClientKeyStore \<Rightarrow> byte list option" where
  "ram_key ks = (if HasKey ks then Some (Key ks) else None)"

text \<open>
  Before the first signed request of a boot the floor is in flash only; the client key is
  always there.
\<close>

definition abstraction :: "('e \<Rightarrow> string \<Rightarrow> byte list option) \<Rightarrow> 'e core \<Rightarrow> protocol" where
  "abstraction stored d =
     \<lparr>pr_self = (if gBundleLen d \<noteq> 0 then Some (gDevicePub d) else None),
      pr_floor = (if gReplayReady d then mFloor (gReplay d) else flash_floor stored (env d)),
      pr_key = flash_key stored (env d),
      pr_permit = (mWindowUntilMs (gStore d) \<noteq> 0)\<rparr>"

definition is_stale :: "byte list \<Rightarrow> bool" where
  "is_stale bs \<longleftrightarrow> bs \<noteq> [] \<and> bs ! 0 = kTypeReplayReject"

text \<open>
  The event in a label: what the device sent tells which, the request's fields at the time
  they were verified tell the rest.
\<close>

fun observe :: "label \<Rightarrow> event" where
  "observe (L_Request view cap reply) =
     (let bs = fst reply in
      case signed_parse (view 0) of
        None \<Rightarrow> (if is_ack bs then Acknowledge (take 32 (drop 3 bs))
                 else if bs = [kTypeAuthReject] then Refusal else Other)
      | Some (c, n, m) \<Rightarrow>
          (if response_counter bs \<noteq> None
           then Answer (the (response_counter bs)) (payload_at (view 1) n) (sig_at (view 2) n m)
           else if is_stale bs
           then Stale c (payload_at (view 1) n) (sig_at (view 2) n m) (ReadU32 (drop 1 bs))
           else if is_ack bs then Acknowledge (take 32 (drop 3 bs))
           else if bs = [kTypeAuthReject] then Refusal else Other))"
| "observe (L_Button b c) = (if (kRegisterButtonMask AND c) AND b \<noteq> 0 then Press else Other)"
| "observe L_Outside = Other"
| "observe L_PowerCycle = Reset"

text \<open>
  What makes the abstraction a simulation: RAM and flash agree on the client key while the
  guard runs, and before that RAM holds no key and no window is open.
\<close>

definition agree_inv :: "('e \<Rightarrow> string \<Rightarrow> byte list option) \<Rightarrow> 'e core \<Rightarrow> bool" where
  "agree_inv stored d \<longleftrightarrow>
     (if gReplayReady d
      then ram_key (gStore d) = flash_key stored (env d)
      else mWindowUntilMs (gStore d) = 0 \<and> \<not> HasKey (gStore d))"

definition sim_inv where
  "sim_inv P stored pubkey d \<longleftrightarrow>
     life_ok P stored {} d \<and> core_wf d \<and> keys_inv pubkey d \<and> agree_inv stored d"

lemma sim_inv_boot:
  "flash_reliable P stored \<Longrightarrow> stored e ceiling_key = None \<Longrightarrow> sim_inv P stored pubkey (boot e)"
  using device_inv_factory [of P stored "\<lambda>_ _. False" e]
  by (simp add: sim_inv_def life_ok_def device_inv_def drift_keeps_flash_def agree_inv_def)
     (simp add: boot_def new_store_def HasKey_def)

section \<open>Each operation under the abstraction\<close>

lemma sim_invD:
  assumes "sim_inv P stored pubkey d"
  shows "life_ok P stored {} d" "core_wf d" "keys_inv pubkey d" "agree_inv stored d"
    "flash_ok P stored" "flash_reliable P stored"
  using assms life_ok_flash [of P stored "{}" d] by (simp_all add: sim_inv_def life_ok_def life_inv_def)

text \<open>What depends on two flash entries and a few fields only.\<close>

lemma agree_inv_frame:
  assumes "agree_inv stored d" "gReplayReady d' = gReplayReady d"
    and "mKey (gStore d') = mKey (gStore d)" "mKeyLen (gStore d') = mKeyLen (gStore d)"
    and "mWindowUntilMs (gStore d') = mWindowUntilMs (gStore d)"
    and "stored (env d') clientkey_key = stored (env d) clientkey_key"
  shows "agree_inv stored d'"
proof -
  have "HasKey (gStore d') = HasKey (gStore d)" "ram_key (gStore d') = ram_key (gStore d)"
    "flash_key stored (env d') = flash_key stored (env d)"
    using assms by (simp_all add: ram_key_def HasKey_def Key_def flash_key_def)
  with assms show ?thesis by (simp add: agree_inv_def)
qed

lemma abstraction_frame:
  assumes "gBundleLen d' = gBundleLen d" "gDevicePub d' = gDevicePub d"
    and "gReplay d' = gReplay d" "gReplayReady d' = gReplayReady d"
    and "mWindowUntilMs (gStore d') = mWindowUntilMs (gStore d)"
    and "stored (env d') = stored (env d)"
  shows "abstraction stored d' = abstraction stored d"
  using assms by (simp add: abstraction_def flash_floor_def flash_key_def)

lemma EnsureBundle_sim:
  assumes K: "keys_ok P pubkey valid_sig" and E: "EnsureBundle P d = (ok, d')"
    and I: "sim_inv P stored pubkey d"
  shows "sim_inv P stored pubkey d'" "wakes (abstraction stored d) (abstraction stored d')"
proof -
  note i = sim_invD [OF I]
  note fr = EnsureBundle_frame [OF E]
  have st: "stored (env d') = stored (env d)"
    using EnsureBundle_steps [OF flash_okD(1) [OF i(5)] reflp_eq transp_eq E] .
  have "agree_inv stored d'" by (rule agree_inv_frame [OF i(4)]) (use fr st in simp_all)
  then show "sim_inv P stored pubkey d'"
    using EnsureBundle_life [OF E i(1)] EnsureBundle_wf [OF E i(2)] EnsureBundle_keys [OF K E i(3)]
    by (simp add: sim_inv_def)
  show "wakes (abstraction stored d) (abstraction stored d')"
  proof (cases "gBundleLen d = 0")
    case True
    then show ?thesis
      using fr st by (auto simp: wakes_def abstraction_def flash_floor_def flash_key_def)
  next
    case False
    with E have "d' = d" by (simp add: EnsureBundle_done)
    then show ?thesis by simp
  qed
qed

text \<open>Waking the guard is invisible: it takes floor and key from where they already were.\<close>

lemma flash_floor_asleep:
  assumes F: "flash_reliable P stored" and A: "asleep_inv stored e"
    and I: "ReplayGuard_Init P g e = (err, g', e')"
  shows "mFloor g' = flash_floor stored e"
proof (cases "stored e ceiling_key")
  case None
  then show ?thesis using first_boot_inv [OF F None I] by (simp add: flash_floor_def)
next
  case (Some v)
  then obtain w where w: "w \<noteq> 0" "stored e ceiling_key = Some (u32_mem w)"
    using A by (auto simp: asleep_inv_def)
  obtain rc e1 where init: "settings_subsys_init P e = (rc, e1)" by fastforce
  obtain calls rc' e2 where load: "settings_load_subtree_direct P ceiling_key e1 = (calls, rc', e2)"
    by (metis prod_cases3)
  have "rc = 0" using flash_reliableD(2) [OF F init] .
  then have "ReplayGuard_Init P g e = (CHIP_NO_ERROR, \<lparr>mFloor = w, mCeiling = w, mPersistent = True\<rparr>, e2)"
    using Init_stored [OF flash_reliableD(1,4) [OF F] _ w(2,1) load] init by simp
  with I w show ?thesis by (auto simp: flash_floor_def)
qed

lemma ClientKeyStore_Init_flash_key:
  assumes F: "flash_reliable P stored" and S: "store_wf ks" "\<not> HasKey ks"
    and I: "ClientKeyStore_Init P ks e = (err, ks', e')"
  shows "ram_key ks' = flash_key stored e"
proof -
  note fo = flash_reliableD(1) [OF F] and lf = flash_reliableD(4) [OF F]
  have e': "stored e' = stored e"
    using ClientKeyStore_Init_steps [OF flash_okD(1) [OF fo] transp_eq I] .
  show ?thesis
  proof (cases "HasKey ks'")
    case True
    have "stored e clientkey_key = Some (Key ks')"
      using ClientKeyStore_Init_loads [OF fo lf I] S(2) True e' by simp
    moreover have "length (Key ks') = 32"
      using length_Key [OF ClientKeyStore_Init_wf [OF I S(1)] True] .
    ultimately show ?thesis using True by (simp add: ram_key_def flash_key_def)
  next
    case False
    obtain rc e1 where init: "settings_subsys_init P e = (rc, e1)" by fastforce
    obtain calls rc' e2 where load: "settings_load_subtree_direct P clientkey_key e1 = (calls, rc', e2)"
      by (metis prod_cases3)
    have e1: "stored e1 = stored e" using steps_byD(1) [OF flash_okD(1) [OF fo] init] .
    have "rc = 0" using flash_reliableD(2) [OF F init] .
    have "length v \<noteq> 32" if v: "stored e clientkey_key = Some v" for v
    proof
      assume l: "length v = 32"
      then have "calls = [\<lparr>lc_len = 32, lc_ret = 32, lc_data = v\<rparr>]"
        using loads_faithfullyD(2) [OF lf load, of v] v e1 by simp
      then have "mKeyLen ks' = 32"
        using I init load \<open>rc = 0\<close>
        by (auto simp: ClientKeyStore_Init_def Let_def clientkey_LoadCb_def kKeySize_def)
      with False show False by (simp add: HasKey_def)
    qed
    with False show ?thesis by (auto simp: ram_key_def flash_key_def split: option.splits)
  qed
qed

lemma EnsureReplay_sim:
  assumes K: "keys_ok P pubkey valid_sig" and cfg: "CONFIG_TUNNEL_CLIENT_AUTH cfg"
    and E: "EnsureReplay P cfg d = (ok, d')" and I: "sim_inv P stored pubkey d"
  shows "sim_inv P stored pubkey d'" "abstraction stored d' = abstraction stored d" "ok"
proof -
  note i = sim_invD [OF I]
  have *: "agree_inv stored d' \<and> abstraction stored d' = abstraction stored d \<and> ok"
    using E
  proof (cases rule: EnsureReplay_cases)
    case ready
    with i(4) show ?thesis by simp
  next
    case (init_failed err g e)
    then have "asleep_inv stored (env d)" using i(1) by (simp add: life_ok_def life_inv_def)
    with Init_wakes(1) [OF i(6) _ init_failed(3)] init_failed(4) show ?thesis by simp
  next
    case (guard_only g e)
    with cfg show ?thesis by simp
  next
    case (with_store g e err ks e')
    have asleep: "asleep_inv stored (env d)"
      using i(1) with_store(1) by (simp add: life_ok_def life_inv_def)
    have ram: "mWindowUntilMs (gStore d) = 0" "\<not> HasKey (gStore d)"
      using i(4) with_store(1) by (simp_all add: agree_inv_def)
    have e: "stored e clientkey_key = stored (env d) clientkey_key"
      using Init_steps_other_key [OF i(5) with_store(4) keys_differ(1)] .
    have e': "stored e' = stored e"
      using ClientKeyStore_Init_steps [OF flash_okD(1) [OF i(5)] transp_eq with_store(5)] .
    have "flash_key stored e = flash_key stored (env d)" "flash_key stored e' = flash_key stored e"
      using e e' by (simp_all add: flash_key_def)
    moreover have "ram_key ks = flash_key stored e"
      by (rule ClientKeyStore_Init_flash_key [OF i(6) _ ram(2) with_store(5)])
         (use i(2) in \<open>simp add: core_wf_def\<close>)
    ultimately show ?thesis
      using with_store ram flash_floor_asleep [OF i(6) asleep with_store(4)]
        ClientKeyStore_Init_fields [OF with_store(5)]
      by (simp add: agree_inv_def abstraction_def)
  qed
  then show "abstraction stored d' = abstraction stored d" "ok" by simp_all
  show "sim_inv P stored pubkey d'"
    using * EnsureReplay_life [OF E i(1)] EnsureReplay_wf [OF E i(2)] EnsureReplay_keys [OF E i(3,2)]
    by (simp add: sim_inv_def)
qed

lemma auth_gate_sim:
  assumes K: "keys_ok P pubkey valid_sig" and cfg: "CONFIG_TUNNEL_CLIENT_AUTH cfg"
    and A: "auth_gate P cfg c p csig d = (r, d')" and I: "sim_inv P stored pubkey d"
    and ready: "gReplayReady d" "gBundleLen d \<noteq> 0"
  shows "sim_inv P stored pubkey d'" "abstraction stored d' = abstraction stored d"
    and "r = None \<Longrightarrow> authentic valid_sig (abstraction stored d') c p csig"
proof -
  note i = sim_invD [OF I]
  note fr = auth_gate_frame [OF A]
  have A': "authenticate P c p csig d = (r, d')" using A cfg by (simp add: auth_gate_def)
  note ks = authenticate_store [OF A']
  have st: "stored (env d') = stored (env d)"
    using authenticate_steps [OF flash_okD(1) [OF i(5)] reflp_eq transp_eq A'] .
  show abs: "abstraction stored d' = abstraction stored d"
    by (rule abstraction_frame) (use fr ks st in simp_all)
  have "agree_inv stored d'" by (rule agree_inv_frame [OF i(4)]) (use fr ks st in simp_all)
  then show "sim_inv P stored pubkey d'"
    using auth_gate_life [OF A i(1)] auth_gate_wf [OF A i(2) ready(1)] auth_gate_keys [OF K A i(3)]
    by (simp add: sim_inv_def)
  show "authentic valid_sig (abstraction stored d') c p csig" if "r = None"
    using A' [unfolded that]
  proof (cases rule: authenticate_passed_cases)
    case (1 pre ks e)
    have "valid_sig PSA_ALG_PURE_EDDSA (Key (gStore d)) pre csig"
      using store_Verify_keys(2) [OF K 1(3)] i(3) by (simp add: keys_inv_def)
    moreover have "flash_key stored (env d) = Some (Key (gStore d))"
      using i(4) ready(1) 1(1) by (simp add: agree_inv_def ram_key_def)
    ultimately show ?thesis
      unfolding abs authentic_def using ready(2) 1(2) by (simp add: abstraction_def)
  qed
qed

lemma consume_counter_sim:
  assumes K: "keys_ok P pubkey valid_sig" and C: "consume_counter P c d = (r, d')"
    and I: "sim_inv P stored pubkey d" and ready: "gReplayReady d"
  shows "sim_inv P stored pubkey d'"
    and "r = None \<Longrightarrow> pr_floor (abstraction stored d) < c \<and>
      abstraction stored d' = (abstraction stored d)\<lparr>pr_floor := c\<rparr>"
    and "r = Some reply \<Longrightarrow> abstraction stored d' = abstraction stored d \<and>
      (reply = ([], Failure) \<or> c \<le> pr_floor (abstraction stored d) \<and>
         fst reply = kTypeReplayReject # PutU32 (pr_floor (abstraction stored d)))"
proof -
  note i = sim_invD [OF I]
  note fr = consume_counter_frame [OF C]
  have st: "stored (env d') clientkey_key = stored (env d) clientkey_key"
    using C by (cases rule: consume_counter_cases)
      (use Accept_steps_other_key [OF i(5) _ keys_differ(1)] in auto)
  have "agree_inv stored d'" by (rule agree_inv_frame [OF i(4)]) (use fr st in simp_all)
  then show "sim_inv P stored pubkey d'"
    using consume_counter_life [OF C ready i(1)] consume_counter_wf [OF C i(2)]
      consume_counter_keys [OF K C i(3)] by (simp add: sim_inv_def)
  have key: "flash_key stored (env d') = flash_key stored (env d)" using st by (simp add: flash_key_def)
  show "pr_floor (abstraction stored d) < c \<and>
      abstraction stored d' = (abstraction stored d)\<lparr>pr_floor := c\<rparr>" if "r = None"
    using C that by (cases rule: consume_counter_cases)
      (use ready key in \<open>auto simp: abstraction_def IsFresh_def dest: Accept_okD(2)\<close>)
  show "abstraction stored d' = abstraction stored d \<and>
      (reply = ([], Failure) \<or> c \<le> pr_floor (abstraction stored d) \<and>
         fst reply = kTypeReplayReject # PutU32 (pr_floor (abstraction stored d)))"
    if "r = Some reply"
    using C that by (cases rule: consume_counter_cases)
      (use ready key in \<open>auto simp: abstraction_def IsFresh_def dest: Accept_fail_floor(1)\<close>)
qed

lemma Sign_sim:
  assumes K: "keys_ok P pubkey valid_sig" and S: "Sign P sg m n (env d) = (st, sig, e)"
    and I: "sim_inv P stored pubkey d"
  shows "sim_inv P stored pubkey (d\<lparr>env := e\<rparr>)" "abstraction stored (d\<lparr>env := e\<rparr>) = abstraction stored d"
proof -
  note i = sim_invD [OF I]
  have st: "stored e = stored (env d)" using Sign_steps [OF flash_okD(1) [OF i(5)] reflp_eq S] .
  show "abstraction stored (d\<lparr>env := e\<rparr>) = abstraction stored d"
    by (rule abstraction_frame) (use st in simp_all)
  have "keys_inv pubkey (d\<lparr>env := e\<rparr>)"
    using keys_inv_grow [OF i(3)] Sign_steps [OF keys_okD(1) [OF K] reflp_map_le S] by simp
  moreover have "agree_inv stored (d\<lparr>env := e\<rparr>)"
    by (rule agree_inv_frame [OF i(4)]) (use st in simp_all)
  ultimately show "sim_inv P stored pubkey (d\<lparr>env := e\<rparr>)"
    using Sign_life [OF S i(1)] i(2) by (simp add: sim_inv_def core_wf_def)
qed

lemma Register_sim:
  assumes R: "Register P k (gStore d) (env d) = (CHIP_NO_ERROR, ks, e)" and I: "sim_inv P stored pubkey d"
    and d': "d' = d\<lparr>gStore := ks, env := e\<rparr>"
  shows "sim_inv P stored pubkey d'" "pr_permit (abstraction stored d)" "length k = 32" "Key ks = k"
    "abstraction stored d' = (abstraction stored d)\<lparr>pr_key := Some k, pr_permit := False\<rparr>"
proof -
  note i = sim_invD [OF I]
  from R obtain e1 rc where r: "WindowOpen P (gStore d) (env d)" "length k = 32"
    "ks = (gStore d)\<lparr>mKey := k, mKeyLen := 32, mWindowUntilMs := 0, mImported := 0\<rparr>"
    "settings_save_one P clientkey_key k e1 = (rc, e)"
    by (rule Register_ok_cases)
  have "rc = 0" using flash_reliableD(3) [OF i(6) r(4)] .
  then have "stored e clientkey_key = Some k" using flash_okD(5) [OF i(5)] r(4) by blast
  then have key: "flash_key stored e = Some k" using r(2) by (simp add: flash_key_def)
  have ram: "ram_key ks = Some k" using r(2,3) by (simp add: ram_key_def HasKey_def Key_def)
  have open_window: "mWindowUntilMs (gStore d) \<noteq> 0" using r(1) by (simp add: WindowOpen_def)
  then have ready: "gReplayReady d" using i(4) by (simp add: agree_inv_def split: if_splits)
  show "length k = 32" by (rule r(2))
  show "Key ks = k" using ram by (simp add: ram_key_def split: if_splits)
  show "pr_permit (abstraction stored d)" using open_window by (simp add: abstraction_def)
  show "abstraction stored d' = (abstraction stored d)\<lparr>pr_key := Some k, pr_permit := False\<rparr>"
    using ready key by (simp add: abstraction_def d' r(3))
  have "core_wf d'"
    using i(2) Register_wf [OF R] ready by (simp add: d' core_wf_def) (simp add: r(3))
  moreover have "keys_inv pubkey d'" by (simp add: d' keys_inv_def r(3))
  moreover have "agree_inv stored d'" using ready key ram by (simp add: d' agree_inv_def)
  ultimately show "sim_inv P stored pubkey d'"
    using Register_life [OF R i(1)] d' by (simp add: sim_inv_def)
qed

section \<open>Every step of the device is a step of the protocol\<close>

lemma observe_quiet:
  "response_counter bs = None \<Longrightarrow> \<not> is_stale bs \<Longrightarrow> \<not> is_ack bs \<Longrightarrow> bs \<noteq> [kTypeAuthReject] \<Longrightarrow>
   observe (L_Request view cap (bs, r)) = Other"
  by (simp add: Let_def split: option.split)

lemma observe_rejected [simp]: "observe (L_Request view cap ([], r)) = Other"
  by (rule observe_quiet) (simp_all add: response_counter_def is_stale_def is_ack_def)

lemma observe_ack:
  assumes "length k = 32"
  shows "observe (L_Request view cap ([kTypeRegisterAck] @ put_field k @ x, r)) = Acknowledge k"
proof -
  let ?bs = "[kTypeRegisterAck] @ put_field k @ x"
  have "response_counter ?bs = None" "\<not> is_stale ?bs" "is_ack ?bs"
    by (simp_all add: response_counter_def is_stale_def is_ack_def type_defs)
  moreover have "take 32 (drop 3 ?bs) = k" using assms by (simp add: put_field_def put_u16_def)
  ultimately show ?thesis by (simp add: Let_def del: append.simps split: option.split)
qed

lemma observe_refusal [simp]: "observe (L_Request view cap ([kTypeAuthReject], r)) = Refusal"
proof -
  have "response_counter [kTypeAuthReject] = None" "\<not> is_stale [kTypeAuthReject]" "\<not> is_ack [kTypeAuthReject]"
    by (simp_all add: response_counter_def is_stale_def is_ack_def type_defs)
  then show ?thesis by (simp add: Let_def split: option.split)
qed

lemma observe_stale:
  "signed_parse (view 0) = Some (c, n, m) \<Longrightarrow>
   observe (L_Request view cap (kTypeReplayReject # PutU32 f, r)) =
     Stale c (payload_at (view 1) n) (sig_at (view 2) n m) f"
  using ReadU32_PutU32 [of f "[]"]
  by (simp add: Let_def response_counter_def is_stale_def type_defs)

lemma observe_answer:
  "signed_parse (view 0) = Some (c, n, m) \<Longrightarrow> response_counter bs = Some c \<Longrightarrow>
   observe (L_Request view cap (bs, r)) = Answer c (payload_at (view 1) n) (sig_at (view 2) n m)"
  by (simp add: Let_def)

declare observe.simps(1) [simp del]

lemma woken_sim:
  assumes K: "keys_ok P pubkey valid_sig" and cfg: "CONFIG_TUNNEL_CLIENT_AUTH cfg"
    and I: "sim_inv P stored pubkey d"
    and E: "EnsureBundle P d = (True, d1)" "EnsureReplay P cfg d1 = (True, d2)"
  shows "sim_inv P stored pubkey d2" and "wakes (abstraction stored d) (abstraction stored d2)"
    and "gReplayReady d2" and "gBundleLen d2 \<noteq> 0"
  using EnsureBundle_sim [OF K E(1) I] EnsureReplay_sim [OF K cfg E(2)] EnsureReplay_ok_ready [OF E(2)]
    EnsureReplay_frame [OF E(2)] EnsureBundle_ok_len [OF E(1)] by simp_all

lemma passed_sim:
  assumes K: "keys_ok P pubkey valid_sig" and cfg: "CONFIG_TUNNEL_CLIENT_AUTH cfg"
    and I: "sim_inv P stored pubkey d"
    and E: "EnsureBundle P d = (True, d1)" "EnsureReplay P cfg d1 = (True, d2)"
    and A: "auth_gate P cfg c p sg d2 = (None, d3)"
  shows "sim_inv P stored pubkey d3" and "wakes (abstraction stored d) (abstraction stored d3)"
    and "gReplayReady d3" and "authentic valid_sig (abstraction stored d3) c p sg"
  using woken_sim [OF K cfg I E] auth_gate_sim [OF K cfg A] auth_gate_frame [OF A] by simp_all

lemma sign_response_sim:
  assumes K: "keys_ok P pubkey valid_sig"
    and R: "sign_response P c p d = (res, d')" and I: "sim_inv P stored pubkey d"
  shows "sim_inv P stored pubkey d' \<and> abstraction stored d' = abstraction stored d"
  using R by (cases rule: sign_response_cases) (use Sign_sim [OF K _ I] I in auto)

text \<open>Once the counter is spent, whatever becomes of the response.\<close>

lemma spent_sim:
  assumes K: "keys_ok P pubkey valid_sig" and cfg: "CONFIG_TUNNEL_CLIENT_AUTH cfg"
    and I: "sim_inv P stored pubkey d"
    and E: "EnsureBundle P d = (True, d1)" "EnsureReplay P cfg d1 = (True, d2)"
    and A: "auth_gate P cfg c p sg d2 = (None, d3)"
    and C: "consume_counter P c d3 = (None, d4)" and S: "sign_response P c q d4 = (res, d5)"
  shows "sim_inv P stored pubkey d5 \<and> (\<exists>s1. wakes (abstraction stored d) s1 \<and>
    authentic valid_sig s1 c p sg \<and> pr_floor s1 < c \<and> abstraction stored d5 = s1\<lparr>pr_floor := c\<rparr>)"
  using passed_sim [OF K cfg I E A] consume_counter_sim(1,2) [OF K C] sign_response_sim [OF K S] by metis

lemma not_fresh_simulated:
  assumes K: "keys_ok P pubkey valid_sig" and cfg: "CONFIG_TUNNEL_CLIENT_AUTH cfg"
    and I: "sim_inv P stored pubkey d" and parse: "signed_parse (view 0) = Some (c, n, m)"
    and E: "EnsureBundle P d = (True, d1)" "EnsureReplay P cfg d1 = (True, d2)"
    and A: "auth_gate P cfg c (payload_at (view 1) n) (sig_at (view 2) n m) d2 = (None, d3)"
    and C: "consume_counter P c d3 = (Some (bs, r), d')"
  shows "sim_inv P stored pubkey d' \<and> protocol_step valid_sig (abstraction stored d)
    (observe (L_Request view cap (bs, r))) (abstraction stored d')"
proof -
  note p = passed_sim [OF K cfg I E A]
  note c = consume_counter_sim(1,3) [OF K C p(1,3)]
  have q: "sim_inv P stored pubkey d'" "abstraction stored d' = abstraction stored d3"
    "bs = [] \<or> (c \<le> pr_floor (abstraction stored d3) \<and>
       bs = kTypeReplayReject # PutU32 (pr_floor (abstraction stored d3)))"
    using c(1) c(2) [OF refl] by auto
  from q(3) show ?thesis
  proof
    assume "bs = []"
    with p q(1,2) show ?thesis by (simp add: protocol_step.idle)
  next
    assume "c \<le> pr_floor (abstraction stored d3) \<and>
      bs = kTypeReplayReject # PutU32 (pr_floor (abstraction stored d3))"
    with p q(1,2) observe_stale [where view = view, OF parse] show ?thesis
      by (auto intro: protocol_step.stale)
  qed
qed

lemma signed_request_simulated:
  assumes K: "keys_ok P pubkey valid_sig" and cfg: "CONFIG_TUNNEL_CLIENT_AUTH cfg"
    and S: "signed_request P cfg view cap d = ((bs, r), d')" and I: "sim_inv P stored pubkey d"
  shows "sim_inv P stored pubkey d' \<and> protocol_step valid_sig (abstraction stored d)
    (observe (L_Request view cap (bs, r))) (abstraction stored d')"
  using S
proof (cases rule: signed_request_cases)
  case malformed
  with I show ?thesis by (simp add: protocol_step.idle)
next
  case (no_bundle x)
  with EnsureBundle_sim [OF K no_bundle(2) I] show ?thesis by (simp add: protocol_step.idle)
next
  case (no_replay x d1)
  with EnsureBundle_sim [OF K no_replay(2) I] EnsureReplay_sim(3) [OF K cfg no_replay(3)]
  show ?thesis by blast
next
  case (refused c n m d1 d2)
  have "sim_inv P stored pubkey d' \<and> wakes (abstraction stored d) (abstraction stored d')"
    using woken_sim [OF K cfg I refused(2,3)] auth_gate_sim(1,2) [OF K cfg refused(4)] by simp
  with refusal_types(1) [OF refused(4)] show ?thesis
    by (auto intro: protocol_step.idle protocol_step.refusal)
next
  case (not_fresh c n m d1 d2 d3)
  show ?thesis by (rule not_fresh_simulated [where view = view, OF K cfg I not_fresh])
next
  case (unsigned c n m d1 d2 d3 d4)
  with spent_sim [OF K cfg I unsigned(2-6)] show ?thesis by (auto intro: protocol_step.spent)
next
  case (answered c n m d1 d2 d3 d4 sig)
  note sp = spent_sim [OF K cfg I answered(2-6)]
  show ?thesis
  proof (cases "bs = []")
    case True
    with sp show ?thesis by (auto intro: protocol_step.spent)
  next
    case False
    have "observe (L_Request view cap (bs, r)) =
        Answer c (payload_at (view 1) n) (sig_at (view 2) n m)"
      by (rule observe_answer [where view = view, OF answered(1) emitted_counter(1) [OF answered(7) False]])
    with sp show ?thesis by (auto intro: protocol_step.answer)
  qed
qed

lemma register_simulated:
  assumes K: "keys_ok P pubkey valid_sig"
    and R: "register_client_key P view cap d = ((bs, r), d')" and I: "sim_inv P stored pubkey d"
  shows "sim_inv P stored pubkey d' \<and> protocol_step valid_sig (abstraction stored d)
    (observe (L_Request view cap (bs, r))) (abstraction stored d')"
  using R
proof (cases rule: register_client_key_cases)
  case malformed
  with I show ?thesis by (simp add: protocol_step.idle)
next
  case no_bundle
  with EnsureBundle_sim [OF K no_bundle(1) I] show ?thesis by (simp add: protocol_step.idle)
next
  case (refused n d1 err)
  with EnsureBundle_sim [OF K refused(3) I] show ?thesis by (simp add: protocol_step.refusal)
next
  case (recorded n d1 ks e1 e2)
  let ?k = "take n (drop 3 (view 1))" and ?d = "d1\<lparr>gStore := ks, env := e1\<rparr>"
  note b = EnsureBundle_sim [OF K recorded(3) I]
  note g = Register_sim [OF recorded(4) b(1) refl]
  have "d' = ?d \<or> (\<exists>pre st sig. Sign P (gSigner ?d) pre kSignatureLen (env ?d) = (st, sig, e2) \<and>
      d' = ?d\<lparr>env := e2\<rparr>)"
    using recorded(5,6) by auto
  then have s: "sim_inv P stored pubkey d' \<and> abstraction stored d' = abstraction stored ?d"
    using g(1) Sign_sim [OF K _ g(1)] by blast
  have "bs = [] \<or> (\<exists>x. bs = [kTypeRegisterAck] @ put_field ?k @ x)"
    using recorded(6) g(4) by (auto split: if_splits)
  then have "observe (L_Request view cap (bs, r)) \<in> {Other, Acknowledge ?k}"
    using observe_ack [OF g(3)] by auto
  moreover have "protocol_step valid_sig (abstraction stored d) (Acknowledge ?k) (abstraction stored d')"
    and "protocol_step valid_sig (abstraction stored d) Other (abstraction stored d')"
    using s g(5) protocol_step.acknowledge [OF b(2) g(2,3)] protocol_step.recorded [OF b(2) g(2,3)]
    by simp_all
  ultimately show ?thesis using s by auto
qed

lemma request_simulated:
  assumes K: "keys_ok P pubkey valid_sig" and cfg: "CONFIG_TUNNEL_CLIENT_AUTH cfg"
    and S: "ProcessRequest_view P cfg view cap d = ((bs, r), d')" and I: "sim_inv P stored pubkey d"
  shows "sim_inv P stored pubkey d' \<and> protocol_step valid_sig (abstraction stored d)
    (observe (L_Request view cap (bs, r))) (abstraction stored d')"
  using S
proof (cases rule: ProcessRequest_view_arms)
  case other
  with I show ?thesis by (simp add: protocol_step.idle)
next
  case echo
  have "bs = [] \<or> bs ! 0 = kTypeEcho" using echo(2,3) by (auto simp: echo_request_def split: if_splits)
  then have "observe (L_Request view cap (bs, r)) = Other"
    by (auto intro!: observe_quiet simp: response_counter_def is_stale_def is_ack_def type_defs)
  with I echo(4) show ?thesis by (simp add: protocol_step.idle)
next
  case identity
  from identity(3) show ?thesis
  proof (cases rule: identity_request_cases)
    case malformed
    with I show ?thesis by (simp add: protocol_step.idle)
  next
    case chunk
    have "observe (L_Request view cap (bs, r)) = Other"
      by (rule observe_quiet) (simp_all add: chunk(6) response_counter_def is_stale_def is_ack_def type_defs)
    with EnsureBundle_sim [OF K chunk(1) I] show ?thesis by (simp add: protocol_step.idle)
  next
    case no_bundle
    with EnsureBundle_sim [OF K no_bundle(1) I] show ?thesis by (simp add: protocol_step.idle)
  next
    case constraint
    with EnsureBundle_sim [OF K constraint(1) I] show ?thesis by (simp add: protocol_step.idle)
  qed
next
  case signed
  show ?thesis by (rule signed_request_simulated [OF K cfg signed(3) I])
next
  case register
  show ?thesis by (rule register_simulated [OF K register(4) I])
qed

lemma button_simulated:
  fixes stored :: "'e \<Rightarrow> string \<Rightarrow> byte list option"
  assumes "sim_inv P stored pubkey d" and d': "d' = d\<lparr>gStore := button_event P b c (env d) (gStore d)\<rparr>"
  shows "life_ok P stored {} d' \<and> agree_inv stored d' \<and>
    protocol_step valid_sig (abstraction stored d) (observe (L_Button b c)) (abstraction stored d')"
proof (cases "(kRegisterButtonMask AND c) AND b \<noteq> 0")
  case True
  note i = sim_invD [OF assms(1)]
  have same: "ram_key (gStore d') = ram_key (gStore d)" "HasKey (gStore d') = HasKey (gStore d)"
    using d' by (simp_all add: ram_key_def HasKey_def Key_def)
  have "agree_inv stored d'"
  proof (cases "gReplayReady d")
    case True
    with i(4) same d' show ?thesis by (simp add: agree_inv_def)
  next
    case False
    then have "mHandlersAdded (gStore d) = 0" using i(2) by (simp add: core_wf_def)
    then have "d' = d" using d' by (simp add: button_event_def)
    with i(4) show ?thesis by simp
  qed
  moreover have "life_ok P stored {} d'" by (rule life_ok_frame [OF i(1)]) (use d' in simp_all)
  moreover have "abstraction stored d' =
      (abstraction stored d)\<lparr>pr_permit := mWindowUntilMs (gStore d') \<noteq> 0\<rparr>"
    using d' by (simp add: abstraction_def)
  ultimately show ?thesis using True by (simp add: protocol_step.press)
next
  case False
  then have "d' = d" using d' by (simp add: button_event_def ButtonHandler_def)
  with False sim_invD(1,4) [OF assms(1)] show ?thesis by (simp add: protocol_step.idle)
qed

lemma drift_simulated:
  assumes "sim_inv P stored pubkey d" and D: "drift_keeps_flash stored drift" "drift (env d) e"
    and d': "d' = d\<lparr>env := e\<rparr>"
  shows "life_ok P stored {} d' \<and> agree_inv stored d' \<and> abstraction stored d' = abstraction stored d"
proof -
  note i = sim_invD [OF assms(1)]
  have st: "stored e ceiling_key = stored (env d) ceiling_key"
    "stored e clientkey_key = stored (env d) clientkey_key"
    using D by (simp_all add: drift_keeps_flash_def)
  have "life_ok P stored {} d'" by (rule life_ok_frame [OF i(1)]) (use d' st in simp_all)
  moreover have "agree_inv stored d'" by (rule agree_inv_frame [OF i(4)]) (use d' st in simp_all)
  ultimately show ?thesis using st d' by (simp add: abstraction_def flash_floor_def flash_key_def)
qed

text \<open>A power cycle, wherever it interrupts \<open>Accept\<close>: the stored ceiling is at or above the floor.\<close>

lemma power_cycle_floor:
  assumes "life_inv P stored d"
    and lost: "lost = env d \<or> (gReplayReady d \<and> power_loss_point P (gReplay d, env d) lost)"
      "stored e = stored lost"
  shows "pr_floor (abstraction stored d) \<le> flash_floor stored e"
proof (cases "gReplayReady d")
  case True
  have b: "\<not> gReplayReady (boot e)" "env (boot e) = e" by (simp_all add: boot_def)
  from True have "life_spent stored d (mFloor (gReplay d))" by (simp add: life_spent_def)
  then have "life_spent stored (boot e) (mFloor (gReplay d))" by (rule power_life(2) [OF assms])
  then show ?thesis using True b by (auto simp: life_spent_def abstraction_def flash_floor_def)
next
  case False
  with lost show ?thesis by (simp add: abstraction_def flash_floor_def)
qed

lemma power_simulated:
  assumes "sim_inv P stored pubkey d"
    and lost: "lost = env d \<or> (gReplayReady d \<and> power_loss_point P (gReplay d, env d) lost)"
      "stored e = stored lost"
  shows "life_ok P stored {} (boot e) \<and> agree_inv stored (boot e) \<and>
    protocol_step valid_sig (abstraction stored d) Reset (abstraction stored (boot e))"
proof -
  note i = sim_invD [OF assms(1)]
  have b: "\<not> gReplayReady (boot e)" "env (boot e) = e" "gBundleLen (boot e) = 0"
    "mWindowUntilMs (gStore (boot e)) = 0" "\<not> HasKey (gStore (boot e))"
    by (simp_all add: boot_def new_store_def HasKey_def)
  have L: "life_inv P stored d" using i(1) by (simp add: life_ok_def)
  have "stored lost clientkey_key = stored (env d) clientkey_key"
    using lost(1) power_loss_clientkey [OF i(5)] by auto
  then have "flash_key stored e = flash_key stored (env d)"
    using lost(2) by (simp add: flash_key_def)
  then have "(abstraction stored d)\<lparr>pr_self := None, pr_floor := flash_floor stored e, pr_permit := False\<rparr> =
      abstraction stored (boot e)"
    using b by (simp add: abstraction_def)
  with protocol_step.reset [OF power_cycle_floor [OF L lost], of valid_sig]
  have "protocol_step valid_sig (abstraction stored d) Reset (abstraction stored (boot e))" by simp
  moreover have "life_ok P stored {} (boot e)" using power_life(1) [OF L lost] by (simp add: life_ok_def)
  ultimately show ?thesis using b by (simp add: agree_inv_def)
qed

lemma dev_step_simulated:
  assumes K: "keys_ok P pubkey valid_sig" and cfg: "CONFIG_TUNNEL_CLIENT_AUTH cfg"
    and D: "drift_keeps_flash stored drift" "drift_keeps_keys pubkey drift"
    and st: "dev_step P cfg stored drift d l d'" and I: "sim_inv P stored pubkey d"
  shows "sim_inv P stored pubkey d' \<and>
    protocol_step valid_sig (abstraction stored d) (observe l) (abstraction stored d')"
proof -
  have wf: "core_wf d'" "keys_inv pubkey d'"
    using sim_invD [OF I] dev_step_wf [OF st] dev_step_keys [OF K D(2) st] by simp_all
  from st show ?thesis
  proof (cases rule: dev_step_cases)
    case (request view cap bs r)
    with request_simulated [OF K cfg request(2) I] show ?thesis by simp
  next
    case (button b c)
    with button_simulated [OF I button(2)] wf show ?thesis by (simp add: sim_inv_def)
  next
    case (outside e)
    with drift_simulated [OF I D(1) outside(2,3)] wf show ?thesis
      by (simp add: sim_inv_def protocol_step.idle)
  next
    case (power e lost)
    with power_simulated [OF I power(3,4)] wf show ?thesis by (simp add: sim_inv_def)
  qed
qed

lemma run_simulated:
  assumes K: "keys_ok P pubkey valid_sig" and cfg: "CONFIG_TUNNEL_CLIENT_AUTH cfg"
    and D: "drift_keeps_flash stored drift" "drift_keeps_keys pubkey drift"
  shows "run (dev_step P cfg stored drift) d ls d' \<Longrightarrow> sim_inv P stored pubkey d \<Longrightarrow>
    sim_inv P stored pubkey d' \<and>
    run (protocol_step valid_sig) (abstraction stored d) (map observe ls) (abstraction stored d')"
proof (induction rule: run.induct)
  case (run_cons d l d1 ls d2)
  from dev_step_simulated [OF K cfg D run_cons.hyps(1) run_cons.prems] run_cons.IH
  show ?case by (auto intro: run.run_cons)
qed simp

end
