(* ===== verification/Client_Service.thy ===== *)
theory Client_Service
  imports Abstract_Protocol
begin

text \<open>
  The client's side of a signed exchange, as \<open>tunnel_replay.h\<close> describes it: a request whose
  counter has fallen behind comes back with the device's floor, and the client retries just
  above it. \<open>resync_service\<close> is what the client relies on; the core provides it while flash
  and crypto calls succeed.
\<close>

section \<open>The client\<close>

text \<open>
  \<open>exchange c\<close> sends the request signed for counter \<open>c\<close> and returns what comes back; the
  number bounds the exchanges.
\<close>

fun client_call ::
  "(u32 \<Rightarrow> 's \<Rightarrow> (byte list \<times> reject) \<times> 's) \<Rightarrow> nat \<Rightarrow> u32 \<Rightarrow> 's \<Rightarrow> byte list option \<times> 's" where
  "client_call exchange 0 c s = (None, s)"
| "client_call exchange (Suc k) c s =
     (let ((bs, r), s) = exchange c s
      in if response_counter bs = Some c then (Some bs, s)
         else if is_stale bs then client_call exchange k (ReadU32 (drop 1 bs) + 1) s
         else (None, s))"

locale resync_service =
  fixes exchange :: "u32 \<Rightarrow> 's \<Rightarrow> (byte list \<times> reject) \<times> 's"
    and inv :: "'s \<Rightarrow> bool" and floor_of :: "'s \<Rightarrow> u32"
  assumes fresh_answered: "inv s \<Longrightarrow> floor_of s < c \<Longrightarrow> unat c + 64 < 2 ^ 32 \<Longrightarrow>
      \<exists>bs s'. exchange c s = ((bs, Reject_None), s') \<and> response_counter bs = Some c \<and>
        inv s' \<and> floor_of s' = c"
    and stale_told: "inv s \<Longrightarrow> c \<le> floor_of s \<Longrightarrow>
      \<exists>s'. exchange c s = ((kTypeReplayReject # PutU32 (floor_of s), Reject_None), s') \<and>
        inv s' \<and> floor_of s' = floor_of s"
begin

definition next_counter :: "u32 \<Rightarrow> 's \<Rightarrow> u32" where
  "next_counter c s = (if floor_of s < c then c else floor_of s + 1)"

lemma two_exchanges:
  assumes inv: "inv s" and room: "unat (next_counter c s) + 64 < 2 ^ 32"
    and "unat (floor_of s) < 2 ^ 32 - 1"
  shows "\<exists>bs s'. client_call exchange 2 c s = (Some bs, s') \<and>
    response_counter bs = Some (next_counter c s) \<and> inv s' \<and> floor_of s' = next_counter c s"
proof (cases "floor_of s < c")
  case True
  then obtain bs s' where "exchange c s = ((bs, Reject_None), s')" "response_counter bs = Some c"
    "inv s'" "floor_of s' = c"
    using fresh_answered [OF inv True] room by (auto simp: next_counter_def)
  then show ?thesis using True by (simp add: next_counter_def numeral_2_eq_2)
next
  case False
  then obtain s1 where e1: "exchange c s = ((kTypeReplayReject # PutU32 (floor_of s), Reject_None), s1)"
    and i1: "inv s1" "floor_of s1 = floor_of s"
    using stale_told [OF inv, of c] by (auto simp: not_less)
  let ?c = "floor_of s + 1"
  have "floor_of s1 < ?c"
    using assms(3) i1(2) by (simp add: word_less_nat_alt unat_word_ariths)
  then obtain bs s2 where e2: "exchange ?c s1 = ((bs, Reject_None), s2)" "response_counter bs = Some ?c"
    "inv s2" "floor_of s2 = ?c"
    using fresh_answered [OF i1(1), of ?c] room False by (auto simp: next_counter_def)
  have told: "response_counter (kTypeReplayReject # x) = None" "is_stale (kTypeReplayReject # x)" for x
    by (simp_all add: response_counter_def is_stale_def type_defs)
  have "ReadU32 (PutU32 (floor_of s)) = floor_of s" using ReadU32_PutU32 [of _ "[]"] by simp
  then show ?thesis
    using e1 e2 told False by (simp add: next_counter_def numeral_2_eq_2)
qed

end

section \<open>The core provides it\<close>

text \<open>
  The calls of a signed exchange succeed: \<open>csign\<close> makes signatures that the key store
  verifies, the device's signer signs, a ceiling can be saved; \<open>healthy\<close> is the condition
  under which they do, and they keep it.
\<close>

definition crypto_serves ::
  "'e platform \<Rightarrow> Signer \<Rightarrow> (byte list \<Rightarrow> byte list) \<Rightarrow> (ClientKeyStore \<Rightarrow> 'e \<Rightarrow> bool) \<Rightarrow> bool" where
  "crypto_serves P sg csign healthy \<longleftrightarrow>
     (\<forall>m ks e. healthy ks e \<longrightarrow>
        (\<exists>ks' e'. store_Verify P m (csign m) ks e = (0, ks', e') \<and> healthy ks' e')) \<and>
     (\<forall>m ks e. healthy ks e \<longrightarrow>
        (\<exists>sig e'. Sign P sg m kSignatureLen e = (0, sig, e') \<and> healthy ks e')) \<and>
     (\<forall>v ks e. healthy ks e \<longrightarrow>
        (\<exists>e'. settings_save_one P ceiling_key (u32_mem v) e = (0, e') \<and> healthy ks e'))"

text \<open>The request for counter \<open>c\<close>, signed for the device with public key \<open>dev\<close>.\<close>

definition signed_for ::
  "(byte list \<Rightarrow> byte list) \<Rightarrow> byte list \<Rightarrow> byte list \<Rightarrow> u32 \<Rightarrow> byte list" where
  "signed_for csign dev payload c =
     encode_signed c payload (csign (snd (BuildPreimage kDirRequest c dev payload 700)))"

definition service_inv ::
  "'e platform \<Rightarrow> config \<Rightarrow> (byte list \<Rightarrow> byte list) \<Rightarrow> byte list \<Rightarrow> byte list \<Rightarrow> nat \<Rightarrow>
   (ClientKeyStore \<Rightarrow> 'e \<Rightarrow> bool) \<Rightarrow> 'e core \<Rightarrow> bool" where
  "service_inv P cfg csign dev payload cap healthy d \<longleftrightarrow>
     CONFIG_TUNNEL_SECURITY cfg \<and> CONFIG_TUNNEL_CLIENT_AUTH cfg \<and>
     gBundleLen d \<noteq> 0 \<and> gReplayReady d \<and> gDevicePub d = dev \<and> length dev \<le> kPublicKeyLenMax \<and>
     length payload \<le> 256 \<and> length payload + 73 \<le> cap \<and> (\<forall>m. length (csign m) < 65536) \<and>
     crypto_serves P (gSigner d) csign healthy \<and> healthy (gStore d) (env d)"

lemma service_preimage:
  "service_inv P cfg csign dev payload cap healthy d \<Longrightarrow>
   \<exists>pre. BuildPreimage dir c dev payload 700 = (CHIP_NO_ERROR, pre)"
  using BuildPreimage_success_iff [of dir c dev payload 700]
  by (cases "BuildPreimage dir c dev payload 700") (simp add: service_inv_def kPublicKeyLenMax_def)

lemma store_Verify_HasKey: "store_Verify P m s ks e = (0, ks', e') \<Longrightarrow> HasKey ks"
  by (cases "mKeyLen ks = 0") (simp_all add: store_Verify_def HasKey_def)

lemma signed_for_dispatch:
  "CONFIG_TUNNEL_SECURITY cfg \<Longrightarrow>
   ProcessRequest P cfg (signed_for csign dev payload c) cap d =
     signed_request P cfg (\<lambda>_. signed_for csign dev payload c) cap d"
  by (simp add: ProcessRequest_def ProcessRequest_view_def Let_def signed_for_def encode_signed_def
      type_defs)

lemma service_fields:
  assumes "service_inv P cfg csign dev payload cap healthy d"
    and "pre = snd (BuildPreimage kDirRequest c dev payload 700)"
  shows "signed_parse (signed_for csign dev payload c) = Some (c, length payload, length (csign pre))"
    "payload_at (signed_for csign dev payload c) (length payload) = payload"
    "sig_at (signed_for csign dev payload c) (length payload) (length (csign pre)) = csign pre"
  using signed_parse_encode [of payload "csign pre" c "[]"] assms
  by (simp_all add: service_inv_def signed_for_def)

text \<open>\<open>Accept\<close> fails for a fresh counter only at the end of the range or when a save does.\<close>

lemma Accept_serves:
  assumes "crypto_serves P sg csign healthy" "healthy ks e"
    and "IsFresh g c" "unat c + 64 < 2 ^ 32"
  shows "\<exists>g' e'. Accept P c g e = (CHIP_NO_ERROR, g', e') \<and> healthy ks e'"
proof (cases "c < mCeiling g")
  case True
  with assms show ?thesis by (auto simp: Accept_within_reservation)
next
  case False
  have "\<not> c + kReserve < c" using assms(4) by (simp add: wrap_guard_iff)
  moreover obtain e' where "settings_save_one P ceiling_key (u32_mem (c + kReserve)) e = (0, e')" "healthy ks e'"
    using assms(1,2) unfolding crypto_serves_def by blast
  ultimately show ?thesis
    using False assms(2,3) by (auto simp: Accept_def PersistCeiling_def Let_def)
qed

lemma service_fresh:
  assumes inv: "service_inv P cfg csign dev payload cap healthy d"
    and c: "mFloor (gReplay d) < c" "unat c + 64 < 2 ^ 32"
  shows "\<exists>bs d'. ProcessRequest P cfg (signed_for csign dev payload c) cap d = ((bs, Reject_None), d') \<and>
    response_counter bs = Some c \<and> service_inv P cfg csign dev payload cap healthy d' \<and>
    mFloor (gReplay d') = c"
proof -
  let ?req = "signed_for csign dev payload c"
  have s: "CONFIG_TUNNEL_SECURITY cfg" "CONFIG_TUNNEL_CLIENT_AUTH cfg" "gBundleLen d \<noteq> 0"
    "gReplayReady d" "gDevicePub d = dev" "length payload \<le> 256" "length payload + 73 \<le> cap"
    "crypto_serves P (gSigner d) csign healthy" "healthy (gStore d) (env d)"
    using inv by (simp_all add: service_inv_def)
  obtain pre where pre: "BuildPreimage kDirRequest c dev payload 700 = (CHIP_NO_ERROR, pre)"
    using service_preimage [OF inv] by blast
  obtain pre' where pre': "BuildPreimage kDirResponse c dev payload 700 = (CHIP_NO_ERROR, pre')"
    using service_preimage [OF inv] by blast
  obtain ks e1 where v: "store_Verify P pre (csign pre) (gStore d) (env d) = (0, ks, e1)" "healthy ks e1"
    using s(8,9) unfolding crypto_serves_def by blast
  have "IsFresh (gReplay d) c" using c(1) by (simp add: IsFresh_def)
  then obtain g e2 where a: "Accept P c (gReplay d) e1 = (CHIP_NO_ERROR, g, e2)" "healthy ks e2"
    using Accept_serves [OF s(8) v(2) _ c(2)] by blast
  obtain sig e3 where sg: "Sign P (gSigner d) pre' kSignatureLen e2 = (0, sig, e3)" "healthy ks e3"
    using s(8) a(2) unfolding crypto_serves_def by blast
  note f = service_fields [OF inv, where pre = pre and c = c, unfolded pre, OF snd_conv [symmetric]]
  let ?d = "d\<lparr>gStore := ks, gReplay := g, env := e3\<rparr>"
  have "signed_request P cfg (\<lambda>_. ?req) cap d =
    (([kTypeSignedResponse] @ PutU32 c @ put_u16 (length payload) @ payload_at ?req (length payload)
        @ put_u16 (length sig) @ sig, Reject_None), ?d)"
    by (rule signed_request_answers [where m = "length (csign pre)" and pre = pre and pre' = pre'
          and ?e1.0 = e1 and ?e2.0 = e2])
       (use s store_Verify_HasKey [OF v(1)] pre pre' v a sg f in simp_all)
  moreover have "service_inv P cfg csign dev payload cap healthy ?d"
    using inv sg(2) by (simp add: service_inv_def)
  moreover have "response_counter ([kTypeSignedResponse] @ PutU32 c @ x) = Some c" for x
    by (simp add: response_counter_def)
  moreover have "mFloor (gReplay ?d) = c" using Accept_okD(2) [OF a(1)] by simp
  ultimately show ?thesis unfolding signed_for_dispatch [OF s(1)] by blast
qed

lemma service_stale:
  assumes inv: "service_inv P cfg csign dev payload cap healthy d" and c: "c \<le> mFloor (gReplay d)"
  shows "\<exists>d'. ProcessRequest P cfg (signed_for csign dev payload c) cap d =
      ((kTypeReplayReject # PutU32 (mFloor (gReplay d)), Reject_None), d') \<and>
    service_inv P cfg csign dev payload cap healthy d' \<and> gReplay d' = gReplay d"
proof -
  let ?req = "signed_for csign dev payload c"
  have s: "CONFIG_TUNNEL_SECURITY cfg" "CONFIG_TUNNEL_CLIENT_AUTH cfg" "gBundleLen d \<noteq> 0"
    "gReplayReady d" "gDevicePub d = dev"
    "crypto_serves P (gSigner d) csign healthy" "healthy (gStore d) (env d)"
    using inv by (simp_all add: service_inv_def)
  obtain pre where pre: "BuildPreimage kDirRequest c dev payload 700 = (CHIP_NO_ERROR, pre)"
    using service_preimage [OF inv] by blast
  obtain ks e1 where v: "store_Verify P pre (csign pre) (gStore d) (env d) = (0, ks, e1)" "healthy ks e1"
    using s(6,7) unfolding crypto_serves_def by blast
  note f = service_fields [OF inv, where pre = pre and c = c, unfolded pre, OF snd_conv [symmetric]]
  let ?d = "d\<lparr>gStore := ks, env := e1\<rparr>"
  have "authenticate P c payload (csign pre) d = (None, ?d)"
    using store_Verify_HasKey [OF v(1)] pre v(1) s(5) by (simp add: authenticate_def)
  moreover have "consume_counter P c ?d =
      (Some (kTypeReplayReject # PutU32 (mFloor (gReplay d)), Reject_None), ?d)"
    using c by (simp add: consume_counter_def IsFresh_def not_less)
  ultimately have "signed_request P cfg (\<lambda>_. ?req) cap d =
      ((kTypeReplayReject # PutU32 (mFloor (gReplay d)), Reject_None), ?d)"
    using f s(2) EnsureBundle_done [OF s(3), of P] EnsureReplay_ready [OF s(4), of P cfg]
    by (simp add: signed_request_def)
  moreover have "service_inv P cfg csign dev payload cap healthy ?d"
    using inv v(2) by (simp add: service_inv_def)
  ultimately show ?thesis
    unfolding signed_for_dispatch [OF s(1)] by (intro exI [of _ ?d]) simp
qed

interpretation core_service: resync_service
  "\<lambda>c. ProcessRequest P cfg (signed_for csign dev payload c) cap"
  "service_inv P cfg csign dev payload cap healthy" "\<lambda>d. mFloor (gReplay d)"
  for P :: "'e platform" and cfg csign dev payload cap healthy
  by unfold_locales (blast intro: service_fresh, metis service_stale)

text \<open>The locale's result, over the core.\<close>

lemma core_resynchronises:
  assumes "service_inv P cfg csign dev payload cap healthy d"
    and "unat c + 64 < 2 ^ 32" "unat (mFloor (gReplay d)) + 65 < 2 ^ 32"
    and "c' = (if mFloor (gReplay d) < c then c else mFloor (gReplay d) + 1)"
  shows "\<exists>bs d'. client_call (\<lambda>c. ProcessRequest P cfg (signed_for csign dev payload c) cap) 2 c d =
      (Some bs, d') \<and> response_counter bs = Some c' \<and> mFloor (gReplay d') = c' \<and>
    service_inv P cfg csign dev payload cap healthy d'"
proof -
  have n: "core_service.next_counter c d = c'" by (simp add: core_service.next_counter_def assms(4))
  have "unat (mFloor (gReplay d) + 1) = unat (mFloor (gReplay d)) + 1"
    using assms(3) by (simp add: unat_word_ariths)
  then have "unat c' + 64 < 2 ^ 32" using assms(2-4) by simp
  with core_service.two_exchanges [OF assms(1), of c, unfolded n] assms(3) show ?thesis by auto
qed

section \<open>Pairing\<close>

definition registration_of :: "byte list \<Rightarrow> byte list" where
  "registration_of key = [kTypeRegisterClientKey] @ put_field key"

text \<open>With the window open, a key of the right length is recorded and acknowledged.\<close>

lemma registration_reply:
  assumes cfg: "CONFIG_TUNNEL_SECURITY cfg" "CONFIG_TUNNEL_CLIENT_AUTH cfg"
    and d: "gBundleLen d \<noteq> 0" "length (gDevicePub d) \<le> kPublicKeyLenMax" "101 \<le> cap"
    and key: "length key = 32"
    and reg: "Register P key (gStore d) (env d) = (CHIP_NO_ERROR, ks, e1)"
  obtains pre where "Key ks = key"
    "\<And>sig e2. Sign P (gSigner d) pre kSignatureLen e1 = (0, sig, e2) \<Longrightarrow>
      ProcessRequest P cfg (registration_of key) cap d =
        (([kTypeRegisterAck] @ put_field key @ put_field sig, Reject_None), d\<lparr>gStore := ks, env := e2\<rparr>)"
proof -
  let ?inp = "registration_of key"
  have ks: "Key ks = key"
    using reg by (rule Register_ok_cases) (use key in \<open>simp add: Key_def\<close>)
  have n: "3 + 32 \<le> length ?inp" "32 = read_u16 (?inp ! 1) (?inp ! 2)" "take 32 (drop 3 ?inp) = key"
    using key read_u16_put_u16 [of 32] by (simp_all add: registration_of_def put_field_def put_u16_def)
  obtain pre where pre: "BuildPreimage kDirResponse 0 (gDevicePub d) (Key ks) 256 = (CHIP_NO_ERROR, pre)"
    using BuildPreimage_success_iff [of kDirResponse 0 "gDevicePub d" key 256] d(2) key ks
    by (cases "BuildPreimage kDirResponse 0 (gDevicePub d) key 256") (simp add: kPublicKeyLenMax_def)
  have "ProcessRequest P cfg ?inp cap d =
      (([kTypeRegisterAck] @ put_field key @ put_field sig, Reject_None), d\<lparr>gStore := ks, env := e2\<rparr>)"
    if sig: "Sign P (gSigner d) pre kSignatureLen e1 = (0, sig, e2)" for sig e2
  proof -
    have "register_client_key P (\<lambda>_. ?inp) cap d =
        (([kTypeRegisterAck] @ put_field key @ put_field sig, Reject_None), d\<lparr>gStore := ks, env := e2\<rparr>)"
      using register_client_key_recorded [where view = "\<lambda>_. ?inp", OF n(1,2) EnsureBundle_done [OF d(1)] _ pre sig,
          of cap] reg n(3) ks d(3) key
      by (simp add: put_field_def)
    then show ?thesis
      using cfg by (simp add: ProcessRequest_def ProcessRequest_view_def registration_of_def Let_def type_defs)
  qed
  with ks that show thesis by blast
qed

lemma registration_acknowledged:
  assumes cfg: "CONFIG_TUNNEL_SECURITY cfg" "CONFIG_TUNNEL_CLIENT_AUTH cfg"
    and d: "gBundleLen d \<noteq> 0" "length (gDevicePub d) \<le> kPublicKeyLenMax" "101 \<le> cap"
    and key: "length key = 32"
    and reg: "Register P key (gStore d) (env d) = (CHIP_NO_ERROR, ks, e1)"
    and srv: "crypto_serves P (gSigner d) csign healthy" "healthy ks e1"
  shows "\<exists>ack e2. ProcessRequest P cfg (registration_of key) cap d =
      ((ack, Reject_None), d\<lparr>gStore := ks, env := e2\<rparr>) \<and> is_ack ack \<and> Key ks = key \<and> healthy ks e2"
proof -
  obtain pre where ks: "Key ks = key"
    and reply: "\<And>sig e2. Sign P (gSigner d) pre kSignatureLen e1 = (0, sig, e2) \<Longrightarrow>
      ProcessRequest P cfg (registration_of key) cap d =
        (([kTypeRegisterAck] @ put_field key @ put_field sig, Reject_None), d\<lparr>gStore := ks, env := e2\<rparr>)"
    using registration_reply [OF cfg d key reg] by blast
  obtain sig e2 where "Sign P (gSigner d) pre kSignatureLen e1 = (0, sig, e2)" "healthy ks e2"
    using srv unfolding crypto_serves_def by blast
  with reply ks show ?thesis by (auto simp: is_ack_def)
qed

text \<open>A press makes the window last for the time the file header promises.\<close>

lemma Register_after_press:
  assumes "mHandlersAdded ks \<noteq> 0" and m: "(kRegisterButtonMask AND has_changed) AND button_state \<noteq> 0"
    and t: "0 \<le> k_uptime_get P e" "k_uptime_get P e1 < k_uptime_get P e + kRegistrationWindowMs"
    and key: "length key = 32"
  shows "\<exists>ks' e2. Register P key (button_event P button_state has_changed e ks) e1 =
    (CHIP_NO_ERROR, ks', e2)"
proof -
  have "WindowOpen P (button_event P button_state has_changed e ks) e1"
    using OpenWindow_until [OF t(1), of ks e1] assms(1) m t(2)
    by (simp add: button_event_def ButtonHandler_def)
  then show ?thesis
    using key by (auto simp: Register_def Let_def kKeySize_def split: prod.splits)
qed

end
