(* ===== verification/Demo_Platform.thy ===== *)
theory Demo_Platform
  imports Startup Identity_Fetch Client_Service
begin

text \<open>
  A concrete outside world, for the witnesses: a settings map, a key table, a clock, a cycle
  counter and a switch that makes saves fail. Signatures are a toy function of key and
  message. It shows that the named hypotheses on a platform can hold together, and lets the
  whole program be run inside the logic. No property is about it.
\<close>

section \<open>The world\<close>

record world =
  w_flash :: "string \<Rightarrow> byte list option"
  w_keys :: "u32 \<Rightarrow> byte list option"
  w_next :: u32
  w_time :: int
  w_cycles :: u32
  w_save_fails :: bool

definition toy_sig :: "byte list \<Rightarrow> byte list \<Rightarrow> byte list" where
  "toy_sig k m = take 64 (rev m @ k)"

definition toy_valid :: "psa_alg \<Rightarrow> byte list \<Rightarrow> byte list \<Rightarrow> byte list \<Rightarrow> bool" where
  "toy_valid a k m s \<longleftrightarrow> s = toy_sig k m"

definition demo_device_key :: "byte list" where "demo_device_key = [0xD0, 0xD1]"

definition bind_key :: "u32 \<Rightarrow> byte list \<Rightarrow> world \<Rightarrow> int \<times> u32 \<times> world" where
  "bind_key h k e =
     (if h = 0 \<or> w_keys e h \<noteq> None then (-1, 0, e)
      else (0, h, e\<lparr>w_keys := (w_keys e)(h \<mapsto> k), w_next := h + 1\<rparr>))"

text \<open>\<open>faulty\<close> says whether the switch has an effect.\<close>

definition demo :: "bool \<Rightarrow> world platform" where
  "demo faulty = \<lparr>
     settings_subsys_init = (\<lambda>e. (0, e)),
     settings_load_subtree_direct = (\<lambda>k e.
       (case w_flash e k of None \<Rightarrow> []
        | Some v \<Rightarrow> [\<lparr>lc_len = length v, lc_ret = int (length v), lc_data = v\<rparr>], 0, e)),
     settings_save_one = (\<lambda>k v e.
       if faulty \<and> w_save_fails e then (-5, e)
       else (0, e\<lparr>w_flash := (w_flash e)(k \<mapsto> v)\<rparr>)),
     psa_crypto_init = (\<lambda>e. (0, e)),
     psa_get_key_attributes = (\<lambda>h e. (if w_keys e h = None then -136 else 0, e)),
     psa_generate_key = (\<lambda>a e.
       bind_key (if ka_id a = 0 then w_next e else ka_id a) demo_device_key e),
     psa_export_public_key = (\<lambda>h n e.
       case w_keys e h of None \<Rightarrow> (-136, [], e)
       | Some k \<Rightarrow> if length k \<le> n then (0, k, e) else (-138, [], e)),
     psa_sign_message = (\<lambda>h a m n e.
       case w_keys e h of None \<Rightarrow> (-136, [], e)
       | Some k \<Rightarrow> if length (toy_sig k m) \<le> n then (0, toy_sig k m, e) else (-138, [], e)),
     psa_verify_message = (\<lambda>h a m s e.
       (case w_keys e h of None \<Rightarrow> -136
        | Some k \<Rightarrow> if s = toy_sig k m then 0 else -149, e)),
     psa_import_key = (\<lambda>a k e. bind_key (w_next e) k e),
     psa_destroy_key = (\<lambda>h e. (0, e\<lparr>w_keys := (w_keys e)(h := None)\<rparr>)),
     dac_provider_present = (\<lambda>e. True),
     SignWithDeviceAttestationKey = (\<lambda>m n e. (CHIP_NO_ERROR, take n (0xDA # rev m), e)),
     GetDeviceAttestationCert = (\<lambda>n e. (CHIP_NO_ERROR, take n [0x30, 0x01], e)),
     GetProductAttestationIntermediateCert = (\<lambda>n e. (CHIP_NO_ERROR, take n [0x30, 0x02], e)),
     k_uptime_get = w_time,
     dwt_enable = (\<lambda>e. e\<lparr>w_cycles := 0\<rparr>),
     dwt_cyccnt = (\<lambda>e. (w_cycles e, e\<lparr>w_cycles := w_cycles e + 64\<rparr>))\<rparr>"

definition w0 :: world where
  "w0 = \<lparr>w_flash = (\<lambda>_. None), w_keys = (\<lambda>_. None), w_next = 1, w_time = 1000, w_cycles = 0,
     w_save_fails = False\<rparr>"

section \<open>It satisfies the hypotheses\<close>

lemma bind_key_flash [simp]: "w_flash (snd (snd (bind_key h k e))) = w_flash e"
  by (simp add: bind_key_def)

lemma bind_key_keys: "w_keys e \<subseteq>\<^sub>m w_keys (snd (snd (bind_key h k e)))"
  by (auto simp: bind_key_def map_le_def)

lemma bind_key_result:
  "bind_key h k e = (st, h', e') \<Longrightarrow> (if st = 0 then h' \<noteq> 0 \<and> w_keys e' h' = Some k else h' = 0)"
  by (auto simp: bind_key_def split: if_splits)

lemma demo_steps:
  assumes R: "\<And>e. R e e" and b: "\<And>h k e. R e (snd (snd (bind_key h k e)))"
    and c: "\<And>e f. R e (e\<lparr>w_cycles := f\<rparr>)"
  shows "steps_by (demo faulty) R"
  unfolding steps_by_def
  by (intro conjI allI) (simp_all add: demo_def R b c split: option.splits)

lemma demo_flash_ok: "flash_ok (demo faulty) w_flash"
  unfolding flash_ok_def
  by (intro conjI allI demo_steps) (simp_all add: demo_def)

lemma demo_flash_reliable: "flash_reliable (demo False) w_flash"
  unfolding flash_reliable_def
  by (intro conjI demo_flash_ok) (simp_all add: demo_def loads_faithfully_def)

lemma demo_lengths_ok: "lengths_ok (demo faulty)"
  by (auto simp: lengths_ok_def demo_def split: option.splits)

lemma demo_keys_ok: "keys_ok (demo faulty) w_keys toy_valid"
  unfolding keys_ok_def
proof (intro conjI allI)
  show "steps_by (demo faulty) (\<lambda>e e'. w_keys e \<subseteq>\<^sub>m w_keys e')"
    by (rule demo_steps) (simp_all add: bind_key_keys)
  show "case psa_import_key (demo faulty) a k e of (st, h, e') \<Rightarrow>
      st = PSA_SUCCESS \<longrightarrow> h \<noteq> PSA_KEY_ID_NULL \<and> w_keys e' h = Some k" for a k e
    using bind_key_result [of "w_next e" k e] by (auto simp: demo_def split: prod.splits if_splits)
  show "case psa_import_key (demo faulty) a k e of (st, h, e') \<Rightarrow>
      st \<noteq> PSA_SUCCESS \<longrightarrow> h = PSA_KEY_ID_NULL" for a k e
    using bind_key_result [of "w_next e" k e] by (auto simp: demo_def split: prod.splits if_splits)
qed (auto simp: demo_def toy_valid_def split: option.splits if_splits)

section \<open>A short life\<close>

text \<open>
  A device from its first boot: a signed request that arrives before any key is registered,
  a press of the button, the registration, a signed request, a power cycle and another one.
  Each state is written out and each step proved by evaluation.
\<close>

definition client_key :: "byte list" where "client_key = replicate 32 0xC0"

definition early_request :: "byte list" where "early_request = [2, 0,0,0,1, 0,0, 0,0]"

definition register_request :: "byte list" where
  "register_request = [kTypeRegisterClientKey] @ put_field client_key"

definition demo_preimage :: "byte \<Rightarrow> u32 \<Rightarrow> byte list \<Rightarrow> byte list" where
  "demo_preimage dir c payload =
     kDomainTag @ [dir] @ PutU32 c @ PutU32 kClusterId @ PutU32 kCommandId
     @ put_field demo_device_key @ payload"

definition client_request :: "u32 \<Rightarrow> byte list \<Rightarrow> byte list" where
  "client_request c payload =
     encode_signed c payload (toy_sig client_key (demo_preimage kDirRequest c payload))"

definition device_response :: "u32 \<Rightarrow> byte list \<Rightarrow> byte list" where
  "device_response c payload = [kTypeSignedResponse] @ PutU32 c @ put_field payload
     @ put_field (toy_sig demo_device_key (demo_preimage kDirResponse c payload))"

definition demo_bundle :: "byte list" where
  "demo_bundle = bundle_bytes 0 demo_device_key (0xDA # rev ([1, 0] @ demo_device_key))
     [0x30, 0x01] [0x30, 0x02]"

definition demo_core :: "ReplayGuard \<Rightarrow> ClientKeyStore \<Rightarrow> world \<Rightarrow> world core" where
  "demo_core g ks e = \<lparr>gSigner = \<lparr>mKeyId = 0x5401, mAlg = Ed25519\<rparr>, gBundle = demo_bundle,
     gBundleLen = 21, gDevicePub = demo_device_key, gReplay = g, gReplayReady = True,
     gStore = ks, env = e\<rparr>"

definition w1 :: world where
  "w1 = w0\<lparr>w_keys := [0x5401 \<mapsto> demo_device_key], w_next := 0x5402,
     w_flash := [ceiling_key \<mapsto> u32_mem 64]\<rparr>"

definition w2 :: world where
  "w2 = w1\<lparr>w_flash := [ceiling_key \<mapsto> u32_mem 64, clientkey_key \<mapsto> client_key]\<rparr>"

definition w3 :: world where
  "w3 = w2\<lparr>w_keys := [0x5401 \<mapsto> demo_device_key, 0x5402 \<mapsto> client_key], w_next := 0x5403\<rparr>"

definition demo_key_store :: "u32 \<Rightarrow> ClientKeyStore" where
  "demo_key_store h = \<lparr>mKey = client_key, mKeyLen = 32, mWindowUntilMs = 0, mImported = h,
     mHandlersAdded = 1\<rparr>"

definition demo_guard :: "u32 \<Rightarrow> u32 \<Rightarrow> ReplayGuard" where
  "demo_guard f c = \<lparr>mFloor = f, mCeiling = c, mPersistent = True\<rparr>"

definition demo_1 :: "world core" where
  "demo_1 = demo_core (demo_guard 0 64) (new_store\<lparr>mHandlersAdded := 1\<rparr>) w1"

definition demo_2 :: "world core" where
  "demo_2 = demo_core (demo_guard 0 64) (new_store\<lparr>mHandlersAdded := 1, mWindowUntilMs := 61000\<rparr>) w1"

definition demo_3 :: "world core" where
  "demo_3 = demo_core (demo_guard 0 64) (demo_key_store 0) w2"

definition demo_4 :: "world core" where
  "demo_4 = demo_core (demo_guard 2 64) (demo_key_store 0x5402) w3"

lemmas demo_sig_defs = Signer_Init_def new_signer_def Ready_def persistent_key_id_def
  kPersistentKeyId_def bind_key_def signer_key_attributes_def BuildIdentityBundle_def
  ExportPublicKey_def Sign_def kPublicKeyLenMax_def kSignatureLen_def write_bundle_eq
  kCertBufSize_def kDacSigSize_def wire_alg_def kIdentityBundleVersion_def

lemma demo_bundle_length: "length demo_bundle = 21"
  by (simp add: demo_bundle_def length_bundle_bytes demo_device_key_def)

lemma demo_EnsureBundle:
  "EnsureBundle (demo f) (boot w0) =
    (True, (boot w0)\<lparr>gSigner := \<lparr>mKeyId = 0x5401, mAlg = Ed25519\<rparr>, gBundle := demo_bundle,
      gBundleLen := 21, gDevicePub := demo_device_key,
      env := w0\<lparr>w_keys := [0x5401 \<mapsto> demo_device_key], w_next := 0x5402\<rparr>\<rparr>)"
  using demo_bundle_length
  by (simp add: EnsureBundle_def boot_def Let_def demo_def w0_def demo_sig_defs demo_device_key_def
      length_bundle_bytes demo_bundle_def)

lemma demo_EnsureReplay:
  "EnsureReplay (demo f) full_config ((boot w0)\<lparr>gSigner := \<lparr>mKeyId = 0x5401, mAlg = Ed25519\<rparr>,
      gBundle := demo_bundle, gBundleLen := 21, gDevicePub := demo_device_key,
      env := w0\<lparr>w_keys := [0x5401 \<mapsto> demo_device_key], w_next := 0x5402\<rparr>\<rparr>) = (True, demo_1)"
  by (simp add: EnsureReplay_def ReplayGuard_Init_def PersistCeiling_def ClientKeyStore_Init_def
      full_config_def boot_def new_guard_def Let_def demo_def w0_def kReserve_def kKeySize_def
      new_store_def demo_1_def demo_core_def demo_guard_def w1_def ceiling_key_def clientkey_key_def)

text \<open>Requests in a state whose initialisation is done.\<close>

lemma demo_core_ready [simp]:
  "gBundleLen (demo_core g ks e) = 21" "gReplayReady (demo_core g ks e) = True"
  "gStore (demo_core g ks e) = ks" "gReplay (demo_core g ks e) = g" "env (demo_core g ks e) = e"
  "gDevicePub (demo_core g ks e) = demo_device_key" "gBundle (demo_core g ks e) = demo_bundle"
  "gSigner (demo_core g ks e) = \<lparr>mKeyId = 0x5401, mAlg = Ed25519\<rparr>"
  "(demo_core g ks e)\<lparr>gStore := ks'\<rparr> = demo_core g ks' e"
  "(demo_core g ks e)\<lparr>gReplay := g'\<rparr> = demo_core g' ks e"
  "(demo_core g ks e)\<lparr>env := e'\<rparr> = demo_core g ks e'"
  by (simp_all add: demo_core_def)

lemma demo_early:
  "ProcessRequest (demo f) full_config early_request 512 (boot w0) =
    (([kTypeAuthReject], Reject_None), demo_1)"
proof -
  have parse: "signed_parse early_request = Some (1, 0, 0)"
    by (simp add: early_request_def signed_parse_def ReadU32_def read_u16_def)
  have head: "early_request ! 0 = kTypeSignedRequest" "early_request \<noteq> []"
    by (simp_all add: early_request_def type_defs)
  have "\<not> HasKey (gStore demo_1)" by (simp add: demo_1_def HasKey_def new_store_def)
  then have "authenticate (demo f) 1 p s demo_1 = (Some ([kTypeAuthReject], Reject_None), demo_1)"
    for p s by (simp add: authenticate_def)
  then have "signed_request (demo f) full_config (\<lambda>_. early_request) 512 (boot w0) =
      (([kTypeAuthReject], Reject_None), demo_1)"
    using demo_EnsureReplay [of f]
    by (simp add: signed_request_def parse demo_EnsureBundle Let_def) (simp add: full_config_def)
  then show ?thesis
    using head by (simp add: ProcessRequest_def ProcessRequest_view_def Let_def full_config_def type_defs)
qed

lemma demo_button:
  "demo_1\<lparr>gStore := button_event (demo f) 8 8 (env demo_1) (gStore demo_1)\<rparr> = demo_2"
  by (simp add: button_event_def ButtonHandler_def OpenWindow_def demo_1_def demo_2_def
      kRegisterButtonMask_def demo_def w1_def w0_def kRegistrationWindowMs_def
      new_store_def)

lemma demo_preimage_BuildPreimage:
  "length payload \<le> 200 \<Longrightarrow> 223 \<le> n \<Longrightarrow>
   BuildPreimage dir c demo_device_key payload n = (CHIP_NO_ERROR, demo_preimage dir c payload)"
  by (simp add: BuildPreimage_def demo_preimage_def put_field_def demo_device_key_def Let_def)

lemma length_demo_preimage: "length (demo_preimage dir c payload) = 23 + length payload"
  by (simp add: demo_preimage_def demo_device_key_def)

lemma length_toy_sig: "62 \<le> length m \<Longrightarrow> length k = 2 \<Longrightarrow> length (toy_sig k m) = 64"
  "length (toy_sig k m) \<le> 64"
  by (simp_all add: toy_sig_def)

lemma demo_sign:
  "w_keys e 0x5401 = Some demo_device_key \<Longrightarrow>
   Sign (demo f) \<lparr>mKeyId = 0x5401, mAlg = Ed25519\<rparr> m kSignatureLen e = (0, toy_sig demo_device_key m, e)"
  using length_toy_sig(2) [of demo_device_key m]
  by (simp add: Sign_def Ready_def demo_def kSignatureLen_def)

lemma length_client_key [simp]: "length client_key = 32"
  by (simp add: client_key_def)

lemma demo_register:
  "ProcessRequest (demo False) full_config register_request 512 demo_2 =
    (([kTypeRegisterAck] @ put_field client_key
      @ put_field (toy_sig demo_device_key (demo_preimage kDirResponse 0 client_key)), Reject_None),
     demo_3)"
proof -
  let ?P = "demo False"
  let ?ks = "new_store\<lparr>mHandlersAdded := 1, mWindowUntilMs := 61000\<rparr>"
  have req: "register_request = kTypeRegisterClientKey # put_u16 32 @ client_key"
    by (simp add: register_request_def put_field_def)
  have len: "read_u16 (register_request ! 1) (register_request ! 2) = 32"
    using read_u16_put_u16 [of 32] by (simp add: req put_u16_def)
  have "drop 3 register_request = client_key" by (simp add: req put_u16_def)
  then have key: "take 32 (drop 3 register_request) = client_key" by simp
  have reg: "Register ?P client_key ?ks w1 = (CHIP_NO_ERROR, demo_key_store 0, w2)"
    by (simp add: Register_def WindowOpen_def demo_def new_store_def demo_key_store_def kKeySize_def
        w1_def w0_def w2_def clientkey_key_def ceiling_key_def fun_upd_twist)
  have pub: "w_keys w2 0x5401 = Some demo_device_key" by (simp add: w2_def w1_def)
  have k: "Key (demo_key_store 0) = client_key" by (simp add: Key_def demo_key_store_def)
  have "length (toy_sig demo_device_key (demo_preimage kDirResponse 0 client_key)) = 57"
    by (simp add: toy_sig_def length_demo_preimage demo_device_key_def)
  then have "register_client_key ?P (\<lambda>_. register_request) 512 demo_2 =
    (([kTypeRegisterAck] @ put_field client_key
      @ put_field (toy_sig demo_device_key (demo_preimage kDirResponse 0 client_key)), Reject_None),
     demo_3)"
    using len key demo_sign [OF pub] demo_preimage_BuildPreimage [of client_key 256]
    by (simp add: register_client_key_def demo_2_def demo_3_def EnsureBundle_done Let_def reg k req
        kSignatureLen_def put_field_def del: One_nat_def)
  then show ?thesis
    by (simp add: ProcessRequest_def ProcessRequest_view_def Let_def full_config_def req type_defs)
qed

text \<open>A signed request in a running device, whatever verifying and accepting do to the rest.\<close>

lemma demo_signed_request:
  assumes payload: "length payload \<le> 200" and hk: "HasKey ks"
    and ver: "\<And>m. store_Verify (demo f) m (toy_sig client_key m) ks e = (0, ks', e1)"
    and acc: "Accept (demo f) c g e1 = (CHIP_NO_ERROR, g', e2)"
    and pub: "w_keys e2 0x5401 = Some demo_device_key"
  shows "signed_request (demo f) full_config (\<lambda>_. client_request c payload) 512 (demo_core g ks e) =
    ((device_response c payload, Reject_None), demo_core g' ks' e2)"
proof -
  let ?req = "client_request c payload" and ?d = "demo_core g ks e"
  let ?s = "toy_sig client_key (demo_preimage kDirRequest c payload)"
  let ?r = "toy_sig demo_device_key (demo_preimage kDirResponse c payload)"
  have s: "length ?s < 65536" using length_toy_sig(2) [of client_key] by (rule le_less_trans) simp
  have p: "length payload < 65536" using payload by simp
  have enc: "signed_parse ?req = Some (c, length payload, length ?s)"
    "payload_at ?req (length payload) = payload" "sig_at ?req (length payload) (length ?s) = ?s"
    using signed_parse_encode [OF p s, of c "[]"] by (simp_all add: client_request_def)
  have pre: "BuildPreimage dir c demo_device_key payload 700 = (CHIP_NO_ERROR, demo_preimage dir c payload)"
    for dir using demo_preimage_BuildPreimage [OF payload] by simp
  have "signed_request (demo f) full_config (\<lambda>_. ?req) 512 ?d =
      (([kTypeSignedResponse] @ PutU32 c @ put_u16 (length payload) @ payload_at ?req (length payload)
        @ put_u16 (length ?r) @ ?r, Reject_None), ?d\<lparr>gStore := ks', gReplay := g', env := e2\<rparr>)"
    by (rule signed_request_answers [where m = "length ?s" and ?e1.0 = e1 and ?e2.0 = e2
          and pre = "demo_preimage kDirRequest c payload"
          and pre' = "demo_preimage kDirResponse c payload"])
       (use hk payload in \<open>simp_all add: enc pre ver acc demo_sign [OF pub] full_config_def\<close>)
  then show ?thesis by (simp add: enc device_response_def put_field_def demo_core_def)
qed

lemma demo_signed_dispatch:
  "ProcessRequest (demo f) full_config (client_request c payload) 512 d =
    signed_request (demo f) full_config (\<lambda>_. client_request c payload) 512 d"
  by (simp add: ProcessRequest_def ProcessRequest_view_def Let_def full_config_def
      client_request_def encode_signed_def type_defs)

lemma demo_key_store_simps [simp]:
  "HasKey (demo_key_store h)" "Key (demo_key_store h) = client_key"
  by (simp_all add: HasKey_def Key_def demo_key_store_def)

lemma demo_verify_imported:
  "h \<noteq> 0 \<Longrightarrow> w_keys e h = Some client_key \<Longrightarrow>
   store_Verify (demo f) m (toy_sig client_key m) (demo_key_store h) e = (0, demo_key_store h, e)"
  by (simp add: store_Verify_def demo_key_store_def VerifyWith_def demo_def)

lemma demo_verify_import:
  "w_next e \<noteq> 0 \<Longrightarrow> w_keys e (w_next e) = None \<Longrightarrow>
   store_Verify (demo f) m (toy_sig client_key m) (demo_key_store 0) e =
     (0, demo_key_store (w_next e), e\<lparr>w_keys := (w_keys e)(w_next e \<mapsto> client_key), w_next := w_next e + 1\<rparr>)"
  by (simp add: store_Verify_def demo_key_store_def VerifyWith_def ImportPublicKey_def Key_def
      demo_def bind_key_def)

lemma demo_second:
  "ProcessRequest (demo f) full_config (client_request 2 [1, 2]) 512 demo_3 =
    ((device_response 2 [1, 2], Reject_None), demo_4)"
  unfolding demo_signed_dispatch demo_3_def demo_4_def
  by (rule demo_signed_request)
     (simp_all add: demo_verify_import w2_def w1_def w3_def w0_def Accept_within_reservation
       IsFresh_def demo_guard_def)

text \<open>After a power cycle: the device key and flash survive, the imported key does not.\<close>

definition w4 :: world where "w4 = w2\<lparr>w_time := 0\<rparr>"

definition w5 :: world where
  "w5 = w4\<lparr>w_keys := [0x5401 \<mapsto> demo_device_key, 0x5402 \<mapsto> client_key], w_next := 0x5403,
     w_flash := (w_flash w4)(ceiling_key \<mapsto> u32_mem 129)\<rparr>"

definition demo_5 :: "world core" where
  "demo_5 = demo_core (demo_guard 65 129) (demo_key_store 0x5402) w5"

lemma w4_flash [simp]:
  "w_flash w4 ceiling_key = Some (u32_mem 64)" "w_flash w4 clientkey_key = Some client_key"
  "w_keys w4 = [0x5401 \<mapsto> demo_device_key]" "w_next w4 = 0x5402"
  by (simp_all add: w4_def w2_def w1_def)

lemma demo_EnsureBundle_again:
  "EnsureBundle (demo f) (boot w4) =
    (True, (boot w4)\<lparr>gSigner := \<lparr>mKeyId = 0x5401, mAlg = Ed25519\<rparr>, gBundle := demo_bundle,
      gBundleLen := 21, gDevicePub := demo_device_key\<rparr>)"
  using demo_bundle_length
  by (simp add: EnsureBundle_def boot_def Let_def demo_def demo_sig_defs demo_device_key_def
      length_bundle_bytes demo_bundle_def)

lemma demo_EnsureReplay_again:
  "EnsureReplay (demo f) full_config ((boot w4)\<lparr>gSigner := \<lparr>mKeyId = 0x5401, mAlg = Ed25519\<rparr>,
      gBundle := demo_bundle, gBundleLen := 21, gDevicePub := demo_device_key\<rparr>) =
    (True, demo_core (demo_guard 64 64) (demo_key_store 0) w4)"
proof -
  have "ReplayGuard_Init (demo f) new_guard w4 = (CHIP_NO_ERROR, demo_guard 64 64, w4)"
    by (simp add: ReplayGuard_Init_def demo_def ceiling_LoadCb_def demo_guard_def new_guard_def)
  moreover have "ClientKeyStore_Init (demo f) new_store w4 = (CHIP_NO_ERROR, demo_key_store 0, w4)"
    by (simp add: ClientKeyStore_Init_def demo_def clientkey_LoadCb_def kKeySize_def new_store_def
        demo_key_store_def)
  ultimately show ?thesis
    by (simp add: EnsureReplay_def full_config_def boot_def demo_core_def)
qed

lemma demo_signed_wakes:
  assumes eb: "EnsureBundle P d = (True, d1)" and er: "EnsureReplay P cfg d1 = (True, d2)"
    and p: "signed_parse (view 0) \<noteq> None"
  shows "signed_request P cfg view outCap d = signed_request P cfg view outCap d2"
proof -
  have "EnsureBundle P d2 = (True, d2)"
    using EnsureBundle_done EnsureBundle_ok_len [OF eb] EnsureReplay_frame [OF er] by metis
  moreover have "EnsureReplay P cfg d2 = (True, d2)"
    by (rule EnsureReplay_ready [OF EnsureReplay_ok_ready [OF er]])
  ultimately show ?thesis
    using eb er p by (auto simp: signed_request_def Let_def split: option.splits)
qed

lemma demo_third:
  "ProcessRequest (demo f) full_config (client_request 65 [7]) 512 (boot w4) =
    ((device_response 65 [7], Reject_None), demo_5)" if "\<not> f"
proof -
  let ?e = "w4\<lparr>w_keys := [0x5401 \<mapsto> demo_device_key, 0x5402 \<mapsto> client_key], w_next := 0x5403\<rparr>"
  have ver: "store_Verify (demo f) m (toy_sig client_key m) (demo_key_store 0) w4 =
      (0, demo_key_store 0x5402, ?e)" for m
    by (simp add: demo_verify_import)
  have acc: "Accept (demo f) 65 (demo_guard 64 64) ?e = (CHIP_NO_ERROR, demo_guard 65 129, w5)"
    using that
    by (simp add: Accept_def IsFresh_def demo_guard_def kReserve_def PersistCeiling_def demo_def w5_def)
  have s: "length (toy_sig client_key m) < 65536" for m
    using length_toy_sig(2) [of client_key] by (rule le_less_trans) simp
  have p: "signed_parse (client_request 65 [7]) \<noteq> None"
    using signed_parse_encode(1) [OF _ s, of "[7]" 65 _ "[]"] by (simp add: client_request_def)
  have "signed_request (demo f) full_config (\<lambda>_. client_request 65 [7]) 512 (boot w4) =
      signed_request (demo f) full_config (\<lambda>_. client_request 65 [7]) 512
        (demo_core (demo_guard 64 64) (demo_key_store 0) w4)"
    by (rule demo_signed_wakes [OF demo_EnsureBundle_again demo_EnsureReplay_again p])
  also have "\<dots> = ((device_response 65 [7], Reject_None), demo_5)"
    unfolding demo_5_def by (rule demo_signed_request [OF _ _ ver acc]) (simp_all add: w5_def)
  finally show ?thesis unfolding demo_signed_dispatch .
qed

section \<open>The life as a run\<close>

definition demo_drift :: "world \<Rightarrow> world \<Rightarrow> bool" where
  "demo_drift e e' \<longleftrightarrow> w_flash e' = w_flash e \<and> w_keys e' = w_keys e"

lemma demo_drift_keeps_flash: "drift_keeps_flash w_flash demo_drift"
  by (simp add: drift_keeps_flash_def demo_drift_def)

definition demo_ack :: "byte list" where
  "demo_ack = [kTypeRegisterAck] @ put_field client_key
     @ put_field (toy_sig demo_device_key (demo_preimage kDirResponse 0 client_key))"

definition demo_boot_labels :: "label list" where
  "demo_boot_labels =
     [L_Request (\<lambda>_. early_request) 512 ([kTypeAuthReject], Reject_None),
      L_Button 8 8,
      L_Request (\<lambda>_. register_request) 512 (demo_ack, Reject_None),
      L_Request (\<lambda>_. client_request 2 [1, 2]) 512 (device_response 2 [1, 2], Reject_None)]"

definition demo_life_labels :: "label list" where
  "demo_life_labels = demo_boot_labels @
     [L_PowerCycle,
      L_Request (\<lambda>_. client_request 65 [7]) 512 (device_response 65 [7], Reject_None)]"

lemma demo_step_request:
  "ProcessRequest P cfg inp cap d = (reply, d') \<Longrightarrow>
   dev_step P cfg stored drift d (L_Request (\<lambda>_. inp) cap reply) d'"
  by (rule dev_step.request) (simp add: ProcessRequest_def)

lemma demo_boot_run:
  "run (dev_step (demo False) full_config w_flash demo_drift) (boot w0) demo_boot_labels demo_4"
  unfolding demo_boot_labels_def
proof (intro run.intros)
  show "dev_step (demo False) full_config w_flash demo_drift (boot w0)
      (L_Request (\<lambda>_. early_request) 512 ([kTypeAuthReject], Reject_None)) demo_1"
    by (rule demo_step_request [OF demo_early])
  show "dev_step (demo False) full_config w_flash demo_drift demo_1 (L_Button 8 8) demo_2"
    using dev_step.button [of "demo False" full_config w_flash demo_drift demo_1 8 8]
    unfolding demo_button .
  show "dev_step (demo False) full_config w_flash demo_drift demo_2
      (L_Request (\<lambda>_. register_request) 512 (demo_ack, Reject_None)) demo_3"
    unfolding demo_ack_def by (rule demo_step_request [OF demo_register])
  show "dev_step (demo False) full_config w_flash demo_drift demo_3
      (L_Request (\<lambda>_. client_request 2 [1, 2]) 512 (device_response 2 [1, 2], Reject_None)) demo_4"
    by (rule demo_step_request [OF demo_second])
qed simp

lemma demo_4_env [simp]: "env demo_4 = w3" "gReplayReady demo_4" "w_flash w3 = w_flash w4"
  by (simp_all add: demo_4_def w3_def w4_def)

lemma demo_life_run:
  "run (dev_step (demo False) full_config w_flash demo_drift) (boot w0) demo_life_labels demo_5"
  unfolding demo_life_labels_def
proof (rule run_append [OF demo_boot_run], intro run.intros)
  show "dev_step (demo False) full_config w_flash demo_drift demo_4 L_PowerCycle (boot w4)"
    by (rule dev_step.power [of w3]) simp_all
  show "dev_step (demo False) full_config w_flash demo_drift (boot w4)
      (L_Request (\<lambda>_. client_request 65 [7]) 512 (device_response 65 [7], Reject_None)) demo_5"
    by (rule demo_step_request [OF demo_third]) simp
qed simp

lemma response_counter_device_response [simp]:
  "response_counter (device_response c payload) = Some c"
  by (simp add: response_counter_def device_response_def)

lemma demo_no_response [simp]:
  "response_counter [kTypeAuthReject] = None" "response_counter demo_ack = None"
  by (simp_all add: response_counter_def demo_ack_def type_defs)

lemma demo_served: "served_counters demo_boot_labels = [2]" "served_counters demo_life_labels = [2, 65]"
  by (simp_all add: served_counters_def demo_life_labels_def demo_boot_labels_def map_filter_simps)

lemma demo_powered_run:
  "run (dev_step (demo False) full_config w_flash demo_drift) (boot w0)
     (demo_boot_labels @ [L_PowerCycle]) (boot w4)"
proof (rule run_append [OF demo_boot_run])
  have "dev_step (demo False) full_config w_flash demo_drift demo_4 L_PowerCycle (boot w4)"
    by (rule dev_step.power [of w3]) simp_all
  then show "run (dev_step (demo False) full_config w_flash demo_drift) demo_4 [L_PowerCycle] (boot w4)"
    by (simp add: run_cons_simp)
qed

lemma demo_drift_keeps_keys: "drift_keeps_keys w_keys demo_drift"
  by (simp add: drift_keeps_keys_def demo_drift_def)

lemma demo_awake_run: "run (awake_step (demo False) full_config w_flash demo_drift) (boot w0) demo_boot_labels demo_4"
  by (rule run_mono [OF demo_boot_run]) (auto simp: awake_step_def demo_boot_labels_def)

text \<open>A request with an empty signature, to the running device.\<close>

lemma demo_forged:
  "ProcessRequest (demo f) full_config (encode_signed 3 [1] []) 512 demo_4 =
    (([kTypeAuthReject], Reject_None), demo_4)"
proof -
  let ?req = "encode_signed 3 [1] []"
  have enc: "signed_parse ?req = Some (3, 1, 0)" "payload_at ?req 1 = [1]" "sig_at ?req 1 0 = []"
    using signed_parse_encode [of "[1]" "[]" 3 "[]"] by simp_all
  have "[] \<noteq> toy_sig client_key m" for m by (simp add: toy_sig_def client_key_def)
  then have "store_Verify (demo f) m [] (demo_key_store 0x5402) w3 = (-149, demo_key_store 0x5402, w3)" for m
    by (simp add: store_Verify_def demo_key_store_def VerifyWith_def demo_def w3_def)
  then have "authenticate (demo f) 3 [1] [] demo_4 = (Some ([kTypeAuthReject], Reject_None), demo_4)"
    using demo_preimage_BuildPreimage [of "[1]" 700] by (simp add: authenticate_def demo_4_def)
  then have "signed_request (demo f) full_config (\<lambda>_. ?req) 512 demo_4 =
      (([kTypeAuthReject], Reject_None), demo_4)"
    by (simp add: signed_request_def enc EnsureBundle_done EnsureReplay_ready demo_4_def full_config_def
        del: One_nat_def)
  then show ?thesis
    by (simp add: ProcessRequest_def ProcessRequest_view_def Let_def full_config_def encode_signed_def
        type_defs)
qed

section \<open>Crypto and flash that keep working\<close>

definition demo_healthy :: "ClientKeyStore \<Rightarrow> world \<Rightarrow> bool" where
  "demo_healthy ks e \<longleftrightarrow> mKey ks = client_key \<and> mKeyLen ks = 32 \<and>
     w_flash e clientkey_key = Some client_key \<and> w_keys e 0x5401 = Some demo_device_key \<and>
     (if mImported ks = 0 then w_next e \<noteq> 0 \<and> w_keys e (w_next e) = None
      else w_keys e (mImported ks) = Some client_key)"

lemma demo_key_store_fields [simp]:
  "mKey (demo_key_store h) = client_key" "mKeyLen (demo_key_store h) = 32"
  "mImported (demo_key_store h) = h"
  by (simp_all add: demo_key_store_def)

lemma demo_healthy_verifies:
  assumes "demo_healthy ks e"
  shows "\<exists>ks' e'. store_Verify (demo f) m (toy_sig client_key m) ks e = (0, ks', e') \<and> demo_healthy ks' e'"
proof (cases "mImported ks = 0")
  case True
  have "Key ks = client_key" using assms by (simp add: Key_def demo_healthy_def)
  with True assms show ?thesis
    by (auto simp: store_Verify_def VerifyWith_def ImportPublicKey_def demo_def bind_key_def demo_healthy_def)
next
  case False
  with assms show ?thesis by (simp add: store_Verify_def VerifyWith_def demo_def demo_healthy_def)
qed

lemma demo_crypto_serves:
  "crypto_serves (demo False) \<lparr>mKeyId = 0x5401, mAlg = Ed25519\<rparr> (toy_sig client_key) demo_healthy"
  unfolding crypto_serves_def
proof (intro conjI allI impI)
  fix m v ks and e :: world
  assume h: "demo_healthy ks e"
  show "\<exists>ks' e'. store_Verify (demo False) m (toy_sig client_key m) ks e = (0, ks', e') \<and> demo_healthy ks' e'"
    by (rule demo_healthy_verifies [OF h])
  show "\<exists>sig e'. Sign (demo False) \<lparr>mKeyId = 0x5401, mAlg = Ed25519\<rparr> m kSignatureLen e = (0, sig, e') \<and>
      demo_healthy ks e'"
    using demo_sign [of e False m] h by (simp add: demo_healthy_def)
  show "\<exists>e'. settings_save_one (demo False) ceiling_key (u32_mem v) e = (0, e') \<and> demo_healthy ks e'"
    using h by (simp add: demo_def demo_healthy_def)
qed

lemma demo_healthy_Init:
  "demo_healthy ks e \<Longrightarrow> ClientKeyStore_Init (demo f) ks e = (err, ks', e') \<Longrightarrow> demo_healthy ks' e'"
  by (auto simp: demo_healthy_def ClientKeyStore_Init_def demo_def clientkey_LoadCb_def kKeySize_def)

lemma length_toy_sig_field: "length (toy_sig k m) < 65536"
  using length_toy_sig(2) by (rule le_less_trans) simp

end
