(* ===== verification/Replay_Properties.thy ===== *)
theory Replay_Properties
  imports Demo_Platform
begin

text \<open>
  What the replay guard promises on its own, what a restart costs, and where the promise
  stops: a save or a load that fails.
\<close>

text \<open>
  C11. The guard over its life, on the interface of \<open>Replay_Life\<close>, as long as flash works
  (saves succeed and stay, loads return what is stored; C13 and C14 show what happens
  otherwise): started on empty flash, whatever counters are offered and wherever power is
  lost, the accepted counters increase strictly across all boots, and 0 is never accepted.
\<close>

theorem guard_life_increases:
  assumes "flash_reliable P stored" and "stored e ceiling_key = None"
    and "ReplayGuard_Init P new_guard e = (err, g, e1)"
    and "guard_run (guard_accept P) (guard_restart P stored) (g, e1) as s"
  shows "err = CHIP_NO_ERROR \<and> sorted_wrt (<) as \<and> 0 \<notin> set as"
proof -
  note first = first_boot_inv [OF assms(1-3)]
  note run = durable.guard_run_sorted [OF assms(4)]
  have "sorted_wrt (<) as \<and> (\<forall>a \<in> set as. mFloor g < a)" using run first by simp
  then show ?thesis using first word_not_simps(1) by metis
qed

lemma demo_guard_Init:
  "ReplayGuard_Init (demo f) new_guard w0 = (CHIP_NO_ERROR, demo_guard 0 64,
     w0\<lparr>w_flash := [ceiling_key \<mapsto> u32_mem 64]\<rparr>)" if "\<not> f"
  using that by (simp add: ReplayGuard_Init_def demo_def w0_def PersistCeiling_def demo_guard_def
      new_guard_def kReserve_def)

lemma demo_guard_wakes:
  assumes "w_flash e ceiling_key = Some (u32_mem v)" "v \<noteq> 0"
  shows "ReplayGuard_Init (demo f) g e = (CHIP_NO_ERROR, demo_guard v v, e)"
proof -
  have "mem_u32 (overlay (u32_mem x) (u32_mem v)) = v" for x by simp
  with assms show ?thesis
    by (cases g) (simp add: ReplayGuard_Init_def demo_def ceiling_LoadCb_def demo_guard_def)
qed

theorem guard_life_increases_witness:
  "sorted_wrt (<) [1, 70 :: u32] \<and> 0 \<notin> set [1, 70 :: u32]"
proof -
  let ?e = "w0\<lparr>w_flash := [ceiling_key \<mapsto> u32_mem 64]\<rparr>"
  let ?e' = "w0\<lparr>w_flash := [ceiling_key \<mapsto> u32_mem 134]\<rparr>"
  have 1: "guard_accept (demo False) 1 (demo_guard 0 64, ?e) = (True, demo_guard 1 64, ?e)"
    by (simp add: guard_accept_def Accept_within_reservation IsFresh_def demo_guard_def)
  have 2: "guard_restart (demo False) w_flash (demo_guard 1 64, ?e) (demo_guard 64 64, ?e)"
    unfolding guard_restart_def
    by (intro exI [of _ ?e] conjI) (simp_all add: power_loss_point_def demo_guard_wakes)
  have 3: "guard_accept (demo False) 70 (demo_guard 64 64, ?e) = (True, demo_guard 70 134, ?e')"
    by (simp add: guard_accept_def Accept_def IsFresh_def demo_guard_def kReserve_def
        PersistCeiling_def demo_def)
  have "guard_run (guard_accept (demo False)) (guard_restart (demo False) w_flash)
      (demo_guard 0 64, ?e) [1, 70] (demo_guard 70 134, ?e')"
    by (rule guard_run.run_accept [where acc = "guard_accept (demo False)", OF 1],
        rule guard_run.run_restart [where restart = "guard_restart (demo False) w_flash", OF 2],
        rule guard_run.run_accept [where acc = "guard_accept (demo False)", OF 3], rule guard_run.run_nil)
  from guard_life_increases [OF demo_flash_reliable _ demo_guard_Init this] show ?thesis
    by (simp add: w0_def)
qed

text \<open>
  C12. The price of the reserved ceiling, as long as flash works (saves succeed and stay,
  loads return what is stored): after any sequence of counters offered since the first boot
  of an empty device, a restart resumes with a floor that is not lower than the old one and at
  most 64 above it, so a client loses at most 64 counters.
\<close>

theorem restart_skips_at_most_a_reservation:
  assumes F: "flash_reliable P stored" and empty: "stored e ceiling_key = None"
    and I: "ReplayGuard_Init P new_guard e = (err0, g0, e0)"
    and R: "run_accepts (guard_accept P) cs (g0, e0) = (as, g, e1)"
    and e2: "stored e2 = stored e1" and I2: "ReplayGuard_Init P new_guard e2 = (err, g', e3)"
  shows "mFloor g \<le> mFloor g' \<and> unat (mFloor g') \<le> unat (mFloor g) + 64"
proof -
  have "reserve_inv P stored (g0, e0)"
  proof -
    have "unat (mCeiling g0) \<le> 64"
    proof -
      obtain rc x where init: "settings_subsys_init P e = (rc, x)" by fastforce
      obtain calls rc' y where load: "settings_load_subtree_direct P ceiling_key x = (calls, rc', y)"
        by (metis prod_cases3)
      obtain rc'' z where save: "settings_save_one P ceiling_key (u32_mem kReserve) y = (rc'', z)"
        by fastforce
      have rc: "rc = 0" using flash_reliableD(2) [OF F init] .
      have "stored x = stored e"
        using steps_byD(1) [OF flash_okD(1) [OF flash_reliableD(1) [OF F]] init] .
      then have "calls = []"
        using loads_faithfullyD(1) [OF flash_reliableD(4) [OF F] load] empty by simp
      then show ?thesis
        using Init_nothing_valid [OF init [unfolded rc] load _ save, of new_guard] I
        by (simp add: kReserve_def)
    qed
    then show ?thesis using first_boot_inv [OF F empty I] by (simp add: reserve_inv_def)
  qed
  moreover have "reserve_inv P stored s \<Longrightarrow> guard_accept P c s = (ok, s') \<Longrightarrow> reserve_inv P stored s'"
    for s c ok s' by (rule guard_accept_reserve)
  ultimately have inv: "reserve_inv P stored (g, e1)"
    using run_accepts_invariant [where Q = "reserve_inv P stored", OF _ R] by blast
  then have C: "ceiling_inv P stored (g, e1)" by (simp add: reserve_inv_def)
  have st: "stored e2 ceiling_key = Some (u32_mem (mCeiling g))" "mCeiling g \<noteq> 0"
    using C e2 by (simp_all add: ceiling_inv_def)
  have "mFloor g' = mCeiling g"
  proof -
    obtain rc x where init: "settings_subsys_init P e2 = (rc, x)" by fastforce
    obtain calls rc' y where load: "settings_load_subtree_direct P ceiling_key x = (calls, rc', y)"
      by (metis prod_cases3)
    have rc: "rc = 0" using flash_reliableD(2) [OF F init] .
    from Init_stored [OF flash_reliableD(1) [OF F] flash_reliableD(4) [OF F] init [unfolded rc] st load,
        of new_guard] I2
    show ?thesis by simp
  qed
  then show ?thesis using C inv by (simp add: ceiling_inv_def reserve_inv_def)
qed

theorem restart_skips_at_most_a_reservation_witness:
  "(5 :: u32) \<le> 64 \<and> unat (64 :: u32) \<le> unat (5 :: u32) + 64"
proof -
  let ?e = "w0\<lparr>w_flash := [ceiling_key \<mapsto> u32_mem 64]\<rparr>"
  have "guard_accept (demo False) 1 (demo_guard 0 64, ?e) = (True, demo_guard 1 64, ?e)"
    "guard_accept (demo False) 5 (demo_guard 1 64, ?e) = (True, demo_guard 5 64, ?e)"
    "guard_accept (demo False) 3 (demo_guard 5 64, ?e) = (False, demo_guard 5 64, ?e)"
    by (simp_all add: guard_accept_def Accept_within_reservation Accept_stale IsFresh_def demo_guard_def)
  then have "run_accepts (guard_accept (demo False)) [1, 5, 3] (demo_guard 0 64, ?e) =
      ([1, 5], demo_guard 5 64, ?e)"
    by simp
  from restart_skips_at_most_a_reservation [OF demo_flash_reliable _ demo_guard_Init this refl
      demo_guard_wakes [of ?e 64]]
  show ?thesis by (simp add: w0_def demo_guard_def)
qed

text \<open>
  C13. A save that fails while the reservation is extended: the request is refused, but the
  guard keeps the ceiling that flash does not hold. The next counters up to it are accepted
  with no save at all, and after a reset they are fresh again, so a request answered before
  the reset is answered again after it. (With C1 this is exactly the case that a working
  flash excludes.)
\<close>

theorem failed_save_reopens_replay:
  assumes F: "flash_ok P stored" "loads_faithfully P stored"
    and g: "IsFresh g c" "mCeiling g \<le> c" "\<not> c + kReserve < c" "mPersistent g" "mCeiling g \<noteq> 0"
    and st: "stored e ceiling_key = Some (u32_mem (mCeiling g))"
    and fails: "settings_save_one P ceiling_key (u32_mem (c + kReserve)) e = (rc, e1)" "rc \<noteq> 0"
      "stored e1 = stored e"
    and c': "c < c'" "c' < c + kReserve"
    and reset: "settings_subsys_init P e1 = (0, e2)"
  shows "\<exists>g1 g2 g3 e3.
    Accept P c g e = (CHIP_ERROR_PERSISTED_STORAGE_FAILED, g1, e1) \<and>
    Accept P c' g1 e1 = (CHIP_NO_ERROR, g2, e1) \<and>
    ReplayGuard_Init P new_guard e1 = (CHIP_NO_ERROR, g3, e3) \<and> IsFresh g3 c'"
proof -
  have "IsFresh g c'" using g(1) c'(1) by (auto simp: IsFresh_def)
  note after = Accept_after_persist_failure [OF this c'(2), of P e1]
  obtain calls rc' e3 where load: "settings_load_subtree_direct P ceiling_key e2 = (calls, rc', e3)"
    by (metis prod_cases3)
  have "stored e1 ceiling_key = Some (u32_mem (mCeiling g))" using st fails(3) by simp
  note wake = Init_stored [OF F reset this g(5) load, of new_guard]
  have "mCeiling g < c'" using g(2) c'(1) by simp
  with Accept_persist_failure [OF g(1-4) fails(1,2)] after wake show ?thesis
    by (simp add: IsFresh_def)
qed

theorem failed_save_reopens_replay_witness:
  "\<exists>g1 g2 g3 e3.
    Accept (demo True) 64 (demo_guard 63 64) (w1\<lparr>w_save_fails := True\<rparr>) =
      (CHIP_ERROR_PERSISTED_STORAGE_FAILED, g1, w1\<lparr>w_save_fails := True\<rparr>) \<and>
    Accept (demo True) 65 g1 (w1\<lparr>w_save_fails := True\<rparr>) = (CHIP_NO_ERROR, g2, w1\<lparr>w_save_fails := True\<rparr>) \<and>
    ReplayGuard_Init (demo True) new_guard (w1\<lparr>w_save_fails := True\<rparr>) = (CHIP_NO_ERROR, g3, e3) \<and>
    IsFresh g3 65"
proof -
  have "loads_faithfully (demo True) w_flash" by (simp add: loads_faithfully_def demo_def)
  then show ?thesis
    by (rule failed_save_reopens_replay [OF demo_flash_ok, where rc = "-5" and ?e2.0 = "w1\<lparr>w_save_fails := True\<rparr>"])
       (simp_all add: IsFresh_def demo_guard_def kReserve_def w1_def demo_def)
qed

text \<open>
  C14. A load that reports no valid ceiling, because none is stored or because reading it
  failed, makes the device forget: the floor is 0 again and the first reservation is written
  over the ceiling that may be in flash.
\<close>

theorem failed_load_forgets_ceiling:
  assumes F: "flash_ok P stored" and init: "settings_subsys_init P e = (0, e1)"
    and load: "settings_load_subtree_direct P ceiling_key e1 = (calls, rc, e2)"
      "list_all (\<lambda>c. lc_len c \<noteq> 4 \<or> lc_ret c \<noteq> 4) calls"
    and save: "settings_save_one P ceiling_key (u32_mem kReserve) e2 = (0, e3)"
  shows "ReplayGuard_Init P g e =
      (CHIP_NO_ERROR, \<lparr>mFloor = 0, mCeiling = 64, mPersistent = True\<rparr>, e3) \<and>
    stored e3 ceiling_key = Some (u32_mem 64)"
proof -
  have "list_all (\<lambda>c. \<not> valid_ceiling_call c) calls"
    using load(2) by (simp add: list_all_iff valid_ceiling_call_def)
  from Init_nothing_valid [OF init load(1) this save, of g] flash_okD(5) [OF F save]
  show ?thesis by (simp add: kReserve_def)
qed

definition demo_unreadable :: "world platform" where
  "demo_unreadable = (demo False)\<lparr>settings_load_subtree_direct :=
     (\<lambda>k e. ([\<lparr>lc_len = 4, lc_ret = -5, lc_data = []\<rparr>], -5, e))\<rparr>"

lemma demo_unreadable_flash_ok: "flash_ok demo_unreadable w_flash"
  unfolding flash_ok_def steps_by_def
  by (intro conjI allI) (simp_all add: demo_unreadable_def demo_def split: option.splits)

theorem failed_load_forgets_ceiling_witness:
  "w_flash w5 ceiling_key = Some (u32_mem 129) \<and>
   ReplayGuard_Init demo_unreadable new_guard w5 =
     (CHIP_NO_ERROR, \<lparr>mFloor = 0, mCeiling = 64, mPersistent = True\<rparr>,
      w5\<lparr>w_flash := (w_flash w5)(ceiling_key \<mapsto> u32_mem 64)\<rparr>)"
proof -
  have "ReplayGuard_Init demo_unreadable new_guard w5 =
     (CHIP_NO_ERROR, \<lparr>mFloor = 0, mCeiling = 64, mPersistent = True\<rparr>,
      w5\<lparr>w_flash := (w_flash w5)(ceiling_key \<mapsto> u32_mem 64)\<rparr>)"
    by (rule failed_load_forgets_ceiling [where calls = "[\<lparr>lc_len = 4, lc_ret = -5, lc_data = []\<rparr>]",
          THEN conjunct1, OF demo_unreadable_flash_ok])
       (simp_all add: demo_unreadable_def demo_def kReserve_def)
  then show ?thesis by (simp add: w5_def)
qed

text \<open>
  C15. The end of the counter range: at the ceiling a fresh counter is refused with an
  internal error exactly when adding the reservation would leave 32 bits; otherwise the new
  ceiling is the counter plus 64, as integers, and the answer is that of the save.
\<close>

theorem reservation_never_wraps:
  assumes "IsFresh g c" "mCeiling g \<le> c"
  shows "if 2 ^ 32 \<le> unat c + 64 then Accept P c g e = (CHIP_ERROR_INTERNAL, g, e)
    else \<exists>err g' e'. Accept P c g e = (err, g', e') \<and> unat (mCeiling g') = unat c + 64 \<and>
      (err = CHIP_NO_ERROR \<longleftrightarrow>
        \<not> mPersistent g \<or> fst (settings_save_one P ceiling_key (u32_mem (c + kReserve)) e) = 0) \<and>
      mFloor g' = (if err = CHIP_NO_ERROR then c else mFloor g)"
proof (cases "c + kReserve < c")
  case True
  with Accept_exhausted [OF assms] show ?thesis by (simp add: wrap_guard_iff)
next
  case False
  then have "\<not> 2 ^ 32 \<le> unat c + 64" by (simp add: wrap_guard_iff)
  moreover obtain rc e' where "settings_save_one P ceiling_key (u32_mem (c + kReserve)) e = (rc, e')"
    by fastforce
  ultimately show ?thesis
    using assms False unat_add_reserve [OF False]
    by (auto simp: Accept_def PersistCeiling_def Let_def)
qed

theorem reservation_never_wraps_witness:
  "Accept (demo False) 0xFFFFFFC0 (demo_guard 5 64) w1 = (CHIP_ERROR_INTERNAL, demo_guard 5 64, w1) \<and>
   (\<exists>err g' e'. Accept (demo False) 0xFFFFFFBF (demo_guard 5 64) w1 = (err, g', e') \<and>
      unat (mCeiling g') = 0xFFFFFFFF)"
  using reservation_never_wraps [of "demo_guard 5 64" "0xFFFFFFC0" "demo False" w1]
    reservation_never_wraps [of "demo_guard 5 64" "0xFFFFFFBF" "demo False" w1]
  by (auto simp: IsFresh_def demo_guard_def)

text \<open>
  A replayed or stale counter is answered with the current floor, so that the client can
  resynchronise; guard and flash stay as they are.
\<close>

lemma stale_counter_gets_floor:
  assumes F: "flash_ok P stored" and ready: "gReplayReady d"
    and P: "ProcessRequest P cfg inp outCap d = ((bs, r), d')" and sec: "CONFIG_TUNNEL_SECURITY cfg"
    and ty: "inp \<noteq> []" "inp ! 0 = kTypeSignedRequest" and bs: "bs \<noteq> []" "bs ! 0 = kTypeReplayReject"
  shows "bs = kTypeReplayReject # PutU32 (mFloor (gReplay d)) \<and> r = Reject_None \<and>
    gReplay d' = gReplay d \<and> stored (env d') = stored (env d)"
proof -
  have "signed_request P cfg (\<lambda>_. inp) outCap d = ((bs, r), d')"
    using P ty sec by (simp add: ProcessRequest_def ProcessRequest_view_def Let_def type_defs)
  from replay_reject_reports_floor [OF F ready this bs] show ?thesis .
qed

text \<open>
  A payload of more than 256 bytes is found too long only at the end of the signed arm:
  its counter is spent and the client gets a rejection instead of an answer.
\<close>

lemma oversize_payload_spends_counter:
  assumes S: "signed_request P cfg view outCap d = ((bs, r), d')"
    and parse: "signed_parse (view 0) = Some (c, n, m)" "256 < n"
    and init: "EnsureBundle P d = (True, d1)" "EnsureReplay P cfg d1 = (True, d2)"
    and auth: "auth_gate P cfg c (payload_at (view 1) n) (sig_at (view 2) n m) d2 = (None, d3)"
    and acc: "Accept P c (gReplay d3) (env d3) = (CHIP_NO_ERROR, g, e)"
  shows "bs = [] \<and> r \<noteq> Reject_None \<and> gReplay d' = g \<and> mFloor g = c"
proof -
  have "consume_counter P c d3 = (None, d3\<lparr>gReplay := g, env := e\<rparr>)"
    using acc Accept_okD(1) [OF acc] by (simp add: consume_counter_def)
  from oversize_consumes [OF S parse init auth this] show ?thesis by auto
qed

end
