(* ===== verification/Registration_Properties.thy ===== *)
theory Registration_Properties
  imports Demo_Platform
begin

text \<open>
  The registration window and the key store: how long a press counts, what it admits, when
  the button works at all, and what a registration is worth when flash does not keep it.
\<close>

text \<open>
  A press of Button 4 (mask bit set in both words) opens the window for exactly 60
  seconds from the press, also when one was open before; releasing it, or another button,
  does nothing.
\<close>

lemma press_opens_for_a_minute:
  assumes "mHandlersAdded ks \<noteq> 0" and "0 \<le> k_uptime_get P e"
  shows "WindowOpen P (button_event P button_state has_changed e ks) e' \<longleftrightarrow>
    (if bit button_state 3 \<and> bit has_changed 3 then k_uptime_get P e' < k_uptime_get P e + 60000
     else WindowOpen P ks e')"
proof -
  have "kRegisterButtonMask = 2 ^ 3" by (simp add: kRegisterButtonMask_def)
  then have m: "bit kRegisterButtonMask n \<longleftrightarrow> n = 3" for n
    using bit_exp_iff [of 3 n, where 'a = "32 word"] by (auto simp: possible_bit_def)
  have "(kRegisterButtonMask AND has_changed) AND button_state =
      (if bit button_state 3 \<and> bit has_changed 3 then kRegisterButtonMask else 0)"
    by (rule bit_word_eqI) (auto simp: m bit_and_iff)
  moreover have "kRegisterButtonMask \<noteq> 0" by (simp add: kRegisterButtonMask_def)
  ultimately have "(kRegisterButtonMask AND has_changed) AND button_state \<noteq> 0 \<longleftrightarrow>
      bit button_state 3 \<and> bit has_changed 3" by simp
  then show ?thesis
    using assms OpenWindow_until [OF assms(2), of ks e']
    by (auto simp: button_event_def ButtonHandler_def kRegistrationWindowMs_def)
qed

text \<open>
  One opening admits one key: of any sequence of registration attempts at most one
  succeeds, it is the last one recorded, and it shuts the window; if none does, nothing has
  changed.
\<close>

lemma one_key_per_opening:
  assumes "run_registers (gate_register P) keys (ks, e) = (accepted, ks', e')"
  shows "(accepted = [] \<and> ks' = ks \<and> e' = e) \<or>
    (\<exists>key. accepted = [key] \<and> length key = 32 \<and> Key ks' = key \<and> \<not> WindowOpen P ks' e')"
proof -
  have "(accepted = [] \<and> (ks', e') = (ks, e)) \<or>
    (\<exists>key. accepted = [key] \<and> (if HasKey ks' then Some (Key ks') else None) = Some key \<and>
       \<not> WindowOpen P ks' e')"
    using gate.one_registration_per_opening [OF assms] by (auto split: if_splits)
  moreover have "length key = 32" if "key \<in> set accepted" for key
    using assms that
  proof (induction keys arbitrary: ks e accepted)
    case (Cons k keys)
    obtain ok ks1 e1 where g: "gate_register P k (ks, e) = (ok, ks1, e1)" by (metis prod_cases3)
    obtain as1 where t: "run_registers (gate_register P) keys (ks1, e1) = (as1, ks', e')"
      "accepted = (if ok then k # as1 else as1)"
      using Cons.prems(1) g by (auto simp: Let_def split: prod.splits)
    have "length k = 32" if ok
      using g that by (auto simp: gate_register_True elim: Register_ok_cases)
    with Cons.IH [OF t(1)] Cons.prems(2) t(2) show ?case by (auto split: if_splits)
  qed simp
  ultimately show ?thesis by (auto split: if_splits)
qed

text \<open>
  C20. Before the first signed request of a boot the button is dead: however often it is
  pressed and whatever identity, echo or registration requests arrive, no registration is
  acknowledged and the window stays shut. The handler is installed together with the replay
  guard, by the first request of type 0x02.
\<close>

theorem button_dead_before_first_signed_request:
  assumes "run (dev_step P cfg stored drift) (boot e) ls d" and "\<not> list_ex signed_label ls"
  shows "\<not> list_ex acks ls \<and> mWindowUntilMs (gStore d) = 0 \<and> \<not> WindowOpen P (gStore d) e'"
  using run_unarmed [OF assms(1) unarmed_boot assms(2)] by (simp add: unarmed_def WindowOpen_def)

theorem button_dead_before_first_signed_request_witness:
  "\<not> WindowOpen (demo False) (gStore ((boot w0)\<lparr>gStore := button_event (demo False) 8 8 w0 new_store\<rparr>)) w0"
proof -
  have "run (dev_step (demo False) full_config w_flash demo_drift) (boot w0) [L_Button 8 8]
      ((boot w0)\<lparr>gStore := button_event (demo False) 8 8 (env (boot w0)) (gStore (boot w0))\<rparr>)"
    by (simp add: run_cons_simp dev_step.button)
  from button_dead_before_first_signed_request [OF this, of w0] show ?thesis
    by (simp add: boot_def)
qed

text \<open>A well-formed registration inside the window is recorded and, if it can be signed, acknowledged.\<close>

lemma well_formed_registration_acknowledged:
  assumes cfg: "CONFIG_TUNNEL_SECURITY cfg" "CONFIG_TUNNEL_CLIENT_AUTH cfg"
    and d: "gBundleLen d \<noteq> 0" "WindowOpen P (gStore d) (env d)" "length (gDevicePub d) \<le> kPublicKeyLenMax"
    and key: "length key = 32" and cap: "101 \<le> cap"
    and sig: "\<And>pre e. \<exists>sig e'. Sign P (gSigner d) pre kSignatureLen e = (0, sig, e')"
  obtains ks e1 sig e2 m where "Register P key (gStore d) (env d) = (CHIP_NO_ERROR, ks, e1)"
    "Sign P (gSigner d) m kSignatureLen e1 = (0, sig, e2)" "Key ks = key"
    "ProcessRequest P cfg ([kTypeRegisterClientKey] @ put_field key) cap d =
      (([kTypeRegisterAck] @ put_field key @ put_field sig, Reject_None), d\<lparr>gStore := ks, env := e2\<rparr>)"
proof -
  obtain err ks e1 where "Register P key (gStore d) (env d) = (err, ks, e1)" by (metis prod_cases3)
  moreover from this have "err = CHIP_NO_ERROR"
    using d(2) key by (auto simp: Register_def kKeySize_def Let_def split: if_splits prod.splits)
  ultimately have reg: "Register P key (gStore d) (env d) = (CHIP_NO_ERROR, ks, e1)" by simp
  from registration_reply [OF cfg d(1,3) cap key reg] obtain pre where "Key ks = key"
    and "\<And>sig e2. Sign P (gSigner d) pre kSignatureLen e1 = (0, sig, e2) \<Longrightarrow>
      ProcessRequest P cfg (registration_of key) cap d =
        (([kTypeRegisterAck] @ put_field key @ put_field sig, Reject_None), d\<lparr>gStore := ks, env := e2\<rparr>)"
    by blast
  moreover obtain sg e2 where "Sign P (gSigner d) pre kSignatureLen e1 = (0, sg, e2)" using sig by blast
  ultimately show thesis using that [OF reg] by (simp add: registration_of_def)
qed

text \<open>
  C21. A registration is acknowledged whether or not the key was saved. When the save fails
  and leaves flash as it was, a well-formed registration inside the window still gets the
  signed acknowledgement of the new key, whatever key the device had before (also one already
  imported), as long as the bundle is ready, the device key fits its buffer, and the
  acknowledgement can be signed and fits the response. After the next power cycle, through
  any later life without a press of Button 4, the device has no key other than the one flash held before the
  registration: the client was told that it is registered, and after a reset it is not. (Flash
  changes by saves only and loads return what is stored; other components may erase the key.)
\<close>

theorem registration_ignores_failed_save:
  assumes F: "flash_ok P stored" "loads_faithfully P stored" and D: "keeps_client_key stored er drift"
    and cfg: "CONFIG_TUNNEL_SECURITY cfg" "CONFIG_TUNNEL_CLIENT_AUTH cfg"
    and d: "gBundleLen d \<noteq> 0" "WindowOpen P (gStore d) (env d)" "length (gDevicePub d) \<le> kPublicKeyLenMax"
    and key: "length key = 32" and cap: "101 \<le> cap"
    and fails: "\<And>e rc e'. settings_save_one P clientkey_key key e = (rc, e') \<Longrightarrow> rc \<noteq> 0 \<and> stored e' = stored e"
    and sig: "\<And>pre e. \<exists>sig e'. Sign P (gSigner d) pre kSignatureLen e = (0, sig, e')"
  shows "\<exists>sig d'. ProcessRequest P cfg ([kTypeRegisterClientKey] @ put_field key) cap d =
      (([kTypeRegisterAck] @ put_field key @ put_field sig, Reject_None), d') \<and>
    Key (gStore d') = key \<and>
    (\<forall>ls d2. run (dev_step P cfg stored drift) d' (L_PowerCycle # ls) d2 \<and> \<not> list_ex presses ls \<and>
       HasKey (gStore d2) \<longrightarrow> stored (env d) clientkey_key = Some (Key (gStore d2)))"
proof -
  obtain ks e1 sg e2 m where reg: "Register P key (gStore d) (env d) = (CHIP_NO_ERROR, ks, e1)"
    and sg: "Sign P (gSigner d) m kSignatureLen e1 = (0, sg, e2)" and ks: "Key ks = key"
    and ack: "ProcessRequest P cfg ([kTypeRegisterClientKey] @ put_field key) cap d =
      (([kTypeRegisterAck] @ put_field key @ put_field sg, Reject_None), d\<lparr>gStore := ks, env := e2\<rparr>)"
    by (rule well_formed_registration_acknowledged [OF cfg d key cap sig])
  let ?d = "d\<lparr>gStore := ks, env := e2\<rparr>"
  have "stored e1 = stored (env d)"
    using reg
  proof (cases rule: Register_ok_cases)
    case (1 e0 rc)
    have "stored e0 = stored (env d)" using 1(4) flash_okD(2) [OF F(1)] by auto
    with fails [OF 1(5)] show ?thesis by simp
  qed
  then have same: "stored e2 = stored (env d)"
    using Sign_steps [OF flash_okD(1) [OF F(1)] reflp_eq sg] by simp
  have "stored (env d) clientkey_key = Some (Key (gStore d2))"
    if R: "run (dev_step P cfg stored drift) ?d (L_PowerCycle # ls) d2" and quiet: "\<not> list_ex presses ls"
      and has: "HasKey (gStore d2)" for ls d2
  proof -
    obtain e lost where b: "lost = e2 \<or> power_loss_point P (gReplay ?d, e2) lost" "stored e = stored lost"
      and R2: "run (dev_step P cfg stored drift) (boot e) ls d2"
      using R by (elim run_consE dev_powerE) (auto intro: that)
    have "stored e clientkey_key = stored (env d) clientkey_key"
      using b power_loss_clientkey [OF F(1)] same by (elim disjE) auto
    with run_undisturbed [OF F D R2 quiet undisturbed_boot] has show ?thesis
      by (simp add: undisturbed_def)
  qed
  with ack ks show ?thesis by (intro exI [of _ sg] exI [of _ ?d] conjI) (simp, simp, blast)
qed

definition demo_unsaved :: "world platform" where
  "demo_unsaved = (demo False)\<lparr>settings_save_one := (\<lambda>k v e. (-5, e)),
     psa_sign_message := (\<lambda>h a m n e. (0, take n (rev m), e))\<rparr>"

lemma demo_unsaved_flash: "flash_ok demo_unsaved w_flash" "loads_faithfully demo_unsaved w_flash"
  unfolding flash_ok_def steps_by_def loads_faithfully_def
  by ((intro conjI allI)?, simp_all add: demo_unsaved_def demo_def split: option.splits)

theorem registration_ignores_failed_save_witness:
  "\<exists>sig d'. ProcessRequest demo_unsaved full_config
      ([kTypeRegisterClientKey] @ put_field (replicate 32 7)) 512
      (demo_core (demo_guard 2 64) ((demo_key_store 0x5402)\<lparr>mWindowUntilMs := 61000\<rparr>) w3) =
      (([kTypeRegisterAck] @ put_field (replicate 32 7) @ put_field sig, Reject_None), d') \<and>
    Key (gStore d') = replicate 32 7 \<and>
    (\<forall>ls d2. run (dev_step demo_unsaved full_config w_flash demo_drift) d' (L_PowerCycle # ls) d2 \<and>
       \<not> list_ex presses ls \<and> HasKey (gStore d2) \<longrightarrow> Key (gStore d2) = client_key)"
proof -
  let ?d = "demo_core (demo_guard 2 64) ((demo_key_store 0x5402)\<lparr>mWindowUntilMs := 61000\<rparr>) w3"
  have opened: "WindowOpen demo_unsaved (gStore ?d) (env ?d)"
    by (simp add: WindowOpen_def demo_key_store_def demo_unsaved_def demo_def w3_def w2_def w1_def w0_def)
  have fails: "settings_save_one demo_unsaved clientkey_key k e = (rc, e') \<Longrightarrow> rc \<noteq> 0 \<and> w_flash e' = w_flash e"
    for k e rc e' by (auto simp: demo_unsaved_def)
  have sig: "\<exists>sig e'. Sign demo_unsaved (gSigner ?d) pre kSignatureLen e = (0, sig, e')" for pre e
    by (simp add: Sign_def Ready_def demo_unsaved_def)
  have "w_flash (env ?d) clientkey_key = Some client_key" by (simp add: w3_def w2_def)
  then show ?thesis
    using registration_ignores_failed_save [OF demo_unsaved_flash
        drift_keeps_flash_client_key [OF demo_drift_keeps_flash, of False] _ _ _ opened _ _ _ fails sig,
        of full_config "replicate 32 7" 512]
    by (fastforce simp: full_config_def demo_device_key_def kPublicKeyLenMax_def)
qed

text \<open>
  A device without a registered key answers nothing: with client authentication, as
  long as flash holds no client key and nobody presses the button, no signed response is
  ever sent, over any number of boots.
\<close>

lemma keyless_device_answers_nothing:
  assumes F: "flash_ok P stored" "loads_faithfully P stored" and D: "keeps_client_key stored er drift"
    and cfg: "CONFIG_TUNNEL_CLIENT_AUTH cfg" and none: "stored e clientkey_key = None"
    and R: "run (dev_step P cfg stored drift) (boot e) ls d" and quiet: "\<not> list_ex presses ls"
  shows "served_counters ls = []"
proof -
  have "served_counters ls = []"
    if "run (dev_step P cfg stored drift) d0 ls d" "undisturbed stored er None d0" for d0
    using that quiet
  proof (induction rule: run.induct)
    case (run_cons d l d1 ls d2)
    have u: "undisturbed stored er None d1"
      using dev_step_undisturbed [OF F D run_cons.hyps(1)] run_cons.prems by simp
    have "served l = None"
      using run_cons.hyps(1)
    proof (cases rule: dev_step_cases)
      case (request view cap bs r)
      have "response_counter bs \<noteq> Some c" for c
      proof
        assume c: "response_counter bs = Some c"
        then have bs: "bs \<noteq> []" "bs ! 0 = kTypeSignedResponse" by (simp_all add: response_counter_Some)
        show False
        proof (rule signed_reply_cases [OF request(2) bs])
          fix b n m x1 x2 x3 x4 sig
          assume a: "auth_gate P cfg b (payload_at (view 1) n) (sig_at (view 2) n m) x2 = (None, x3)"
            and cc: "consume_counter P b x3 = (None, x4)"
            and sr: "sign_response P b (payload_at (view 3) n) x4 = (Inr sig, d1)"
          have "authenticate P b (payload_at (view 1) n) (sig_at (view 2) n m) x2 = (None, x3)"
            using a cfg by (simp add: auth_gate_def)
          then have "HasKey (gStore x3)"
            using authenticate_store by (cases rule: authenticate_passed_cases)
              (auto simp: HasKey_def dest: store_Verify_fields)
          then have "HasKey (gStore d1)"
            using consume_counter_frame [OF cc] sign_response_frame [OF sr] by auto
          with u show False by (simp add: undisturbed_def)
        qed
      qed
      then show ?thesis using request(1) by (cases "response_counter bs") auto
    qed simp_all
    with run_cons.IH [OF u] run_cons.prems(2) show ?case
      by (simp add: served_counters_def map_filter_simps)
  qed (simp add: served_counters_def map_filter_simps)
  from this [OF R] show ?thesis
    using undisturbed_boot [of stored er e] none by simp
qed

end
