(* ===== verification/Protocol_Properties.thy ===== *)
theory Protocol_Properties
  imports Demo_Platform
begin

text \<open>
  The wire formats and the identity bundle: what the signed bytes determine, which requests
  parse, how a client obtains the bundle, and what the bundle says.
\<close>

text \<open>
  C22. Signature preimages are unambiguous: two of them are equal only for the same
  direction, counter, device key and payload. With different device keys not even
  extensions of them coincide, so a signature for one device is worthless at another.
\<close>

theorem preimages_are_unambiguous:
  assumes "BuildPreimage dir c k p n = (CHIP_NO_ERROR, m)" and "length k < 65536"
    and "BuildPreimage dir' c' k' p' n' = (CHIP_NO_ERROR, m')" and "length k' < 65536"
  shows "(m = m' \<longleftrightarrow> dir = dir' \<and> c = c' \<and> k = k' \<and> p = p') \<and>
    (k \<noteq> k' \<longrightarrow> (\<forall>x y. m @ x \<noteq> m' @ y))"
  using BuildPreimage_inject [OF assms(1,2), of dir' c' k' p' n'] assms(3,4)
    BuildPreimage_okD(1) [OF assms(1)] BuildPreimage_okD(1) [OF assms(3)]
    preimage_device_bound [OF assms] by blast

theorem preimages_are_unambiguous_witness:
  "demo_preimage kDirRequest 5 [1] \<noteq> demo_preimage kDirResponse 5 [1]"
proof -
  have b: "BuildPreimage dir 5 demo_device_key [1] 223 = (CHIP_NO_ERROR, demo_preimage dir 5 [1])" for dir
    by (rule demo_preimage_BuildPreimage) simp_all
  have l: "length demo_device_key < 65536" by (simp add: demo_device_key_def)
  show ?thesis using preimages_are_unambiguous [OF b l b l] by simp
qed

text \<open>
  C23. The signed request's parser accepts exactly the encodings, with anything behind them:
  a buffer of type 0x02 parses to a counter and two lengths if and only if it starts with
  the encoding of that counter, a payload and a signature of these lengths; payload and
  signature are then read back from it.
\<close>

theorem signed_request_format:
  assumes "inp ! 0 = kTypeSignedRequest"
  shows "signed_parse inp = Some (c, n, m) \<longleftrightarrow>
    (\<exists>payload csig rest. inp = encode_signed c payload csig @ rest \<and>
      length payload = n \<and> length csig = m \<and> n < 65536 \<and> m < 65536 \<and>
      payload_at inp n = payload \<and> sig_at inp n m = csig)"
proof
  assume "signed_parse inp = Some (c, n, m)"
  note p = signed_parse_SomeD [OF this assms]
  show "\<exists>payload csig rest. inp = encode_signed c payload csig @ rest \<and>
      length payload = n \<and> length csig = m \<and> n < 65536 \<and> m < 65536 \<and>
      payload_at inp n = payload \<and> sig_at inp n m = csig"
    by (rule exI [of _ "payload_at inp n"], rule exI [of _ "sig_at inp n m"],
        rule exI [of _ "drop (9 + n + m) inp"]) (intro conjI p refl)
next
  assume "\<exists>payload csig rest. inp = encode_signed c payload csig @ rest \<and>
      length payload = n \<and> length csig = m \<and> n < 65536 \<and> m < 65536 \<and>
      payload_at inp n = payload \<and> sig_at inp n m = csig"
  then obtain payload csig rest where "inp = encode_signed c payload csig @ rest"
    "length payload = n" "length csig = m" "n < 65536" "m < 65536"
    by blast
  then show "signed_parse inp = Some (c, n, m)"
    using signed_parse_encode(1) [of payload csig c rest] by simp
qed

theorem signed_request_format_witness:
  "signed_parse [2, 0,0,0,9, 0,1, 0xAA, 0,2, 0xBB, 0xCC, 0xDD] = Some (9, 1, 2)"
proof -
  let ?inp = "[2, 0,0,0,9, 0,1, 0xAA, 0,2, 0xBB, 0xCC, 0xDD] :: byte list"
  have "?inp = encode_signed 9 [0xAA] [0xBB, 0xCC] @ [0xDD]"
    by code_simp
  moreover have "payload_at ?inp 1 = [0xAA]" "sig_at ?inp 1 2 = [0xBB, 0xCC]"
    by (simp_all add: payload_at_def sig_at_def)
  moreover have "?inp ! 0 = kTypeSignedRequest" by (simp add: type_defs)
  ultimately show ?thesis
    using signed_request_format [of ?inp 9 1 2] by fastforce
qed

text \<open>
  Dispatch: an empty request and a request whose type this configuration does not have
  are rejected as invalid without any effect; an echo returns its bytes verbatim, or a
  constraint error when they do not fit, in every configuration.
\<close>

lemma requests_by_type:
  "(inp = [] \<or> inp ! 0 \<notin> {kTypeEcho} \<union>
      (if CONFIG_TUNNEL_SECURITY cfg then {kTypeIdentityRequest, kTypeSignedRequest} else {}) \<union>
      (if CONFIG_TUNNEL_SECURITY cfg \<and> CONFIG_TUNNEL_CLIENT_AUTH cfg then {kTypeRegisterClientKey} else {})
    \<longrightarrow> ProcessRequest P cfg inp cap d = (([], InvalidCommand), d)) \<and>
   (inp \<noteq> [] \<and> inp ! 0 = kTypeEcho \<longrightarrow> ProcessRequest P cfg inp cap d =
      (if length inp \<le> cap then (inp, Reject_None) else ([], ConstraintError), d))"
  by (auto simp: ProcessRequest_def ProcessRequest_view_def echo_request_def Let_def Suc_le_eq
      split: if_splits)

text \<open>
  C25. A client obtains the identity bundle: asking for the chunk at the end of what it
  holds, it has the whole bundle after at most three exchanges, whatever the bundle's length
  (at most 1200 bytes); the first exchange builds the bundle and the others change nothing.
  It takes exactly \<open>\<lceil>length / 400\<rceil>\<close> exchanges, so three for the 1060 bytes of the reference
  device.
\<close>

theorem identity_fetch_complete:
  assumes cfg: "CONFIG_TUNNEL_SECURITY cfg" and cap: "405 \<le> outCap" and wf: "core_wf d"
    and E: "EnsureBundle P d = (True, d1)"
  shows "fetch_bundle (ProcessRequest P cfg) outCap 3 [] d = (Some (gBundle d1), d1) \<and>
    (\<forall>n > 0. fetch_bundle (ProcessRequest P cfg) outCap n [] d =
      (if length (gBundle d1) \<le> 400 * n then Some (gBundle d1) else None, d1))"
proof -
  have wf1: "core_wf d1" by (rule EnsureBundle_wf [OF E wf])
  have ne: "gBundleLen d1 \<noteq> 0" by (rule EnsureBundle_ok_len [OF E])
  have len: "length (gBundle d1) = gBundleLen d1" "gBundleLen d1 \<le> 1200"
    using wf1 ne by (simp_all add: core_wf_def)
  note built = fetch_bundle_built [OF cfg cap wf1 ne, of P]
  have all: "fetch_bundle (ProcessRequest P cfg) outCap n [] d =
      (if length (gBundle d1) \<le> 400 * n then Some (gBundle d1) else None, d1)" if "0 < n" for n
    using that fetch_bundle_first [OF E cfg, of outCap n] built [of n] len(1) by simp
  then show ?thesis using all [of 3] len by simp
qed

theorem identity_fetch_complete_witness:
  "fst (fetch_bundle (ProcessRequest (demo False) full_config) 512 3 [] (boot w0)) = Some demo_bundle"
  using identity_fetch_complete [OF _ _ core_wf_boot demo_EnsureBundle, of full_config 512 False]
  by (simp add: full_config_def)

text \<open>
  C26. The bundle binds the tunnel key to the device: when it is built, the attestation key
  has signed version, algorithm and exactly the public key of the signer that will answer
  requests, and parsing the bundle returns these fields with that signature and the two
  certificates of the provider, byte for byte.
\<close>

theorem bundle_binds_tunnel_key:
  assumes "BuildIdentityBundle P signer n e = (CHIP_NO_ERROR, bundle, e')"
  shows "\<exists>pubkey dacSig dac pai e1 e2 e3.
    ExportPublicKey P signer kPublicKeyLenMax e = (0, pubkey, e1) \<and>
    SignWithDeviceAttestationKey P ([1, wire_alg (mAlg signer)] @ pubkey) 64 e1 =
      (CHIP_NO_ERROR, dacSig, e2) \<and>
    GetDeviceAttestationCert P 640 e2 = (CHIP_NO_ERROR, dac, e3) \<and>
    GetProductAttestationIntermediateCert P 640 e3 = (CHIP_NO_ERROR, pai, e') \<and>
    read_bundle bundle = Some (1, wire_alg (mAlg signer), pubkey, dacSig, dac, pai) \<and>
    length bundle = 10 + length pubkey + length dacSig + length dac + length pai \<and>
    length bundle \<le> n"
  using assms
proof (cases rule: BuildIdentityBundle_ok_cases)
  case (1 pubkey dacSig dac pai e1 e2 e3)
  then have "read_bundle bundle = Some (1, wire_alg (mAlg signer), pubkey, dacSig, dac, pai)"
    "length bundle = 10 + length pubkey + length dacSig + length dac + length pai"
    using read_bundle_bundle_bytes by (simp_all add: kIdentityBundleVersion_def length_bundle_bytes)
  with 1 show ?thesis
    by (auto simp: kIdentityBundleVersion_def kDacSigSize_def kCertBufSize_def)
qed

lemma demo_BuildIdentityBundle:
  "BuildIdentityBundle (demo f) \<lparr>mKeyId = 0x5401, mAlg = Ed25519\<rparr> 1200 w1 = (CHIP_NO_ERROR, demo_bundle, w1)"
  by (simp add: demo_sig_defs demo_def w1_def demo_device_key_def demo_bundle_def length_bundle_bytes Let_def)

theorem bundle_binds_tunnel_key_witness:
  "\<exists>dacSig. read_bundle demo_bundle = Some (1, 0, demo_device_key, dacSig, [0x30, 0x01], [0x30, 0x02])"
proof -
  obtain pubkey dacSig dac pai e1 e2 e3 where
    "ExportPublicKey (demo False) \<lparr>mKeyId = 0x5401, mAlg = Ed25519\<rparr> kPublicKeyLenMax w1 = (0, pubkey, e1)"
    "GetDeviceAttestationCert (demo False) 640 e2 = (CHIP_NO_ERROR, dac, e3)"
    "GetProductAttestationIntermediateCert (demo False) 640 e3 = (CHIP_NO_ERROR, pai, w1)"
    "read_bundle demo_bundle = Some (1, wire_alg Ed25519, pubkey, dacSig, dac, pai)"
    using bundle_binds_tunnel_key [OF demo_BuildIdentityBundle [of False]] by auto
  then show ?thesis
    by (auto simp: ExportPublicKey_def Ready_def kPublicKeyLenMax_def demo_def w1_def
        demo_device_key_def wire_alg_def)
qed

text \<open>
  The boot-time report, which re-reads the lengths out of the serialised bytes, logs the
  true ones: they are the lengths of the fields a client parses, they and the ten bytes of
  framing add up to the total, and "fits" is a comparison with 512.
\<close>

lemma report_is_true:
  assumes "ReportIdentityBundle P e = (Some rep, e')"
  shows "\<exists>bundle pubkey dacSig dac pai.
    read_bundle bundle = Some (rep_version rep, rep_alg rep, pubkey, dacSig, dac, pai) \<and>
    rep_pubLen rep = length pubkey \<and> rep_sigLen rep = length dacSig \<and>
    rep_dacLen rep = length dac \<and> rep_paiLen rep = length pai \<and>
    rep_total rep = length bundle \<and> (rep_fits rep \<longleftrightarrow> length bundle \<le> 512) \<and>
    rep_total rep = 10 + rep_pubLen rep + rep_sigLen rep + rep_dacLen rep + rep_paiLen rep"
proof -
  obtain sg e1 bdl where b: "BuildIdentityBundle P sg 1600 e1 = (CHIP_NO_ERROR, bdl, e')"
    "rep = report_fields bdl"
    using assms by (auto simp: ReportIdentityBundle_def Let_def split: prod.splits if_splits)
  from b(1) show ?thesis
  proof (cases rule: BuildIdentityBundle_ok_cases)
    case (1 pubkey dacSig dac pai x1 x2 x3)
    note len = 1(8-11)
    show ?thesis
      using report_fields_bundle_bytes [OF len] read_bundle_bundle_bytes [OF len] b(2) 1(7)
      by (intro exI [of _ bdl] exI [of _ pubkey] exI [of _ dacSig] exI [of _ dac] exI [of _ pai])
         (simp add: Let_def length_bundle_bytes)
  qed
qed

lemma demo_report:
  "\<exists>rep. ReportIdentityBundle (demo False) w0 =
     (Some rep, w0\<lparr>w_keys := [0x5401 \<mapsto> demo_device_key], w_next := 0x5402\<rparr>) \<and>
     rep_total rep = 21 \<and> rep_alg rep = 0"
  by (simp add: ReportIdentityBundle_def demo_sig_defs demo_def w0_def demo_device_key_def Let_def
      length_bundle_bytes report_fields_bundle_bytes)

text \<open>Which requests ask for the bundle, after their type and length checks.\<close>

definition needs_bundle :: "config \<Rightarrow> byte list \<Rightarrow> bool" where
  "needs_bundle cfg inp \<longleftrightarrow> CONFIG_TUNNEL_SECURITY cfg \<and>
     ((inp ! 0 = kTypeIdentityRequest \<and> 3 \<le> length inp) \<or>
      (inp ! 0 = kTypeSignedRequest \<and> signed_parse inp \<noteq> None) \<or>
      (inp ! 0 = kTypeRegisterClientKey \<and> CONFIG_TUNNEL_CLIENT_AUTH cfg \<and> 3 \<le> length inp \<and>
        3 + read_u16 (inp ! 1) (inp ! 2) \<le> length inp))"

lemma no_bundle_refuses:
  assumes none: "\<And>d. gBundleLen d = 0 \<Longrightarrow> fst (EnsureBundle P d) = False" "gBundleLen d = 0"
    and P: "ProcessRequest_view P cfg view cap d = ((bs, r), d')"
    and inp: "view 0 \<noteq> []" "view 0 ! 0 \<noteq> kTypeEcho"
  shows "bs = [] \<and> r = (if needs_bundle cfg (view 0) then Failure else InvalidCommand)"
proof -
  obtain d1 where "EnsureBundle P d = (False, d1)"
    using none by (metis (full_types) prod.collapse)
  then show ?thesis
    using P inp
    by (auto simp: ProcessRequest_view_def identity_request_def signed_request_def
        register_client_key_def needs_bundle_def type_defs Let_def
        split: if_splits option.splits)
qed

lemma no_bundle_run:
  assumes none: "\<And>d :: 'e core. gBundleLen d = 0 \<Longrightarrow> fst (EnsureBundle P d) = False"
  shows "run (dev_step P cfg stored drift) d ls d' \<Longrightarrow> gBundleLen d = 0 \<Longrightarrow>
    L_Request view cap (bs, r) \<in> set ls \<Longrightarrow> view 0 \<noteq> [] \<Longrightarrow> view 0 ! 0 \<noteq> kTypeEcho \<Longrightarrow>
    bs = [] \<and> r = (if needs_bundle cfg (view 0) then Failure else InvalidCommand)"
proof (induction rule: run.induct)
  case (run_cons d l d1 ls d2)
  have "gBundleLen d1 = 0"
    using run_cons.hyps(1)
  proof (cases rule: dev_step_cases)
    case (request view cap bs r)
    show ?thesis
    proof (rule ProcessRequest_view_preserves [where Q = "\<lambda>d. gBundleLen d = 0", OF request(2) run_cons.prems(1)])
      show "gBundleLen d' = 0" if "EnsureBundle P d = (ok, d')" "gBundleLen d = 0" for d ok d'
        using none [OF that(2)] that(1) EnsureBundle_failed_len by auto
    qed (auto dest: EnsureReplay_frame auth_gate_frame consume_counter_frame)
  qed (use run_cons.prems(1) in \<open>simp_all add: boot_def\<close>)
  moreover have ?case if "l = L_Request view cap (bs, r)"
    using run_cons.hyps(1) [unfolded that] no_bundle_refuses [OF none run_cons.prems(1)] run_cons.prems(3,4)
    by (elim dev_requestE) blast
  ultimately show ?case using run_cons.IH run_cons.prems(2-4) by auto
qed simp

text \<open>
  C28. The two buffers for the bundle disagree. Certificates may have 640 bytes each; when
  the start-up report logs a bundle of more than 1200 bytes (its own buffer has 1600) as
  built, and keys, signatures and certificates do not get shorter afterwards, the device
  serves nothing but echoes: in this boot and all later ones every identity request, signed
  request and registration that passes its length checks gets the status Failure and no
  response, whatever else happens. What is malformed, or not built in, is an invalid command
  as always.
\<close>

theorem reported_bundle_may_be_unavailable:
  assumes R: "ReportIdentityBundle P e = (Some rep, e')" and big: "1200 < rep_total rep"
    and sizes: "provides_at_least P (rep_pubLen rep) (rep_sigLen rep) (rep_dacLen rep) (rep_paiLen rep)"
    and run: "run (dev_step P cfg stored drift) (boot e1) ls d"
    and req: "L_Request view cap (bs, r) \<in> set ls" "view 0 \<noteq> []" "view 0 ! 0 \<noteq> kTypeEcho"
  shows "bs = [] \<and> r = (if needs_bundle cfg (view 0) then Failure else InvalidCommand)"
proof (rule no_bundle_run [OF _ run _ req])
  show "gBundleLen (boot e1) = 0" by (simp add: boot_def)
  have total: "1200 < 10 + rep_pubLen rep + rep_sigLen rep + rep_dacLen rep + rep_paiLen rep"
    using report_is_true [OF R] big by auto
  show "fst (EnsureBundle P d) = False" if "gBundleLen d = 0" for d
    using that BuildIdentityBundle_too_big [OF sizes total]
    by (auto simp: EnsureBundle_def Let_def split: prod.splits)
qed

definition demo_big_certs :: "world platform" where
  "demo_big_certs = (demo False)
     \<lparr>psa_export_public_key := (\<lambda>h n e. if n < 32 then (-138, [], e) else (0, replicate 32 0xD0, e)),
      SignWithDeviceAttestationKey := (\<lambda>m n e. (CHIP_NO_ERROR, replicate 64 0xDA, e)),
      GetDeviceAttestationCert := (\<lambda>n e. (CHIP_NO_ERROR, replicate 640 0x30, e)),
      GetProductAttestationIntermediateCert := (\<lambda>n e. (CHIP_NO_ERROR, replicate 640 0x31, e))\<rparr>"

lemma demo_big_certs_report:
  "\<exists>rep e'. ReportIdentityBundle demo_big_certs w0 = (Some rep, e') \<and> rep_total rep = 1386 \<and>
     rep_pubLen rep = 32 \<and> rep_sigLen rep = 64 \<and> rep_dacLen rep = 640 \<and> rep_paiLen rep = 640"
  by (simp add: ReportIdentityBundle_def demo_sig_defs demo_big_certs_def demo_def w0_def
      Let_def length_bundle_bytes report_fields_bundle_bytes)

theorem reported_bundle_may_be_unavailable_witness:
  "fst (ProcessRequest demo_big_certs full_config [kTypeIdentityRequest, 0, 0] 512 (boot w0)) = ([], Failure)"
proof -
  let ?req = "[kTypeIdentityRequest, 0, 0]"
  obtain rep e' where r: "ReportIdentityBundle demo_big_certs w0 = (Some rep, e')" "rep_total rep = 1386"
    "rep_pubLen rep = 32" "rep_sigLen rep = 64" "rep_dacLen rep = 640" "rep_paiLen rep = 640"
    using demo_big_certs_report by blast
  have sizes: "provides_at_least demo_big_certs (rep_pubLen rep) (rep_sigLen rep) (rep_dacLen rep) (rep_paiLen rep)"
    by (auto simp: r provides_at_least_def demo_big_certs_def split: if_splits)
  obtain bs x d where p: "ProcessRequest demo_big_certs full_config ?req 512 (boot w0) = ((bs, x), d)"
    by (metis prod.collapse)
  then have "run (dev_step demo_big_certs full_config w_flash demo_drift) (boot w0)
      [L_Request (\<lambda>_. ?req) 512 (bs, x)] d"
    by (simp add: run_cons_simp ProcessRequest_def dev_step.request)
  from reported_bundle_may_be_unavailable [OF r(1) _ sizes this, of "\<lambda>_. ?req" 512 bs x] r(2) p
  show ?thesis by (simp add: needs_bundle_def full_config_def type_defs)
qed

text \<open>
  C29. A signer is ready exactly when its initialisation succeeded, provided PSA sets the key
  id to null when it generates none; it then has the requested algorithm. If the persistent
  key of the algorithm exists it is that key, and no key is generated.
\<close>

theorem signer_ready_iff_initialised:
  assumes gen: "\<And>a x st kid x'. psa_generate_key P a x = (st, kid, x') \<Longrightarrow> (kid \<noteq> 0 \<longleftrightarrow> st = 0)"
    and new: "\<not> Ready s" and I: "Signer_Init P alg s e = (st, s', e')"
  shows "(Ready s' \<longleftrightarrow> st = 0) \<and> (st = 0 \<longrightarrow> mAlg s' = alg) \<and>
    (\<forall>e1 e2. psa_crypto_init P e = (0, e1) \<and>
        psa_get_key_attributes P (persistent_key_id alg) e1 = (0, e2) \<longrightarrow>
      st = 0 \<and> mKeyId s' = persistent_key_id alg \<and> e' = e2)"
proof (intro conjI)
  show "Ready s' \<longleftrightarrow> st = 0"
    using I
  proof (cases rule: Signer_Init_cases)
    case (generated e1 pr e2 kid)
    with gen [OF generated(7)] show ?thesis by (simp add: Ready_def)
  next
    case (fallback e1 pr e2 st1 kid1 e3 kid)
    with gen [OF fallback(8)] show ?thesis by (simp add: Ready_def)
  qed (use new in \<open>simp_all add: Ready_def\<close>)
  show "st = 0 \<longrightarrow> mAlg s' = alg" using Signer_Init_alg I new by metis
  show "\<forall>e1 e2. psa_crypto_init P e = (0, e1) \<and>
        psa_get_key_attributes P (persistent_key_id alg) e1 = (0, e2) \<longrightarrow>
      st = 0 \<and> mKeyId s' = persistent_key_id alg \<and> e' = e2"
    using I new by (auto simp: Signer_Init_def Let_def)
qed

theorem signer_ready_iff_initialised_witness:
  "\<exists>s' e'. Signer_Init (demo False) Ed25519 new_signer w4 = (0, s', e') \<and> Ready s' \<and>
     mKeyId s' = persistent_key_id Ed25519"
proof -
  obtain st s' e' where I: "Signer_Init (demo False) Ed25519 new_signer w4 = (st, s', e')"
    by (metis prod_cases3)
  have gen: "psa_generate_key (demo False) a x = (st, kid, x') \<Longrightarrow> (kid \<noteq> 0 \<longleftrightarrow> st = 0)" for a x st kid x'
    by (auto simp: demo_def dest!: bind_key_result split: if_splits)
  have new: "\<not> Ready new_signer" by (simp add: Ready_def new_signer_def)
  have ready: "(Ready s' \<longleftrightarrow> st = 0) \<and> (st = 0 \<longrightarrow> mAlg s' = Ed25519) \<and>
    (\<forall>e1 e2. psa_crypto_init (demo False) w4 = (0, e1) \<and>
        psa_get_key_attributes (demo False) (persistent_key_id Ed25519) e1 = (0, e2) \<longrightarrow>
      st = 0 \<and> mKeyId s' = persistent_key_id Ed25519 \<and> e' = e2)"
    by (rule signer_ready_iff_initialised [OF _ new I]) (erule gen)
  have "psa_crypto_init (demo False) w4 = (0, w4)"
    "psa_get_key_attributes (demo False) (persistent_key_id Ed25519) w4 = (0, w4)"
    by (simp_all add: demo_def persistent_key_id_def kPersistentKeyId_def)
  with ready I show ?thesis by blast
qed

text \<open>
  C30. The contract of the transports: over any sequence of requests to a device from its
  boot, each with whatever interleaving of the receive buffer, a response is empty exactly
  when there is a rejection, and never longer than the output buffer (of at least 5 bytes),
  given that crypto does not overrun the buffers it is handed.
\<close>

theorem core_replies_well_formed:
  assumes "lengths_ok P" and "5 \<le> cap"
    and "serve_all (ProcessRequest_view P cfg) cap qs (boot e) = (rs, d)"
  shows "length rs = length qs \<and> core_wf d \<and>
    (\<forall>reply \<in> set rs. (fst reply = [] \<longleftrightarrow> snd reply \<noteq> Reject_None) \<and> length (fst reply) \<le> cap)"
  using core.serve_all_ok [of P "boot e" cap cfg qs rs d] assms by (simp add: reply_ok_def)

theorem core_replies_well_formed_witness:
  "\<exists>rs d. serve_all (ProcessRequest_view (demo False) full_config) 512
       [\<lambda>_. early_request, \<lambda>_. [0xFF, 1]] (boot w0) = (rs, d) \<and> length rs = 2 \<and>
     (\<forall>reply \<in> set rs. length (fst reply) \<le> 512)"
proof -
  obtain rs d where r: "serve_all (ProcessRequest_view (demo False) full_config) 512
       [\<lambda>_. early_request, \<lambda>_. [0xFF, 1]] (boot w0) = (rs, d)" by fastforce
  from core_replies_well_formed [OF demo_lengths_ok _ r] r show ?thesis by simp
qed

end
