(* ===== verification/Service_Properties.thy ===== *)
theory Service_Properties
  imports Demo_Platform
begin

text \<open>
  The protocol as a whole: the device refines the abstract protocol, a client that has fallen
  behind finds back, and pairing ends in an answered request.
\<close>

text \<open>
  C16. A client always finds back, as the header of the replay guard promises: whatever
  counter it starts from, a signed request that is retried once, just above the floor that
  the device reports, is answered; it takes one exchange when the counter was fresh. The
  device is then ready for the next call. This holds while flash and crypto calls succeed
  and the counter is not within one reservation of the end of its range.
\<close>

theorem client_resynchronises:
  assumes "service_inv P cfg csign dev payload cap healthy d"
    and "unat c + 64 < 2 ^ 32" "unat (mFloor (gReplay d)) + 65 < 2 ^ 32"
  shows "\<exists>bs d'. client_call (\<lambda>c. ProcessRequest P cfg (signed_for csign dev payload c) cap) 2 c d =
      (Some bs, d') \<and>
    response_counter bs = Some (if mFloor (gReplay d) < c then c else mFloor (gReplay d) + 1) \<and>
    mFloor (gReplay d') = (if mFloor (gReplay d) < c then c else mFloor (gReplay d) + 1) \<and>
    service_inv P cfg csign dev payload cap healthy d'"
  by (rule core_resynchronises [OF assms refl])

lemma demo_service_inv:
  "service_inv (demo False) full_config (toy_sig client_key) demo_device_key [7] 512 demo_healthy demo_4"
  using demo_crypto_serves
  by (auto simp: service_inv_def full_config_def demo_4_def demo_healthy_def w3_def w2_def kPublicKeyLenMax_def
      demo_device_key_def length_toy_sig_field)

theorem client_resynchronises_witness:
  "\<exists>bs d'. client_call (\<lambda>c. ProcessRequest (demo False) full_config
      (signed_for (toy_sig client_key) demo_device_key [7] c) 512) 2 1 demo_4 = (Some bs, d') \<and>
    response_counter bs = Some 3"
proof -
  have f: "mFloor (gReplay demo_4) = 2" by (simp add: demo_4_def demo_guard_def)
  show ?thesis
    using client_resynchronises [OF demo_service_inv, of 1] unfolding f by auto
qed

text \<open>
  C18. Pairing succeeds: in a running device, a press of the button, a registration request
  that arrives less than 60 seconds later, and a signed request under the new key, with
  whatever counter the client starts from and one retry, are acknowledged and answered,
  provided crypto and flash calls succeed. Other outside changes may happen in between.
\<close>

theorem pairing_completes:
  assumes cfg: "CONFIG_TUNNEL_SECURITY cfg" "CONFIG_TUNNEL_CLIENT_AUTH cfg"
    and ready: "gBundleLen d \<noteq> 0" "gReplayReady d" "mHandlersAdded (gStore d) \<noteq> 0"
      "length (gDevicePub d) \<le> kPublicKeyLenMax"
    and press: "(kRegisterButtonMask AND has_changed) AND button_state \<noteq> 0"
    and time: "0 \<le> k_uptime_get P (env d)" "k_uptime_get P e1 < k_uptime_get P (env d) + 60000"
    and len: "length key = 32" "length payload \<le> 256" "length payload + 73 \<le> cap" "101 \<le> cap"
      "\<And>m. length (csign m) < 65536"
    and serves: "crypto_serves P (gSigner d) csign healthy"
      "\<And>ks e2. Register P key (button_event P button_state has_changed (env d) (gStore d)) e1 =
        (CHIP_NO_ERROR, ks, e2) \<Longrightarrow> healthy ks e2"
    and room: "unat c + 64 < 2 ^ 32" "unat (mFloor (gReplay d)) + 65 < 2 ^ 32"
  shows "\<exists>ack d2 bs d3.
    ProcessRequest P cfg (registration_of key) cap
      (d\<lparr>gStore := button_event P button_state has_changed (env d) (gStore d), env := e1\<rparr>) =
        ((ack, Reject_None), d2) \<and> is_ack ack \<and> Key (gStore d2) = key \<and>
    client_call (\<lambda>c. ProcessRequest P cfg (signed_for csign (gDevicePub d) payload c) cap) 2 c d2 =
      (Some bs, d3) \<and>
    response_counter bs = Some (if mFloor (gReplay d) < c then c else mFloor (gReplay d) + 1)"
proof -
  let ?d1 = "d\<lparr>gStore := button_event P button_state has_changed (env d) (gStore d), env := e1\<rparr>"
  obtain ks e2 where reg: "Register P key (gStore ?d1) (env ?d1) = (CHIP_NO_ERROR, ks, e2)"
    using Register_after_press [OF ready(3) press time(1) _ len(1), of e1] time(2)
    by (auto simp: kRegistrationWindowMs_def)
  have healthy: "healthy ks e2" using serves(2) reg by simp
  obtain ack e3 where ack: "ProcessRequest P cfg (registration_of key) cap ?d1 =
      ((ack, Reject_None), ?d1\<lparr>gStore := ks, env := e3\<rparr>)" "is_ack ack" "Key ks = key" "healthy ks e3"
    using registration_acknowledged
      [where d = ?d1 and ks = ks and healthy = healthy, OF cfg _ _ len(4,1) reg _ healthy] ready(1,4) serves(1) by fastforce
  let ?d2 = "?d1\<lparr>gStore := ks, env := e3\<rparr>"
  have "service_inv P cfg csign (gDevicePub d) payload cap healthy ?d2"
    using cfg ready len serves(1) ack(4) by (simp add: service_inv_def)
  from core_resynchronises [OF this room(1) _ refl] room(2) obtain bs d3 where
    "client_call (\<lambda>c. ProcessRequest P cfg (signed_for csign (gDevicePub d) payload c) cap) 2 c ?d2 = (Some bs, d3)"
    "response_counter bs = Some (if mFloor (gReplay d) < c then c else mFloor (gReplay d) + 1)"
    by auto
  with ack(1-3) show ?thesis by fastforce
qed

lemma demo_register_pressed:
  "Register (demo False) client_key (button_event (demo False) 8 8 (env demo_1) (gStore demo_1)) w1 =
    (CHIP_NO_ERROR, demo_key_store 0, w2)"
  using demo_button [of False]
  by (simp add: Register_def WindowOpen_def button_event_def ButtonHandler_def OpenWindow_def
      kRegisterButtonMask_def kRegistrationWindowMs_def demo_def new_store_def demo_key_store_def
      kKeySize_def demo_1_def w1_def w0_def w2_def clientkey_key_def ceiling_key_def fun_upd_twist)

theorem pairing_completes_witness:
  "\<exists>ack d2 bs d3. ProcessRequest (demo False) full_config (registration_of client_key) 512
      (demo_1\<lparr>gStore := button_event (demo False) 8 8 (env demo_1) (gStore demo_1), env := w1\<rparr>) =
        ((ack, Reject_None), d2) \<and> is_ack ack \<and> Key (gStore d2) = client_key \<and>
    client_call (\<lambda>c. ProcessRequest (demo False) full_config
        (signed_for (toy_sig client_key) (gDevicePub demo_1) [7] c) 512) 2 9 d2 = (Some bs, d3) \<and>
    response_counter bs = Some (if mFloor (gReplay demo_1) < 9 then 9 else mFloor (gReplay demo_1) + 1)"
proof (rule pairing_completes [where healthy = demo_healthy])
  show "crypto_serves (demo False) (gSigner demo_1) (toy_sig client_key) demo_healthy"
    using demo_crypto_serves by (simp add: demo_1_def)
  show "demo_healthy ks e2" if "Register (demo False) client_key
      (button_event (demo False) 8 8 (env demo_1) (gStore demo_1)) w1 = (CHIP_NO_ERROR, ks, e2)" for ks e2
    using that unfolding demo_register_pressed by (auto simp: demo_healthy_def w2_def w1_def)
qed (simp_all add: full_config_def demo_1_def demo_core_def kPublicKeyLenMax_def demo_device_key_def kRegisterButtonMask_def
    demo_def w1_def w0_def length_toy_sig_field new_store_def demo_guard_def)

text \<open>
  C24. The device refines the abstract protocol. With client authentication and working
  flash, every run of the device from its first boot, seen through \<open>observe\<close> and
  \<open>abstraction\<close>, is a run of \<open>protocol_step\<close>: the floor moves only for requests that the
  registered client signed for this device, and those alone learn where it is; the key
  changes only on a permit that a button press gave; a power cycle lowers no floor and
  forgets no key.
\<close>

theorem device_refines_protocol:
  assumes "flash_reliable P stored" and "keys_ok P pubkey valid_sig"
    and "CONFIG_TUNNEL_CLIENT_AUTH cfg"
    and "drift_keeps_flash stored drift" "drift_keeps_keys pubkey drift"
    and "stored e ceiling_key = None"
    and "run (dev_step P cfg stored drift) (boot e) ls d"
  shows "run (protocol_step valid_sig) (abstraction stored (boot e)) (map observe ls)
    (abstraction stored d)"
  using run_simulated [OF assms(2-5,7) sim_inv_boot [OF assms(1,6)]] by blast

lemma observe_client_request:
  "response_counter bs = Some c \<Longrightarrow> length payload < 65536 \<Longrightarrow>
   observe (L_Request (\<lambda>_. client_request c payload) cap (bs, r)) =
     Answer c payload (toy_sig client_key (demo_preimage kDirRequest c payload))"
  using signed_parse_encode [OF _ length_toy_sig_field, of payload c client_key "demo_preimage kDirRequest c payload" "[]"]
  by (simp add: client_request_def observe_answer)

theorem device_refines_protocol_witness:
  "run (protocol_step toy_valid) \<lparr>pr_self = None, pr_floor = 0, pr_key = None, pr_permit = False\<rparr>
    [Refusal, Press, Acknowledge client_key,
     Answer 2 [1, 2] (toy_sig client_key (demo_preimage kDirRequest 2 [1, 2])), Reset,
     Answer 65 [7] (toy_sig client_key (demo_preimage kDirRequest 65 [7]))]
    \<lparr>pr_self = Some demo_device_key, pr_floor = 65, pr_key = Some client_key, pr_permit = False\<rparr>"
proof -
  have "observe (L_Request (\<lambda>_. register_request) 512 (demo_ack, Reject_None)) = Acknowledge client_key"
    unfolding demo_ack_def by (rule observe_ack) simp
  then have "map observe demo_life_labels = [Refusal, Press, Acknowledge client_key,
     Answer 2 [1, 2] (toy_sig client_key (demo_preimage kDirRequest 2 [1, 2])), Reset,
     Answer 65 [7] (toy_sig client_key (demo_preimage kDirRequest 65 [7]))]"
    by (simp add: demo_life_labels_def demo_boot_labels_def observe_client_request kRegisterButtonMask_def)
  moreover have "abstraction w_flash (boot w0) =
      \<lparr>pr_self = None, pr_floor = 0, pr_key = None, pr_permit = False\<rparr>"
    by (simp add: abstraction_def boot_def w0_def flash_floor_def flash_key_def new_store_def)
  moreover have "abstraction w_flash demo_5 =
      \<lparr>pr_self = Some demo_device_key, pr_floor = 65, pr_key = Some client_key, pr_permit = False\<rparr>"
    by (simp add: abstraction_def demo_5_def demo_guard_def demo_key_store_def flash_key_def w5_def)
  ultimately show ?thesis
    using device_refines_protocol [OF demo_flash_reliable demo_keys_ok _ demo_drift_keeps_flash
        demo_drift_keeps_keys _ demo_life_run]
    by (simp add: full_config_def w0_def)
qed

end
