(* ===== verification/Transport_Properties.thy ===== *)
theory Transport_Properties
  imports Demo_Platform
begin

text \<open>
  The two adapters, the Bluetooth connection handling and the benchmark.
\<close>

section \<open>Matter and Bluetooth\<close>

text \<open>
  C33. Two carriers, one core: a request of 1 to 512 bytes that is received and processed
  over Bluetooth with nothing in between takes the core through the same state change as
  over Matter, and a response is sent exactly when Matter adds one, with the same bytes.
\<close>

theorem ble_equals_matter:
  assumes b: "ble_wf b" and len: "data \<noteq> []" "length data \<le> 512"
    and M: "TunnelRequestCallback P cfg True data d = ((handled, calls), d1)"
    and B: "ble_run P cfg [Ev_Rx data, Ev_Process (\<lambda>_. [])] (b, d) = (cs, b', d2)"
  shows "d1 = d2 \<and> sent cs = List.map_filter (\<lambda>c. case c of AddResponse out \<Rightarrow> Some out | _ \<Rightarrow> None) calls"
proof -
  obtain out r d3 where p: "ProcessRequest P cfg data 512 d = ((out, r), d3)" by (metis prod.collapse)
  have "cs = [Submit sWork] @ (if out = [] then [] else [BtNusSend out]) \<and> d2 = d3"
    using ble_exchange [OF b len p] B by simp
  moreover have "d1 = d3 \<and> calls = (if out = [] then [AddStatus (im_status_of r)] else [AddResponse out])"
    using M p by (auto simp: TunnelRequestCallback_def kMaxResponse_def split: if_splits)
  ultimately show ?thesis by (simp add: sent_def map_filter_simps)
qed

theorem ble_equals_matter_witness:
  "\<exists>cs s. ble_run (demo False) full_config [Ev_Rx (client_request 2 [1, 2]), Ev_Process (\<lambda>_. [])]
       (ble_boot, demo_3) = (cs, s) \<and> sent cs = [device_response 2 [1, 2]] \<and> snd s = demo_4"
proof -
  let ?req = "client_request 2 [1, 2]"
  obtain cs b' d2 where B: "ble_run (demo False) full_config [Ev_Rx ?req, Ev_Process (\<lambda>_. [])]
      (ble_boot, demo_3) = (cs, b', d2)" by (metis prod_cases3)
  have "length (toy_sig client_key (demo_preimage kDirRequest 2 [1, 2])) \<le> 501"
    using length_toy_sig(2) by (rule le_trans) simp
  then have len: "?req \<noteq> []" "length ?req \<le> 512"
    by (simp_all add: client_request_def encode_signed_def)
  have M: "TunnelRequestCallback (demo False) full_config True ?req demo_3 =
      ((True, [AddResponse (device_response 2 [1, 2])]), demo_4)"
    by (simp add: TunnelRequestCallback_def kMaxResponse_def demo_second device_response_def)
  from ble_equals_matter [OF ble_wf_boot len M B] B show ?thesis
    by (auto simp: map_filter_simps)
qed

text \<open>
  Whatever the Bluetooth adapter receives, in whatever interleaving with its work items,
  the core only ever takes steps of the device of C2, and what is sent are that run's
  replies in order. So the counters of the signed responses that leave over Bluetooth
  increase too.
\<close>

lemma ble_refines_device:
  assumes "ble_run P cfg evs (b, d) = (cs, b', d')"
  shows "(\<exists>ls. run (awake_step P cfg stored drift) d ls d' \<and> sent cs = replies ls) \<and>
    sorted_wrt (<) (List.map_filter response_counter (sent cs))"
proof -
  obtain ls where ls: "run (awake_step P cfg stored drift) d ls d'" "sent cs = replies ls"
    using ble_run_refines [OF assms] by blast
  have "sorted_wrt (<) (List.map_filter served ls)" using awake.run_emits [OF ls(1)] by simp
  then show ?thesis using ls served_replies [of ls] by (auto simp: served_counters_def)
qed

text \<open>
  C34. The shared receive buffer: a write of the same length that reaches the receive
  callback after the client's signature was verified and before the response is signed
  changes what is certified. The counter and the valid client signature belong to the first
  request, the payload the device signs and returns to the second.
\<close>

theorem late_write_is_certified:
  assumes b: "ble_wf b" "sRxLen b = length data" "take (sRxLen b) (sRxBuf b) = data"
    and data': "data' \<noteq> []" "length data' = length data"
    and K: "keys_ok P pubkey valid_sig" and cfg: "CONFIG_TUNNEL_CLIENT_AUTH cfg"
    and inv: "keys_inv pubkey d" "core_wf d"
    and W: "ProcessWork P cfg (late_write data') (b, d) = ([BtNusSend bs], b', d')"
    and c: "response_counter bs = Some c"
  shows "\<exists>n m sig pre pre' e. signed_parse data = Some (c, n, m) \<and>
    BuildPreimage kDirRequest c (gDevicePub d') (payload_at data n) 700 = (CHIP_NO_ERROR, pre) \<and>
    valid_sig PSA_ALG_PURE_EDDSA (Key (gStore d')) pre (sig_at data n m) \<and>
    bs = [kTypeSignedResponse] @ PutU32 c @ put_u16 n @ payload_at data' n @ put_u16 (length sig) @ sig \<and>
    BuildPreimage kDirResponse c (gDevicePub d') (payload_at data' n) 700 = (CHIP_NO_ERROR, pre') \<and>
    Sign P (gSigner d') pre' kSignatureLen e = (0, sig, env d')"
proof -
  from W obtain r where
    p: "ProcessRequest_view P cfg (rx_view (late_write data') b) 512 d = ((bs, r), d')"
    by (auto elim!: ProcessWork_result split: if_splits)
  have v: "rx_view (late_write data') b k = (if k < 3 then data else data')" for k
    by (rule rx_view_late_write [OF b data'])
  obtain n m pre where s: "signed_parse data = Some (c, n, m)"
    "BuildPreimage kDirRequest c (gDevicePub d') (payload_at data n) 700 = (CHIP_NO_ERROR, pre)"
    "valid_sig PSA_ALG_PURE_EDDSA (Key (gStore d')) pre (sig_at data n m)"
    by (rule signed_response_authentic [OF K cfg inv p c]) (simp add: v)
  obtain n' m' sig pre' e where a: "signed_parse data = Some (c, n', m')"
    "bs = [kTypeSignedResponse] @ PutU32 c @ put_u16 n' @ payload_at data' n' @ put_u16 (length sig) @ sig"
    "BuildPreimage kDirResponse c (gDevicePub d') (payload_at data' n') 700 = (CHIP_NO_ERROR, pre')"
    "Sign P (gSigner d') pre' kSignatureLen e = (0, sig, env d')"
    by (rule late_write_answer [OF b data' W c])
  have "n' = n" using s(1) a(1) by simp
  with s a show ?thesis by blast
qed

text \<open>The client signed payload 1; the second write carries payload 2 and no signature of hers.\<close>

definition overtaken :: "byte list" where "overtaken = client_request 3 [1]"
definition overtaking :: "byte list" where "overtaking = overtaken[7 := 2]"

definition overtaken_buffer :: ble where
  "overtaken_buffer = ble_boot\<lparr>sRxBuf := overlay (sRxBuf ble_boot) overtaken, sRxLen := length overtaken\<rparr>"

lemma overtaken_contents:
  "\<exists>m. signed_parse overtaken = Some (3, 1, m) \<and>
    sig_at overtaken 1 m = toy_sig client_key (demo_preimage kDirRequest 3 [1])"
  "payload_at overtaken 1 = [1]" "payload_at overtaking 1 = [2]"
  "overtaken ! 0 = kTypeSignedRequest" "overtaken \<noteq> []"
  "length overtaken \<le> 512" "overtaking \<noteq> []" "length overtaking = length overtaken"
  "ble_wf overtaken_buffer" "sRxLen overtaken_buffer = length overtaken"
  "take (sRxLen overtaken_buffer) (sRxBuf overtaken_buffer) = overtaken"
proof -
  let ?s = "toy_sig client_key (demo_preimage kDirRequest 3 [1])"
  have s: "length ?s \<le> 64" by (rule length_toy_sig(2))
  have enc: "signed_parse overtaken = Some (3, 1, length ?s)" "payload_at overtaken 1 = [1]"
    "sig_at overtaken 1 (length ?s) = ?s"
    using signed_parse_encode [of "[1]" ?s 3 "[]"] s by (simp_all add: overtaken_def client_request_def)
  then show "\<exists>m. signed_parse overtaken = Some (3, 1, m) \<and> sig_at overtaken 1 m = ?s"
    "payload_at overtaken 1 = [1]" by simp_all
  have shape: "overtaken = kTypeSignedRequest # PutU32 3 @ put_u16 1 @ 1 # put_field ?s"
    by (simp add: overtaken_def client_request_def encode_signed_def put_field_def)
  show "payload_at overtaking 1 = [2]"
    by (simp add: overtaking_def shape payload_at_def PutU32_def put_u16_def)
  show "overtaken ! 0 = kTypeSignedRequest" "overtaken \<noteq> []" by (simp_all add: shape)
  show len: "length overtaken \<le> 512" "overtaking \<noteq> []" "length overtaking = length overtaken"
    using s by (simp_all add: shape overtaking_def)
  show "ble_wf overtaken_buffer" "sRxLen overtaken_buffer = length overtaken"
    using len by (simp_all add: overtaken_buffer_def ble_wf_def ble_boot_def)
  have "take (length overtaken) (overlay (replicate 512 0) overtaken) = overtaken"
    by (rule take_overlay) (use len in simp)
  then show "take (sRxLen overtaken_buffer) (sRxBuf overtaken_buffer) = overtaken"
    by (simp add: overtaken_buffer_def ble_boot_def)
qed

lemma demo_overtaken:
  "\<exists>b' sig. ProcessWork (demo False) full_config (late_write overtaking) (overtaken_buffer, demo_4) =
      ([BtNusSend ([kTypeSignedResponse] @ PutU32 3 @ put_u16 1 @ [2] @ sig)], b',
       demo_4\<lparr>gStore := demo_key_store 0x5402, gReplay := demo_guard 3 64, env := w3\<rparr>)"
proof -
  let ?b = overtaken_buffer
  let ?r = "toy_sig demo_device_key (demo_preimage kDirResponse 3 [2])"
  note c = overtaken_contents
  obtain m where m: "signed_parse overtaken = Some (3, 1, m)"
    "sig_at overtaken 1 m = toy_sig client_key (demo_preimage kDirRequest 3 [1])"
    using c(1) by blast
  have v: "rx_view (late_write overtaking) ?b k = (if k < 3 then overtaken else overtaking)" for k
    by (rule rx_view_late_write [OF c(9-11) c(7,8)])
  have ver: "store_Verify (demo False) m (toy_sig client_key m) (demo_key_store 0x5402) w3 =
      (0, demo_key_store 0x5402, w3)" for m
    by (rule demo_verify_imported) (simp_all add: w3_def)
  have pub: "w_keys w3 0x5401 = Some demo_device_key" by (simp add: w3_def)
  have "signed_request (demo False) full_config (rx_view (late_write overtaking) ?b) 512 demo_4 =
      (([kTypeSignedResponse] @ PutU32 3 @ put_u16 1 @ payload_at (rx_view (late_write overtaking) ?b 4) 1
        @ put_u16 (length ?r) @ ?r, Reject_None),
       demo_4\<lparr>gStore := demo_key_store 0x5402, gReplay := demo_guard 3 64, env := w3\<rparr>)"
    by (rule signed_request_answers [where m = m and ?e1.0 = w3 and ?e2.0 = w3
          and pre = "demo_preimage kDirRequest 3 [1]" and pre' = "demo_preimage kDirResponse 3 [2]"])
       (simp_all add: v m c ver demo_4_def demo_preimage_BuildPreimage demo_sign [OF pub]
          full_config_def Accept_within_reservation IsFresh_def demo_guard_def del: One_nat_def)
  then have "ProcessRequest_view (demo False) full_config (rx_view (late_write overtaking) ?b) 512 demo_4 =
      (([kTypeSignedResponse] @ PutU32 3 @ put_u16 1 @ [2] @ put_u16 (length ?r) @ ?r, Reject_None),
       demo_4\<lparr>gStore := demo_key_store 0x5402, gReplay := demo_guard 3 64, env := w3\<rparr>)"
    using v c by (simp add: ProcessRequest_view_def Let_def full_config_def type_defs del: One_nat_def)
  then show ?thesis
    by (simp add: ProcessWork_def kMaxResponse_def Let_def del: One_nat_def)
qed

theorem late_write_is_certified_witness:
  "\<exists>csig pre pre'. BuildPreimage kDirRequest 3 demo_device_key [1] 700 = (CHIP_NO_ERROR, pre) \<and>
    toy_valid PSA_ALG_PURE_EDDSA client_key pre csig \<and>
    BuildPreimage kDirResponse 3 demo_device_key [2] 700 = (CHIP_NO_ERROR, pre') \<and>
    Sign (demo False) \<lparr>mKeyId = 0x5401, mAlg = Ed25519\<rparr> pre' kSignatureLen w3 =
      (0, toy_sig demo_device_key pre', w3)"
proof -
  note c = overtaken_contents
  let ?d = "demo_4\<lparr>gStore := demo_key_store 0x5402, gReplay := demo_guard 3 64, env := w3\<rparr>"
  obtain b' sig where W: "ProcessWork (demo False) full_config (late_write overtaking)
      (overtaken_buffer, demo_4) =
      ([BtNusSend ([kTypeSignedResponse] @ PutU32 3 @ put_u16 1 @ [2] @ sig)], b', ?d)"
    using demo_overtaken by blast
  have rc: "response_counter ([kTypeSignedResponse] @ PutU32 3 @ put_u16 1 @ [2] @ sig) = Some 3"
    by (simp add: response_counter_def)
  have inv: "core_wf demo_4" "keys_inv w_keys demo_4"
    using run_keys [OF demo_keys_ok demo_drift_keeps_keys demo_boot_run] by simp_all
  have "CONFIG_TUNNEL_CLIENT_AUTH full_config" by (simp add: full_config_def)
  from late_write_is_certified [OF c(9-11) c(7,8) demo_keys_ok this inv(2,1) W rc]
  obtain n m pre pre' where "signed_parse overtaken = Some (3, n, m)"
    "BuildPreimage kDirRequest 3 (gDevicePub ?d) (payload_at overtaken n) 700 = (CHIP_NO_ERROR, pre)"
    "toy_valid PSA_ALG_PURE_EDDSA (Key (gStore ?d)) pre (sig_at overtaken n m)"
    "BuildPreimage kDirResponse 3 (gDevicePub ?d) (payload_at overtaking n) 700 = (CHIP_NO_ERROR, pre')"
    by blast
  moreover have "n = 1" using calculation(1) c(1) by auto
  moreover have "w_keys w3 0x5401 = Some demo_device_key" by (simp add: w3_def)
  ultimately show ?thesis using c(2,3) demo_sign by (auto simp: demo_4_def)
qed

section \<open>The Bluetooth connection\<close>

text \<open>
  C35. However the stack interleaves its callbacks and the work queue its items, the adapter
  asks for connection parameters at most four times per connection that comes up: once by
  itself and three times to re-assert them. It cannot fight a host for ever.
\<close>

theorem parameter_requests_bounded:
  assumes "ble_run P cfg evs (ble_boot, d) = (cs, b, d')"
  shows "updates cs \<le> 4 * connects evs \<and> sParamRetries b \<le> 3"
  using ble_run_updates [OF assms ble_wf_boot] by (simp add: budget_def ble_boot_def ble_wf_def)

theorem parameter_requests_bounded_witness:
  "updates (fst (ble_run (demo False) full_config
     [Ev_Connected 7 0, Ev_ParamUpdated 40, Ev_ParamWork, Ev_ParamWork, Ev_ParamWork, Ev_ParamWork] (ble_boot, boot w0))) = 4"
proof -
  let ?evs = "[Ev_Connected 7 0, Ev_ParamUpdated 40, Ev_ParamWork, Ev_ParamWork, Ev_ParamWork, Ev_ParamWork]"
  obtain cs b d where r: "ble_run (demo False) full_config ?evs (ble_boot, boot w0) = (cs, b, d)"
    by (metis prod_cases3)
  have "updates (fst (ble_run (demo False) full_config ?evs (ble_boot, boot w0))) = 4"
    by (simp add: OnConnected_def OnParamUpdated_def ParamWorkHandler_def updates_def
        ble_boot_def kFastParams_def word_le_nat_alt)
  moreover have "connects ?evs = 1" by (simp add: connects_def)
  ultimately show ?thesis using parameter_requests_bounded [OF r] r by simp
qed

section \<open>Benchmark\<close>

text \<open>In the demo world every cycle count is 64 and the benchmark completes.\<close>

lemma demo_bench_loop:
  "w_keys e (mKeyId signer) = Some k \<Longrightarrow> mKeyId signer \<noteq> 0 \<Longrightarrow>
   \<exists>m s v w e'. bench_loop (demo f) signer n i msg sig sign verify e = (Inr (m, s, v, w), e') \<and>
     w_keys e' = w_keys e"
proof (induction n arbitrary: i msg sig sign verify e)
  case (Suc n)
  let ?m = "msg[0 := word_of_nat i]"
  have c: "dwt_cyccnt (demo f) e = (w_cycles e, e\<lparr>w_cycles := w_cycles e + 64\<rparr>)" for e
    by (simp add: demo_def)
  have s: "Sign (demo f) signer ?m kSignatureLen e = (0, toy_sig k ?m, e)"
    if "w_keys e (mKeyId signer) = Some k" for e
    using that Suc.prems(2) length_toy_sig(2) [of k ?m]
    by (simp add: Sign_def Ready_def demo_def kSignatureLen_def)
  have v: "Verify (demo f) signer ?m (toy_sig k ?m) e = (0, e)"
    if "w_keys e (mKeyId signer) = Some k" for e
    using that Suc.prems(2) by (simp add: Verify_def Ready_def demo_def)
  have "\<exists>m s v w e'. bench_loop (demo f) signer n (Suc i) ?m (toy_sig k ?m) (Accumulate sign 64)
      (Accumulate verify 64) (e\<lparr>w_cycles := 256 + w_cycles e\<rparr>) = (Inr (m, s, v, w), e') \<and>
      w_keys e' = w_keys (e\<lparr>w_cycles := 256 + w_cycles e\<rparr>)"
    by (rule Suc.IH) (use Suc.prems in simp_all)
  then show ?case using Suc.prems(1) by (simp add: c s v Let_def)
qed simp

lemma demo_bench: "\<exists>r e. BenchmarkOne (demo f) Ed25519 w0 = (Bench_Done r, e)"
proof -
  let ?s = "\<lparr>mKeyId = 0x5401, mAlg = Ed25519\<rparr>"
  define e1 where "e1 = w0\<lparr>w_cycles := 64\<rparr>"
  define e2 where "e2 = e1\<lparr>w_keys := [0x5401 \<mapsto> demo_device_key], w_next := 0x5402\<rparr>"
  define e3 where "e3 = e2\<lparr>w_cycles := 128\<rparr>"
  have c: "dwt_cyccnt (demo f) w0 = (0, e1)" "dwt_cyccnt (demo f) e2 = (64, e3)"
    by (simp_all add: demo_def w0_def e1_def e2_def e3_def)
  have init: "Signer_Init (demo f) Ed25519 new_signer e1 = (0, ?s, e2)"
    by (simp add: Signer_Init_def Ready_def new_signer_def demo_def Let_def bind_key_def w0_def
        persistent_key_id_def kPersistentKeyId_def signer_key_attributes_def e1_def e2_def)
  have k: "w_keys e3 (mKeyId ?s) = Some demo_device_key" by (simp add: e3_def e2_def)
  then have export: "ExportPublicKey (demo f) ?s kPublicKeyLenMax e3 = (0, demo_device_key, e3)"
    by (simp add: ExportPublicKey_def Ready_def demo_def demo_device_key_def kPublicKeyLenMax_def)
  obtain m s v w e4 where "bench_loop (demo f) ?s kIterations 0 (map word_of_nat [0..<kMsgLen])
      (replicate kSignatureLen 0) zero_stats zero_stats e3 = (Inr (m, s, v, w), e4)"
    using demo_bench_loop [OF k, of f kIterations 0] by fastforce
  moreover obtain st e5 where "Verify (demo f) ?s (m[0 := m ! 0 XOR 0xFF]) s e4 = (st, e5)" by fastforce
  ultimately show ?thesis by (simp add: BenchmarkOne_def Let_def c init export)
qed

text \<open>
  C38. A benchmark that completes reports what it measured. The key generation time is the
  difference of two readings of the cycle counter right around \<open>Signer::Init\<close>. Then there are 20
  iterations, one after the other: in each the counter is read right before and right after
  signing a message of its own, and again around the verification of that signature, and both
  succeed. The lines printed for signing and for verifying are true of these 20 differences
  each: their number, minimum and maximum, the average as the truncated mean (the total does
  not wrap), which lies between the two, and all three in microseconds as well, 64 cycles
  each, without overflow.
\<close>

theorem benchmark_statistics:
  assumes "BenchmarkOne P alg e = (Bench_Done r, e')"
  shows "\<exists>t0 x1 signer x2 t1 x3 pub e1 cs vs e2.
    dwt_cyccnt P e = (t0, x1) \<and> Signer_Init P alg new_signer x1 = (0, signer, x2) \<and>
    dwt_cyccnt P x2 = (t1, x3) \<and> br_keygen r = t1 - t0 \<and>
    ExportPublicKey P signer kPublicKeyLenMax x3 = (0, pub, e1) \<and>
    trace P signer 0 (map word_of_nat [0..<64]) e1 cs vs e2 \<and> length cs = 20 \<and> length vs = 20 \<and>
    line_true (Report (br_sign r)) cs \<and> line_true (Report (br_verify r)) vs"
  using assms
proof (cases rule: BenchmarkOne_Done)
  case (1 t0 x1 signer x2 t1 x3 pub m sig v w e1 e2 st)
  obtain cs vs where t: "length cs = 20" "length vs = 20"
    "trace P signer 0 (map word_of_nat [0..<kMsgLen]) e1 cs vs e2" "stats_ok v cs" "stats_ok w vs"
    using bench_loop_stats [OF 1(7) stats_ok_zero stats_ok_zero] by (auto simp: kIterations_def)
  have "line_true (Report v) cs" "line_true (Report w) vs"
    using t(1,2) by (auto intro!: line_true_Report t(4,5))
  with t(1-3) 1(1-5,9,10) show ?thesis
    unfolding kMsgLen_def by blast
qed

theorem benchmark_statistics_witness:
  "\<exists>r e. BenchmarkOne (demo False) Ed25519 w0 = (Bench_Done r, e) \<and> br_keygen r = 64 \<and>
    (\<exists>cs vs. length cs = 20 \<and> length vs = 20 \<and>
       line_true (Report (br_sign r)) cs \<and> line_true (Report (br_verify r)) vs)"
proof -
  obtain r e where b: "BenchmarkOne (demo False) Ed25519 w0 = (Bench_Done r, e)"
    using demo_bench by blast
  obtain t0 x1 signer x2 t1 x3 pub e1 cs vs e2 where
    s: "dwt_cyccnt (demo False) w0 = (t0, x1)" "Signer_Init (demo False) Ed25519 new_signer x1 = (0, signer, x2)"
      "dwt_cyccnt (demo False) x2 = (t1, x3)" "br_keygen r = t1 - t0"
    and l: "length cs = 20" "length vs = 20" "line_true (Report (br_sign r)) cs"
      "line_true (Report (br_verify r)) vs"
    using benchmark_statistics [OF b] by (elim exE conjE)
  have x1: "t0 = 0" "x1 = w0\<lparr>w_cycles := 64\<rparr>" using s(1) by (simp_all add: demo_def w0_def)
  have "w_cycles x2 = 64" using s(2) unfolding x1 by (auto simp: demo_sig_defs demo_def w0_def Let_def)
  then have "t1 = 64" using s(3) by (auto simp: demo_def)
  then have "br_keygen r = 64" using s(4) x1(1) by simp
  with b l show ?thesis by blast
qed

end
