(* ===== verification/Interleaving.thy ===== *)
theory Interleaving
  imports Main
begin

text \<open>
  Two machines of a kind that take their steps on one shared state under a schedule, and one
  machine that runs alone. A step is a function of where the machine stands and of the shared
  state. Nothing here is about the program; \<open>Two_Carriers\<close> and \<open>Lazy_Carriers\<close> run its
  carriers with it.
\<close>

section \<open>Schedules\<close>

text \<open>\<open>True\<close> lets the first take its next step.\<close>

fun alone :: "('a \<Rightarrow> 's \<Rightarrow> 'a \<times> 's) \<Rightarrow> nat \<Rightarrow> 'a \<Rightarrow> 's \<Rightarrow> 'a \<times> 's" where
  "alone step 0 a s = (a, s)"
| "alone step (Suc k) a s = (let (a, s) = step a s in alone step k a s)"

fun interleave :: "('a \<Rightarrow> 's \<Rightarrow> 'a \<times> 's) \<Rightarrow> bool list \<Rightarrow> 'a \<times> 'a \<times> 's \<Rightarrow> 'a \<times> 'a \<times> 's" where
  "interleave step [] x = x"
| "interleave step (True # sched) (a, b, s) =
     (let (a, s) = step a s in interleave step sched (a, b, s))"
| "interleave step (False # sched) (a, b, s) =
     (let (b, s) = step b s in interleave step sched (a, b, s))"

lemma alone_add: "alone step (j + k) a s = (let (a, s) = alone step j a s in alone step k a s)"
  by (induction j arbitrary: a s) (simp_all split: prod.splits)

lemma alone_numeral [simp]:
  "alone step (numeral k) a s = (let (a, s) = step a s in alone step (pred_numeral k) a s)"
  by (simp add: numeral_eq_Suc)

lemma interleave_append:
  "interleave step (xs @ ys) x = interleave step ys (interleave step xs x)"
proof (induction xs arbitrary: x)
  case (Cons b xs)
  then show ?case by (cases x; cases b) (simp_all split: prod.splits)
qed simp

lemma interleave_first:
  "alone step k a s = (a', s') \<Longrightarrow> interleave step (replicate k True) (a, b, s) = (a', b, s')"
  by (induction k arbitrary: a s) (simp_all split: prod.splits)

lemma interleave_second:
  "alone step k b s = (b', s') \<Longrightarrow> interleave step (replicate k False) (a, b, s) = (a, b', s')"
  by (induction k arbitrary: b s) (simp_all split: prod.splits)

lemma interleave_True:
  "interleave step (replicate k True) (a, b, s) = (let (a, s) = alone step k a s in (a, b, s))"
  by (induction k arbitrary: a s) (simp_all split: prod.splits)

lemma interleave_False:
  "interleave step (replicate k False) (a, b, s) = (let (b, s) = alone step k b s in (a, b, s))"
  by (induction k arbitrary: b s) (simp_all split: prod.splits)

section \<open>Runs of bounded length\<close>

definition gets_to :: "('a \<Rightarrow> 's \<Rightarrow> 'a \<times> 's) \<Rightarrow> nat \<Rightarrow> 'a \<Rightarrow> 's \<Rightarrow> 'a \<Rightarrow> 's \<Rightarrow> bool" where
  "gets_to step j a s a' s' \<longleftrightarrow> (\<exists>k\<le>j. alone step k a s = (a', s'))"

lemma gets_toI: "alone step k a s = (a', s') \<Longrightarrow> k \<le> j \<Longrightarrow> gets_to step j a s a' s'"
  by (auto simp: gets_to_def)

lemma gets_to_refl: "gets_to step j a s a s"
  unfolding gets_to_def by (intro exI [of _ 0]) simp

lemma gets_to_eq: "a' = a \<Longrightarrow> s' = s \<Longrightarrow> gets_to step j a s a' s'"
  by (simp add: gets_to_refl)

lemma gets_to_step:
  assumes "step a s = (a1, s1)" "gets_to step j a1 s1 a' s'"
  shows "gets_to step (Suc j) a s a' s'"
proof -
  obtain k where "k \<le> j" "alone step k a1 s1 = (a', s')" using assms(2) by (auto simp: gets_to_def)
  then show ?thesis unfolding gets_to_def using assms(1) by (intro exI [of _ "Suc k"]) simp
qed

lemma gets_to_trans:
  assumes "gets_to step i a s a1 s1" "gets_to step j a1 s1 a' s'"
  shows "gets_to step (i + j) a s a' s'"
proof -
  obtain k l where "k \<le> i" "alone step k a s = (a1, s1)" "l \<le> j" "alone step l a1 s1 = (a', s')"
    using assms by (auto simp: gets_to_def)
  then show ?thesis unfolding gets_to_def by (intro exI [of _ "k + l"]) (simp add: alone_add)
qed

lemma gets_to_mono: "gets_to step i a s a' s' \<Longrightarrow> i \<le> j \<Longrightarrow> gets_to step j a s a' s'"
  by (auto simp: gets_to_def intro: order.trans)

lemma gets_to_one: "step a s = (a', s') \<Longrightarrow> gets_to step (Suc j) a s a' s'"
  by (rule gets_toI [of _ "Suc 0"]) simp_all

lemma alone_stays: "(\<And>s. step a s = (a, s)) \<Longrightarrow> alone step k a s = (a, s)"
  by (induction k) simp_all

lemma gets_to_stays:
  assumes "gets_to step j a s a' s'" and stays: "\<And>s. step a' s = (a', s)"
  shows "alone step j a s = (a', s')"
proof -
  obtain k where k: "k \<le> j" "alone step k a s = (a', s')" using assms(1) by (auto simp: gets_to_def)
  then have "alone step (k + (j - k)) a s = (a', s')"
    by (simp only: alone_add) (simp add: alone_stays [where step = step, OF stays])
  with k(1) show ?thesis by simp
qed

end
