(* ===== verification/Two_Carriers.thy ===== *)
theory Two_Carriers
  imports Core_Responses Interleaving
begin

text \<open>
  The Matter adapter calls the core on the Matter thread, the Bluetooth adapter on a work
  queue of its own, and neither takes a lock. Here the signed-request and the registration
  arm run in steps, one per access to a static variable: the preimage buffers \<open>reqPre\<close>,
  \<open>preimageBuf\<close> and \<open>pre\<close>, the key store, floor and ceiling of the replay guard, the settings.
  Two carriers take these steps in any order. Each has a request buffer, locals and a
  response buffer of its own. Header checks and the lazy initialisers, which a running device
  is past, are one step here, and so are the two arms that change nothing in a running device;
  \<open>Lazy_Carriers\<close> takes the initialisers in steps, too.
\<close>

section \<open>The arms in steps\<close>

record 'e statics =
  st_core :: "'e core"
  reqPre :: "byte list"
  preimageBuf :: "byte list"
  regPre :: "byte list"

text \<open>
  Where a carrier stands: the request, the counter and the two field lengths it has parsed,
  the size of the preimage span, the ceiling it is about to reserve; or the key to register,
  the size of the stored key's span and of the preimage.
\<close>

datatype carrier =
    At_Entry "byte list"
  | At_BuildRequest "byte list" u32 nat nat
  | At_Verify "byte list" u32 nat nat nat
  | At_Fresh "byte list" u32 nat
  | At_Accept "byte list" u32 nat
  | At_Extend "byte list" u32 nat u32
  | At_Save "byte list" u32 nat u32
  | At_Floor "byte list" u32 nat
  | At_BuildResponse "byte list" u32 nat
  | At_Sign "byte list" u32 nat nat
  | At_Check "byte list"
  | At_Store "byte list"
  | At_Drop
  | At_SaveKey
  | At_Close
  | At_BuildAck
  | At_SignAck nat nat
  | Finished "byte list \<times> reject"

definition with_core :: "('e core \<Rightarrow> 'e core) \<Rightarrow> 'e statics \<Rightarrow> 'e statics" where
  "with_core f s = s\<lparr>st_core := f (st_core s)\<rparr>"

definition signed_entry ::
  "'e platform \<Rightarrow> config \<Rightarrow> byte list \<Rightarrow> 'e statics \<Rightarrow> carrier \<times> 'e statics" where
  "signed_entry P cfg inp s =
     (case signed_parse inp of
        None \<Rightarrow> (Finished ([], InvalidCommand), s)
      | Some (c, n, m) \<Rightarrow>
          let (ok, d) = EnsureBundle P (st_core s)
          in if \<not> ok then (Finished ([], Failure), s\<lparr>st_core := d\<rparr>) else
          let (ok, d) = EnsureReplay P cfg d;
              s = s\<lparr>st_core := d\<rparr>
          in if \<not> ok then (Finished ([], Failure), s)
             else if \<not> CONFIG_TUNNEL_CLIENT_AUTH cfg then (At_Fresh inp c n, s)
             else if \<not> HasKey (gStore d) then (Finished ([kTypeAuthReject], Reject_None), s)
             else (At_BuildRequest inp c n m, s))"

definition register_entry :: "'e platform \<Rightarrow> byte list \<Rightarrow> 'e statics \<Rightarrow> carrier \<times> 'e statics" where
  "register_entry P inp s =
     (if length inp < 3 then (Finished ([], InvalidCommand), s)
      else
        let keyLen = read_u16 (inp ! 1) (inp ! 2)
        in if length inp < 3 + keyLen then (Finished ([], InvalidCommand), s) else
        let (ok, d) = EnsureBundle P (st_core s);
            s = s\<lparr>st_core := d\<rparr>
        in if \<not> ok then (Finished ([], Failure), s)
           else (At_Check (take keyLen (drop 3 inp)), s))"

fun carrier_step ::
  "'e platform \<Rightarrow> config \<Rightarrow> nat \<Rightarrow> carrier \<Rightarrow> 'e statics \<Rightarrow> carrier \<times> 'e statics" where
  "carrier_step P cfg outCap (At_Entry inp) s =
     (if length inp < 1 then (Finished ([], InvalidCommand), s)
      else
        let type = inp ! 0
        in if type = kTypeEcho then (Finished (echo_request inp outCap), s)
           else if CONFIG_TUNNEL_SECURITY cfg \<and> type = kTypeIdentityRequest
           then let (reply, d) = identity_request P inp outCap (st_core s)
                in (Finished reply, s\<lparr>st_core := d\<rparr>)
           else if CONFIG_TUNNEL_SECURITY cfg \<and> type = kTypeSignedRequest
           then signed_entry P cfg inp s
           else if CONFIG_TUNNEL_SECURITY cfg \<and> CONFIG_TUNNEL_CLIENT_AUTH cfg \<and>
             type = kTypeRegisterClientKey
           then register_entry P inp s
           else (Finished ([], InvalidCommand), s))"
| "carrier_step P cfg outCap (At_BuildRequest inp c n m) s =
     (let (err, pre) = BuildPreimage kDirRequest c (gDevicePub (st_core s)) (payload_at inp n) 700
      in if err \<noteq> CHIP_NO_ERROR then (Finished ([], ConstraintError), s)
         else (At_Verify inp c n m (length pre), s\<lparr>reqPre := overlay (reqPre s) pre\<rparr>))"
| "carrier_step P cfg outCap (At_Verify inp c n m k) s =
     (let (st, ks, e) = store_Verify P (take k (reqPre s)) (sig_at inp n m)
            (gStore (st_core s)) (env (st_core s));
          s = with_core (\<lambda>d. d\<lparr>gStore := ks, env := e\<rparr>) s
      in if st \<noteq> PSA_SUCCESS then (Finished ([kTypeAuthReject], Reject_None), s)
         else (At_Fresh inp c n, s))"
| "carrier_step P cfg outCap (At_Fresh inp c n) s =
     (let g = gReplay (st_core s)
      in if \<not> IsFresh g c
         then (Finished (kTypeReplayReject # PutU32 (mFloor g), Reject_None), s)
         else (At_Accept inp c n, s))"
| "carrier_step P cfg outCap (At_Accept inp c n) s =
     (let g = gReplay (st_core s)
      in if \<not> IsFresh g c then (Finished ([], Failure), s)
         else if c \<ge> mCeiling g
         then let nxt = c + kReserve
              in if nxt < c then (Finished ([], Failure), s) else (At_Extend inp c n nxt, s)
         else (At_Floor inp c n, s))"
| "carrier_step P cfg outCap (At_Extend inp c n nxt) s =
     (let s = with_core (\<lambda>d. d\<lparr>gReplay := (gReplay d)\<lparr>mCeiling := nxt\<rparr>\<rparr>) s
      in if \<not> mPersistent (gReplay (st_core s)) then (At_Floor inp c n, s)
         else (At_Save inp c n nxt, s))"
| "carrier_step P cfg outCap (At_Save inp c n nxt) s =
     (let (rc, e) = settings_save_one P ceiling_key (u32_mem nxt) (env (st_core s));
          s = with_core (\<lambda>d. d\<lparr>env := e\<rparr>) s
      in if rc \<noteq> 0 then (Finished ([], Failure), s) else (At_Floor inp c n, s))"
| "carrier_step P cfg outCap (At_Floor inp c n) s =
     (At_BuildResponse inp c n, with_core (\<lambda>d. d\<lparr>gReplay := (gReplay d)\<lparr>mFloor := c\<rparr>\<rparr>) s)"
| "carrier_step P cfg outCap (At_BuildResponse inp c n) s =
     (let (err, pre) = BuildPreimage kDirResponse c (gDevicePub (st_core s)) (payload_at inp n) 700
      in if err \<noteq> CHIP_NO_ERROR then (Finished ([], ConstraintError), s)
         else (At_Sign inp c n (length pre), s\<lparr>preimageBuf := overlay (preimageBuf s) pre\<rparr>))"
| "carrier_step P cfg outCap (At_Sign inp c n k) s =
     (let (st, sig, e) = Sign P (gSigner (st_core s)) (take k (preimageBuf s)) kSignatureLen
            (env (st_core s));
          s = with_core (\<lambda>d. d\<lparr>env := e\<rparr>) s
      in if st \<noteq> PSA_SUCCESS then (Finished ([], Failure), s)
         else (Finished (emit_response c n (payload_at inp n) sig outCap), s))"
| "carrier_step P cfg outCap (At_Check key) s =
     (let d = st_core s
      in if \<not> WindowOpen P (gStore d) (env d) \<or> length key \<noteq> kKeySize
         then (Finished ([kTypeAuthReject], Reject_None), s)
         else (At_Store key, s))"
| "carrier_step P cfg outCap (At_Store key) s =
     (At_Drop, with_core (\<lambda>d. d\<lparr>gStore := (gStore d)\<lparr>mKey := key, mKeyLen := kKeySize\<rparr>\<rparr>) s)"
| "carrier_step P cfg outCap At_Drop s =
     (if mImported (gStore (st_core s)) \<noteq> PSA_KEY_ID_NULL
      then let (st, e) = psa_destroy_key P (mImported (gStore (st_core s))) (env (st_core s))
           in (At_SaveKey, with_core (\<lambda>d. d\<lparr>gStore := (gStore d)\<lparr>mImported := PSA_KEY_ID_NULL\<rparr>, env := e\<rparr>) s)
      else (At_SaveKey, s))"
| "carrier_step P cfg outCap At_SaveKey s =
     (let (rc, e) = settings_save_one P clientkey_key (mKey (gStore (st_core s))) (env (st_core s))
      in (At_Close, with_core (\<lambda>d. d\<lparr>env := e\<rparr>) s))"
| "carrier_step P cfg outCap At_Close s =
     (At_BuildAck, with_core (\<lambda>d. d\<lparr>gStore := (gStore d)\<lparr>mWindowUntilMs := 0\<rparr>\<rparr>) s)"
| "carrier_step P cfg outCap At_BuildAck s =
     (let stored = Key (gStore (st_core s));
          (err, pre) = BuildPreimage kDirResponse 0 (gDevicePub (st_core s)) stored 256
      in if err \<noteq> CHIP_NO_ERROR then (Finished ([], Failure), s)
         else (At_SignAck (length stored) (length pre), s\<lparr>regPre := overlay (regPre s) pre\<rparr>))"
| "carrier_step P cfg outCap (At_SignAck n k) s =
     (let (st, sig, e) = Sign P (gSigner (st_core s)) (take k (regPre s)) kSignatureLen
            (env (st_core s));
          s = with_core (\<lambda>d. d\<lparr>env := e\<rparr>) s
      in if st \<noteq> PSA_SUCCESS then (Finished ([], Failure), s)
         else if 5 + n + kSignatureLen > outCap then (Finished ([], ConstraintError), s)
         else (Finished ([kTypeRegisterAck] @ put_u16 n @ take n (mKey (gStore (st_core s)))
                 @ put_u16 (length sig) @ sig, Reject_None), s))"
| "carrier_step P cfg outCap (Finished reply) s = (Finished reply, s)"

abbreviation two_carriers ::
  "'e platform \<Rightarrow> config \<Rightarrow> nat \<Rightarrow> bool list \<Rightarrow> carrier \<times> carrier \<times> 'e statics \<Rightarrow>
   carrier \<times> carrier \<times> 'e statics" where
  "two_carriers P cfg outCap \<equiv> interleave (carrier_step P cfg outCap)"

abbreviation carrier_alone ::
  "'e platform \<Rightarrow> config \<Rightarrow> nat \<Rightarrow> nat \<Rightarrow> carrier \<Rightarrow> 'e statics \<Rightarrow> carrier \<times> 'e statics" where
  "carrier_alone P cfg outCap \<equiv> alone (carrier_step P cfg outCap)"

abbreviation reaches ::
  "'e platform \<Rightarrow> config \<Rightarrow> nat \<Rightarrow> nat \<Rightarrow> carrier \<Rightarrow> 'e statics \<Rightarrow> carrier \<Rightarrow> 'e statics \<Rightarrow> bool" where
  "reaches P cfg outCap \<equiv> gets_to (carrier_step P cfg outCap)"

lemmas reaches_step = gets_to_step [where step = "carrier_step P cfg outCap" for P cfg outCap]
lemmas reaches_one = gets_to_one [where step = "carrier_step P cfg outCap" for P cfg outCap]
lemmas reaches_trans = gets_to_trans [where step = "carrier_step P cfg outCap" for P cfg outCap]
lemmas reaches_refl = gets_to_refl [where step = "carrier_step P cfg outCap" for P cfg outCap]

definition statics_wf :: "'e statics \<Rightarrow> bool" where
  "statics_wf s \<longleftrightarrow> length (reqPre s) = 700 \<and> length (preimageBuf s) = 700 \<and> length (regPre s) = 256"

lemma carrier_step_wf:
  "carrier_step P cfg outCap a s = (a', s') \<Longrightarrow> statics_wf s \<Longrightarrow> statics_wf s'"
  by (cases a) (auto simp: statics_wf_def with_core_def signed_entry_def register_entry_def Let_def
      split: option.splits prod.splits if_splits)

section \<open>Alone, the steps are the core\<close>

lemma reaches_Finished:
  "reaches P cfg outCap j a s (Finished r) s' \<Longrightarrow> carrier_alone P cfg outCap j a s = (Finished r, s')"
  by (rule gets_to_stays) simp_all

text \<open>\<open>Accept\<close> is four of the steps at most.\<close>

lemma reaches_accept:
  assumes "Accept P c (gReplay (st_core s)) (env (st_core s)) = (err, g, e)"
  shows "reaches P cfg outCap 4 (At_Accept inp c n) s
    (if err = CHIP_NO_ERROR then At_BuildResponse inp c n else Finished ([], Failure))
    (with_core (\<lambda>d. d\<lparr>gReplay := g, env := e\<rparr>) s)"
proof -
  let ?g = "gReplay (st_core s)" and ?nxt = "c + kReserve"
  consider (stale) "\<not> IsFresh ?g c" | (inside) "IsFresh ?g c" "\<not> mCeiling ?g \<le> c"
    | (wraps) "IsFresh ?g c" "mCeiling ?g \<le> c" "?nxt < c"
    | (volatile) "IsFresh ?g c" "mCeiling ?g \<le> c" "\<not> ?nxt < c" "\<not> mPersistent ?g"
    | (saves) "IsFresh ?g c" "mCeiling ?g \<le> c" "\<not> ?nxt < c" "mPersistent ?g"
    by fastforce
  note cases = this
  obtain rc e1 where sv: "settings_save_one P ceiling_key (u32_mem ?nxt) (env (st_core s)) = (rc, e1)"
    by fastforce
  note defs = Accept_def PersistCeiling_def with_core_def Let_def
  from cases show ?thesis
  proof cases
    case stale
    then show ?thesis by (intro gets_toI [of _ 1]) (use assms in \<open>auto simp: defs\<close>)
  next
    case inside
    then show ?thesis by (intro gets_toI [of _ 2]) (use assms in \<open>auto simp: defs\<close>)
  next
    case wraps
    then show ?thesis by (intro gets_toI [of _ 1]) (use assms in \<open>auto simp: defs\<close>)
  next
    case volatile
    then show ?thesis by (intro gets_toI [of _ 3]) (use assms in \<open>auto simp: defs\<close>)
  next
    case saves
    then show ?thesis
      by (intro gets_toI [of _ "if rc = 0 then 4 else 3"]) (use assms sv in \<open>auto simp: defs\<close>)
  qed
qed

text \<open>Signing and sending are two steps, authentication is two before \<open>At_Fresh\<close>.\<close>

lemma reaches_response:
  assumes "sign_response P c (payload_at inp n) (st_core s) = (res, d')" and wf: "statics_wf s"
  shows "\<exists>s'. reaches P cfg outCap 2 (At_BuildResponse inp c n) s
      (Finished (case res of Inl rej \<Rightarrow> ([], rej) | Inr sig \<Rightarrow> emit_response c n (payload_at inp n) sig outCap)) s' \<and>
    st_core s' = d' \<and> statics_wf s'"
proof -
  obtain err pre where b: "BuildPreimage kDirResponse c (gDevicePub (st_core s)) (payload_at inp n) 700 =
      (err, pre)" by fastforce
  show ?thesis
  proof (cases "err = CHIP_NO_ERROR")
    case False
    then have "reaches P cfg outCap 2 (At_BuildResponse inp c n) s (Finished ([], ConstraintError)) s"
      using b by (intro reaches_one [where j = 1, unfolded Suc_1]) simp
    then show ?thesis using assms b False by (auto simp: sign_response_def)
  next
    case True
    let ?s = "s\<lparr>preimageBuf := overlay (preimageBuf s) pre\<rparr>"
    obtain st sig e where sg: "Sign P (gSigner (st_core s)) pre kSignatureLen (env (st_core s)) = (st, sig, e)"
      by (metis prod_cases3)
    let ?t = "with_core (\<lambda>d. d\<lparr>env := e\<rparr>) ?s"
    have k: "take (length pre) (preimageBuf ?s) = pre"
      using wf b BuildPreimage_okD(3) [OF b [unfolded True]] by (simp add: statics_wf_def)
    have "reaches P cfg outCap 2 (At_BuildResponse inp c n) s
        (Finished (if st = 0 then emit_response c n (payload_at inp n) sig outCap else ([], Failure))) ?t"
      using b True sg k
      by (intro reaches_step [where j = 1, unfolded Suc_1] reaches_one [where j = 0, folded One_nat_def]) (simp, simp)
    moreover have "st_core ?t = d' \<and> statics_wf ?t \<and>
        res = (if st = 0 then Inr sig else Inl Failure)"
      using assms b True sg wf by (auto simp: sign_response_def with_core_def statics_wf_def)
    ultimately show ?thesis by (auto split: if_splits)
  qed
qed

lemma reaches_authenticate:
  assumes "authenticate P c (payload_at inp n) (sig_at inp n m) (st_core s) = (early, d')"
    and key: "HasKey (gStore (st_core s))" and wf: "statics_wf s"
  shows "\<exists>s'. reaches P cfg outCap 2 (At_BuildRequest inp c n m) s
      (case early of None \<Rightarrow> At_Fresh inp c n | Some reply \<Rightarrow> Finished reply) s' \<and>
    st_core s' = d' \<and> statics_wf s'"
proof -
  obtain err pre where b: "BuildPreimage kDirRequest c (gDevicePub (st_core s)) (payload_at inp n) 700 =
      (err, pre)" by fastforce
  show ?thesis
  proof (cases "err = CHIP_NO_ERROR")
    case False
    then have "reaches P cfg outCap 2 (At_BuildRequest inp c n m) s (Finished ([], ConstraintError)) s"
      using b by (intro reaches_one [where j = 1, unfolded Suc_1]) simp
    then show ?thesis using assms b False by (auto simp: authenticate_def)
  next
    case True
    let ?s = "s\<lparr>reqPre := overlay (reqPre s) pre\<rparr>"
    obtain st ks e where v: "store_Verify P pre (sig_at inp n m) (gStore (st_core s)) (env (st_core s)) =
        (st, ks, e)" by (metis prod_cases3)
    let ?t = "with_core (\<lambda>d. d\<lparr>gStore := ks, env := e\<rparr>) ?s"
    have k: "take (length pre) (reqPre ?s) = pre"
      using wf b BuildPreimage_okD(3) [OF b [unfolded True]] by (simp add: statics_wf_def)
    have "reaches P cfg outCap 2 (At_BuildRequest inp c n m) s
        (if st = 0 then At_Fresh inp c n else Finished ([kTypeAuthReject], Reject_None)) ?t"
      using b True v k
      by (intro reaches_step [where j = 1, unfolded Suc_1] reaches_one [where j = 0, folded One_nat_def]) (simp, simp)
    moreover have "st_core ?t = d' \<and> statics_wf ?t \<and>
        early = (if st = 0 then None else Some ([kTypeAuthReject], Reject_None))"
      using assms b True v wf by (auto simp: authenticate_def with_core_def statics_wf_def)
    ultimately show ?thesis by (auto split: if_splits)
  qed
qed

lemma reaches_consume:
  assumes "consume_counter P c (st_core s) = (early, d')" and wf: "statics_wf s"
  shows "\<exists>s'. reaches P cfg outCap 5 (At_Fresh inp c n) s
      (case early of None \<Rightarrow> At_BuildResponse inp c n | Some reply \<Rightarrow> Finished reply) s' \<and>
    st_core s' = d' \<and> statics_wf s'"
proof (cases "IsFresh (gReplay (st_core s)) c")
  case False
  then have "reaches P cfg outCap 5 (At_Fresh inp c n) s
      (Finished (kTypeReplayReject # PutU32 (mFloor (gReplay (st_core s))), Reject_None)) s"
    by (intro reaches_one [where j = 4, simplified]) simp
  then show ?thesis using assms False by (auto simp: consume_counter_def)
next
  case True
  obtain err g e where a: "Accept P c (gReplay (st_core s)) (env (st_core s)) = (err, g, e)"
    by (metis prod_cases3)
  let ?t = "with_core (\<lambda>d. d\<lparr>gReplay := g, env := e\<rparr>) s"
  have "reaches P cfg outCap 5 (At_Fresh inp c n) s
      (if err = CHIP_NO_ERROR then At_BuildResponse inp c n else Finished ([], Failure)) ?t"
    using True by (intro reaches_step [where j = 4, simplified, OF _ reaches_accept [OF a]]) simp
  moreover have "st_core ?t = d' \<and> statics_wf ?t \<and>
      early = (if err = CHIP_NO_ERROR then None else Some ([], Failure))"
    using assms True a by (auto simp: consume_counter_def with_core_def statics_wf_def split: if_splits)
  ultimately show ?thesis by (auto split: if_splits)
qed

text \<open>From the counter check on, and the whole arm.\<close>

lemma reaches_from_fresh:
  assumes "consume_counter P c (st_core s) = (early, d1)" and wf: "statics_wf s"
    and rest: "early = None \<Longrightarrow> sign_response P c (payload_at inp n) d1 = (res, d2)"
  shows "\<exists>s'. reaches P cfg outCap 7 (At_Fresh inp c n) s (Finished (case early of
        Some reply \<Rightarrow> reply
      | None \<Rightarrow> (case res of Inl rej \<Rightarrow> ([], rej) | Inr sig \<Rightarrow> emit_response c n (payload_at inp n) sig outCap))) s' \<and>
    st_core s' = (if early = None then d2 else d1) \<and> statics_wf s'"
proof -
  obtain t where t: "reaches P cfg outCap 5 (At_Fresh inp c n) s
      (case early of None \<Rightarrow> At_BuildResponse inp c n | Some reply \<Rightarrow> Finished reply) t"
      "st_core t = d1" "statics_wf t"
    using reaches_consume [OF assms(1) wf] by blast
  show ?thesis
  proof (cases early)
    case None
    obtain s' where "reaches P cfg outCap 2 (At_BuildResponse inp c n) t (Finished (case res of
        Inl rej \<Rightarrow> ([], rej) | Inr sig \<Rightarrow> emit_response c n (payload_at inp n) sig outCap)) s'"
      "st_core s' = d2" "statics_wf s'"
      using reaches_response [of P c inp n t res d2] rest [OF None] t(2,3) by blast
    moreover have "reaches P cfg outCap 5 (At_Fresh inp c n) s (At_BuildResponse inp c n) t"
      using t(1) None by simp
    ultimately show ?thesis using reaches_trans [where i = 5 and j = 2] None by fastforce
  next
    case (Some reply)
    then have "reaches P cfg outCap (5 + 2) (At_Fresh inp c n) s (Finished reply) t"
      using t(1) reaches_trans [OF _ reaches_refl] by fastforce
    with Some t show ?thesis by auto
  qed
qed

text \<open>The entry and, where it is configured, the authentication.\<close>

lemma entry_signed:
  "inp \<noteq> [] \<Longrightarrow> inp ! 0 = kTypeSignedRequest \<Longrightarrow> CONFIG_TUNNEL_SECURITY cfg \<Longrightarrow>
   carrier_step P cfg outCap (At_Entry inp) s = signed_entry P cfg inp s"
  by (simp add: type_defs Suc_le_eq)

lemma reaches_entry:
  assumes en: "carrier_step P cfg outCap (At_Entry inp) s = signed_entry P cfg inp s"
    and p: "signed_parse inp = Some (c, n, m)" and wf: "statics_wf s"
    and i: "EnsureBundle P (st_core s) = (True, d1)" "EnsureReplay P cfg d1 = (True, d2)"
    and au: "auth_gate P cfg c (payload_at inp n) (sig_at inp n m) d2 = (early, d3)"
  shows "\<exists>t. reaches P cfg outCap 3 (At_Entry inp) s
      (case early of None \<Rightarrow> At_Fresh inp c n | Some reply \<Rightarrow> Finished reply) t \<and>
    st_core t = d3 \<and> statics_wf t"
proof -
  define s2 where "s2 = s\<lparr>st_core := d2\<rparr>"
  have s2: "statics_wf s2" "st_core s2 = d2" using wf by (simp_all add: s2_def statics_wf_def)
  consider (anyone) "\<not> CONFIG_TUNNEL_CLIENT_AUTH cfg" | (keyless) "CONFIG_TUNNEL_CLIENT_AUTH cfg" "\<not> HasKey (gStore d2)"
    | (checked) "CONFIG_TUNNEL_CLIENT_AUTH cfg" "HasKey (gStore d2)" by blast
  then show ?thesis
  proof cases
    case anyone
    then have "reaches P cfg outCap 3 (At_Entry inp) s (At_Fresh inp c n) s2"
      using p i by (intro reaches_one [where j = 2, simplified]) (simp only: en, simp add: signed_entry_def s2_def)
    with anyone au s2 show ?thesis by (auto simp: auth_gate_def)
  next
    case keyless
    then have "reaches P cfg outCap 3 (At_Entry inp) s (Finished ([kTypeAuthReject], Reject_None)) s2"
      using p i by (intro reaches_one [where j = 2, simplified]) (simp only: en, simp add: signed_entry_def s2_def)
    with keyless au s2 show ?thesis by (auto simp: auth_gate_def authenticate_def)
  next
    case checked
    obtain t where t: "reaches P cfg outCap 2 (At_BuildRequest inp c n m) s2
        (case early of None \<Rightarrow> At_Fresh inp c n | Some reply \<Rightarrow> Finished reply) t"
      "st_core t = d3" "statics_wf t"
      using reaches_authenticate [of P c inp n m s2 early d3] au checked s2 by (auto simp: auth_gate_def)
    have "carrier_step P cfg outCap (At_Entry inp) s = (At_BuildRequest inp c n m, s2)"
      using checked p i unfolding en by (simp add: signed_entry_def s2_def)
    from reaches_step [OF this t(1)] t(2,3) show ?thesis by auto
  qed
qed

lemma reaches_signed_request:
  assumes en: "carrier_step P cfg outCap (At_Entry inp) s = signed_entry P cfg inp s"
    and R: "signed_request P cfg (\<lambda>_. inp) outCap (st_core s) = (reply, d')" and wf: "statics_wf s"
  shows "\<exists>s'. reaches P cfg outCap 10 (At_Entry inp) s (Finished reply) s' \<and>
    st_core s' = d' \<and> statics_wf s'"
proof (cases "\<exists>c n m d1 d2. signed_parse inp = Some (c, n, m) \<and> EnsureBundle P (st_core s) = (True, d1) \<and>
    EnsureReplay P cfg d1 = (True, d2)")
  case False
  then have "reaches P cfg outCap 10 (At_Entry inp) s (Finished reply) (s\<lparr>st_core := d'\<rparr>)"
    using R unfolding signed_request_def signed_entry_def [abs_def]
    by (intro reaches_one [where j = 9, simplified], unfold en signed_entry_def)
      (auto simp: Let_def split: option.splits prod.splits if_splits)
  with wf show ?thesis by (auto simp: statics_wf_def)
next
  case True
  then obtain c n m d1 d2 where p: "signed_parse inp = Some (c, n, m)"
    and i: "EnsureBundle P (st_core s) = (True, d1)" "EnsureReplay P cfg d1 = (True, d2)" by blast
  obtain early d3 where au: "auth_gate P cfg c (payload_at inp n) (sig_at inp n m) d2 = (early, d3)"
    by fastforce
  obtain early' d4 where cc: "consume_counter P c d3 = (early', d4)" by fastforce
  obtain res d5 where sr: "sign_response P c (payload_at inp n) d4 = (res, d5)" by fastforce
  let ?tail = "Finished (case early' of Some reply \<Rightarrow> reply
      | None \<Rightarrow> (case res of Inl rej \<Rightarrow> ([], rej) | Inr sig \<Rightarrow> emit_response c n (payload_at inp n) sig outCap))"
  have R': "early = None \<Longrightarrow> ?tail = Finished reply \<and> (if early' = None then d5 else d4) = d'"
    "early = Some r \<Longrightarrow> r = reply \<and> d3 = d'" for r
    using R p i au cc sr unfolding signed_request_def auth_gate_def [symmetric]
    by (auto simp: Let_def split: option.splits sum.splits)
  obtain t where t: "reaches P cfg outCap 3 (At_Entry inp) s
      (case early of None \<Rightarrow> At_Fresh inp c n | Some reply \<Rightarrow> Finished reply) t"
    "st_core t = d3" "statics_wf t"
    using reaches_entry [OF en p wf i au] by blast
  show ?thesis
  proof (cases early)
    case None
    obtain s' where s': "reaches P cfg outCap 7 (At_Fresh inp c n) t ?tail s'"
      "st_core s' = (if early' = None then d5 else d4)" "statics_wf s'"
      using reaches_from_fresh [of P c t early' d4 inp n res d5] cc sr t(2,3) by blast
    have "reaches P cfg outCap (3 + 7) (At_Entry inp) s ?tail s'"
      by (rule reaches_trans [OF _ s'(1)]) (use t(1) None in simp)
    with s' R'(1) [OF None] show ?thesis by auto
  next
    case (Some r)
    have "reaches P cfg outCap (3 + 7) (At_Entry inp) s (Finished r) t"
      by (rule reaches_trans [OF _ reaches_refl]) (use t(1) Some in simp)
    with t R'(2) [OF Some] show ?thesis by auto
  qed
qed

text \<open>The registration arm, from the back.\<close>

lemma reaches_ack:
  assumes b: "BuildPreimage kDirResponse 0 (gDevicePub (st_core s)) (Key (gStore (st_core s))) 256 = (err, pre)"
    and sg: "Sign P (gSigner (st_core s)) pre kSignatureLen (env (st_core s)) = (st, sig, e)"
    and wf: "statics_wf s"
  shows "\<exists>s'. reaches P cfg outCap 2 At_BuildAck s (Finished
      (if err \<noteq> CHIP_NO_ERROR then ([], Failure) else if st \<noteq> 0 then ([], Failure)
       else if 5 + length (Key (gStore (st_core s))) + kSignatureLen > outCap then ([], ConstraintError)
       else ([kTypeRegisterAck] @ put_field (Key (gStore (st_core s))) @ put_field sig, Reject_None))) s' \<and>
    st_core s' = (if err \<noteq> CHIP_NO_ERROR then st_core s else (st_core s)\<lparr>env := e\<rparr>) \<and> statics_wf s'"
proof (cases "err = CHIP_NO_ERROR")
  case False
  then have "reaches P cfg outCap 2 At_BuildAck s (Finished ([], Failure)) s"
    using b by (intro reaches_one [where j = 1, unfolded Suc_1]) simp
  with False wf show ?thesis by auto
next
  case True
  let ?key = "Key (gStore (st_core s))"
  let ?s = "s\<lparr>regPre := overlay (regPre s) pre\<rparr>"
  let ?t = "with_core (\<lambda>d. d\<lparr>env := e\<rparr>) ?s"
  have k: "take (length pre) (overlay (regPre s) pre) = pre"
    using wf BuildPreimage_okD(3) [OF b [unfolded True]] by (simp add: statics_wf_def)
  have key: "take (length ?key) (mKey (gStore (st_core s))) = ?key" by (simp add: Key_def min_def)
  have "reaches P cfg outCap 2 At_BuildAck s (Finished
      (if st \<noteq> 0 then ([], Failure)
       else if 5 + length ?key + kSignatureLen > outCap then ([], ConstraintError)
       else ([kTypeRegisterAck] @ put_field ?key @ put_field sig, Reject_None))) ?t"
    using b True sg k key
    by (intro reaches_step [where j = 1, unfolded Suc_1] reaches_one [where j = 0, folded One_nat_def])
       (simp, simp add: with_core_def put_field_def)
  moreover have "st_core ?t = (st_core s)\<lparr>env := e\<rparr> \<and> statics_wf ?t"
    using wf by (simp add: with_core_def statics_wf_def)
  ultimately show ?thesis using True by auto
qed

text \<open>\<open>Register\<close>: the check, then four steps to the closed window.\<close>

lemma reaches_register:
  assumes "Register P key (gStore (st_core s)) (env (st_core s)) = (err, ks, e)"
  shows "reaches P cfg outCap 5 (At_Check key) s
    (if err = CHIP_NO_ERROR then At_BuildAck else Finished ([kTypeAuthReject], Reject_None))
    (with_core (\<lambda>d. d\<lparr>gStore := ks, env := e\<rparr>) s)"
proof -
  let ?ks = "gStore (st_core s)" and ?e = "env (st_core s)"
  obtain st e1 where d: "psa_destroy_key P (mImported ?ks) ?e = (st, e1)" by fastforce
  obtain rc e2 where sv: "settings_save_one P clientkey_key key
      (if mImported ?ks = 0 then ?e else e1) = (rc, e2)" by fastforce
  show ?thesis
  proof (cases "WindowOpen P ?ks ?e \<and> length key = kKeySize")
    case True
    then show ?thesis
      by (intro gets_toI [of _ 5])
        (use assms d sv in \<open>auto simp: Register_def with_core_def split: if_splits\<close>)
  next
    case False
    then show ?thesis
      by (intro gets_toI [of _ 1]) (use assms in \<open>auto simp: Register_def with_core_def split: if_splits\<close>)
  qed
qed

lemma entry_register:
  "inp \<noteq> [] \<Longrightarrow> inp ! 0 = kTypeRegisterClientKey \<Longrightarrow> CONFIG_TUNNEL_SECURITY cfg \<Longrightarrow>
   CONFIG_TUNNEL_CLIENT_AUTH cfg \<Longrightarrow> carrier_step P cfg outCap (At_Entry inp) s = register_entry P inp s"
  by (simp add: type_defs Suc_le_eq)

lemma reaches_acknowledged:
  assumes R: "register_client_key P (\<lambda>_. inp) outCap d = (reply, d')" and wf: "statics_wf s"
    and len: "\<not> length inp < 3" "\<not> length inp < 3 + read_u16 (inp ! 1) (inp ! 2)"
    and eb: "EnsureBundle P d = (True, d1)"
    and rg: "Register P (take (read_u16 (inp ! 1) (inp ! 2)) (drop 3 inp)) (gStore d1) (env d1) =
      (CHIP_NO_ERROR, ks, e)"
    and s: "st_core s = d1\<lparr>gStore := ks, env := e\<rparr>"
  shows "\<exists>s'. reaches P cfg outCap 2 At_BuildAck s (Finished reply) s' \<and> st_core s' = d' \<and> statics_wf s'"
proof -
  obtain err pre where b: "BuildPreimage kDirResponse 0 (gDevicePub d1) (Key ks) 256 = (err, pre)"
    by fastforce
  obtain st sig e2 where sg: "Sign P (gSigner d1) pre kSignatureLen e = (st, sig, e2)" by (metis prod_cases3)
  show ?thesis
    using reaches_ack [OF _ _ wf, of err pre P st sig e2 cfg outCap] b sg s R len eb rg
    by (auto simp: register_client_key_def put_field_def Let_def simp del: One_nat_def split: if_splits)
qed

lemma reaches_registered:
  assumes en: "carrier_step P cfg outCap (At_Entry inp) s = register_entry P inp s"
    and n: "n = read_u16 (inp ! 1) (inp ! 2)" "\<not> (length inp < 3 \<or> length inp < 3 + n)"
    and eb: "EnsureBundle P (st_core s) = (True, d1)"
    and rg: "Register P (take n (drop 3 inp)) (gStore d1) (env d1) = (err, ks, e)"
  shows "reaches P cfg outCap 6 (At_Entry inp) s
    (if err = CHIP_NO_ERROR then At_BuildAck else Finished ([kTypeAuthReject], Reject_None))
    (with_core (\<lambda>d. d\<lparr>gStore := ks, env := e\<rparr>) (s\<lparr>st_core := d1\<rparr>))"
proof -
  let ?key = "take n (drop 3 inp)"
  have st: "carrier_step P cfg outCap (At_Entry inp) s = (At_Check ?key, s\<lparr>st_core := d1\<rparr>)"
    unfolding en using n(2) eb by (simp add: register_entry_def n(1) [symmetric] del: One_nat_def)
  have "reaches P cfg outCap 5 (At_Check ?key) (s\<lparr>st_core := d1\<rparr>)
      (if err = CHIP_NO_ERROR then At_BuildAck else Finished ([kTypeAuthReject], Reject_None))
      (with_core (\<lambda>d. d\<lparr>gStore := ks, env := e\<rparr>) (s\<lparr>st_core := d1\<rparr>))"
    by (rule reaches_register) (use rg in simp)
  from reaches_step [OF st this] show ?thesis by simp
qed

lemma reaches_register_client_key:
  assumes en: "carrier_step P cfg outCap (At_Entry inp) s = register_entry P inp s"
    and R: "register_client_key P (\<lambda>_. inp) outCap (st_core s) = (reply, d')" and wf: "statics_wf s"
  shows "\<exists>s'. reaches P cfg outCap 10 (At_Entry inp) s (Finished reply) s' \<and>
    st_core s' = d' \<and> statics_wf s'"
proof -
  define n where "n = read_u16 (inp ! 1) (inp ! 2)"
  obtain ok d1 where eb: "EnsureBundle P (st_core s) = (ok, d1)" by fastforce
  let ?s1 = "s\<lparr>st_core := d1\<rparr>"
  show ?thesis
  proof (cases "length inp < 3 \<or> length inp < 3 + n \<or> \<not> ok")
    case True
    have "carrier_step P cfg outCap (At_Entry inp) s = (Finished reply, s\<lparr>st_core := d'\<rparr>)"
      unfolding en using True R eb
      by (auto simp: register_client_key_def register_entry_def n_def [symmetric] simp del: One_nat_def split: if_splits)
    from reaches_one [OF this, of 9] wf show ?thesis by (auto simp: statics_wf_def)
  next
    case False
    obtain err ks e where rg: "Register P (take n (drop 3 inp)) (gStore d1) (env d1) = (err, ks, e)"
      by (metis prod_cases3)
    let ?s2 = "with_core (\<lambda>d. d\<lparr>gStore := ks, env := e\<rparr>) ?s1"
    have wf2: "statics_wf ?s2" using wf by (simp add: statics_wf_def with_core_def)
    have reg: "reaches P cfg outCap 6 (At_Entry inp) s
        (if err = CHIP_NO_ERROR then At_BuildAck else Finished ([kTypeAuthReject], Reject_None)) ?s2"
      using reaches_registered [OF en n_def _ _ rg] False eb by simp
    show ?thesis
    proof (cases "err = CHIP_NO_ERROR")
      case False': False
      have "reply = ([kTypeAuthReject], Reject_None) \<and> d' = st_core ?s2"
        using R False False' eb rg by (auto simp: register_client_key_def n_def [symmetric] with_core_def simp del: One_nat_def)
      moreover have "reaches P cfg outCap (6 + 4) (At_Entry inp) s (Finished ([kTypeAuthReject], Reject_None)) ?s2"
        by (rule reaches_trans [OF _ reaches_refl]) (use reg False' in simp)
      ultimately show ?thesis using wf2 by auto
    next
      case True
      have "\<exists>s'. reaches P cfg outCap 2 At_BuildAck ?s2 (Finished reply) s' \<and> st_core s' = d' \<and> statics_wf s'"
        using reaches_acknowledged [OF R wf2, where ?d1.0 = d1 and ks = ks and e = e] False True eb rg
        by (simp add: n_def with_core_def)
      then obtain s' where s': "reaches P cfg outCap 2 At_BuildAck ?s2 (Finished reply) s'"
        "st_core s' = d'" "statics_wf s'" by blast
      have "reaches P cfg outCap (8 + 2) (At_Entry inp) s (Finished reply) s'"
        by (rule reaches_trans [OF _ reaches_refl])
           (use reaches_trans [OF _ s'(1), of 6] reg True in simp)
      with s' show ?thesis by auto
    qed
  qed
qed

text \<open>So a carrier that is not interrupted is the core, after ten steps at most.\<close>

lemma carrier_alone_ProcessRequest:
  assumes R: "ProcessRequest P cfg inp outCap (st_core s) = (reply, d')" and wf: "statics_wf s"
  obtains s' where "carrier_alone P cfg outCap 10 (At_Entry inp) s = (Finished reply, s')"
    "st_core s' = d'" "statics_wf s'"
proof -
  note defs = ProcessRequest_def ProcessRequest_view_def
  consider (signed) "inp \<noteq> []" "inp ! 0 = kTypeSignedRequest" "CONFIG_TUNNEL_SECURITY cfg"
    | (register) "inp \<noteq> []" "inp ! 0 = kTypeRegisterClientKey" "CONFIG_TUNNEL_SECURITY cfg"
        "CONFIG_TUNNEL_CLIENT_AUTH cfg"
    | (other) "inp = [] \<or> inp ! 0 \<notin> {kTypeSignedRequest, kTypeRegisterClientKey} \<or>
        \<not> CONFIG_TUNNEL_SECURITY cfg \<or>
        inp ! 0 = kTypeRegisterClientKey \<and> \<not> CONFIG_TUNNEL_CLIENT_AUTH cfg"
    by blast
  then have "\<exists>s'. reaches P cfg outCap 10 (At_Entry inp) s (Finished reply) s' \<and>
    st_core s' = d' \<and> statics_wf s'"
  proof cases
    case signed
    then have "signed_request P cfg (\<lambda>_. inp) outCap (st_core s) = (reply, d')"
      using R by (simp add: defs Suc_le_eq type_defs)
    from reaches_signed_request [OF entry_signed [OF signed] this wf] show ?thesis .
  next
    case register
    then have "register_client_key P (\<lambda>_. inp) outCap (st_core s) = (reply, d')"
      using R by (simp add: defs Suc_le_eq type_defs)
    from reaches_register_client_key [OF entry_register [OF register] this wf] show ?thesis .
  next
    case other
    then have "carrier_step P cfg outCap (At_Entry inp) s = (Finished reply, s\<lparr>st_core := d'\<rparr>)"
      using R by (auto simp: defs Suc_le_eq Let_def type_defs split: if_splits prod.splits)
    from reaches_one [OF this, of 9] wf show ?thesis by (auto simp: statics_wf_def)
  qed
  then show thesis using that reaches_Finished by blast
qed

section \<open>Two in turn\<close>

lemma two_in_turn:
  assumes 1: "ProcessRequest P cfg inp1 outCap (st_core s) = (reply1, d1)"
    and 2: "ProcessRequest P cfg inp2 outCap d1 = (reply2, d2)" and wf: "statics_wf s"
  shows "\<exists>s'. two_carriers P cfg outCap (replicate 10 True @ replicate 10 False)
      (At_Entry inp1, At_Entry inp2, s) = (Finished reply1, Finished reply2, s') \<and> st_core s' = d2"
proof -
  obtain s1 where s1: "carrier_alone P cfg outCap 10 (At_Entry inp1) s = (Finished reply1, s1)"
    "st_core s1 = d1" "statics_wf s1"
    using carrier_alone_ProcessRequest [OF 1 wf] .
  obtain s2 where "carrier_alone P cfg outCap 10 (At_Entry inp2) s1 = (Finished reply2, s2)" "st_core s2 = d2"
    using carrier_alone_ProcessRequest [of P cfg inp2 outCap s1] 2 s1(2,3) by metis
  then show ?thesis
    using s1(1) by (simp only: interleave_append interleave_True) (simp add: interleave_False)
qed

section \<open>Two at once\<close>

text \<open>
  What a carrier needs of a running device to be let through to the next step, one lemma per
  step that a property follows.
\<close>

lemma step_entry:
  assumes "signed_parse inp = Some (c, n, m)" "gBundleLen (st_core s) \<noteq> 0" "gReplayReady (st_core s)"
    and "CONFIG_TUNNEL_SECURITY cfg" "CONFIG_TUNNEL_CLIENT_AUTH cfg" "HasKey (gStore (st_core s))"
    and "inp ! 0 = kTypeSignedRequest"
  shows "carrier_step P cfg outCap (At_Entry inp) s = (At_BuildRequest inp c n m, s)"
proof -
  have "inp \<noteq> []" using assms(1) by (auto simp: signed_parse_def)
  then show ?thesis
    using assms entry_signed [of inp cfg P outCap s] EnsureBundle_done [OF assms(2), of P]
      EnsureReplay_ready [OF assms(3), of P cfg]
    by (simp add: signed_entry_def del: carrier_step.simps)
qed

lemma step_build_request:
  assumes "BuildPreimage kDirRequest c (gDevicePub (st_core s)) (payload_at inp n) 700 = (CHIP_NO_ERROR, pre)"
  shows "carrier_step P cfg outCap (At_BuildRequest inp c n m) s =
    (At_Verify inp c n m (length pre), s\<lparr>reqPre := overlay (reqPre s) pre\<rparr>)"
  using assms by simp

text \<open>From the verification to the point before the floor is written.\<close>

lemma steps_verify_accept:
  assumes "store_Verify P (take k (reqPre s)) (sig_at inp n m) (gStore (st_core s)) (env (st_core s)) = (0, ks, e)"
    and "mFloor (gReplay (st_core s)) < c" "c < mCeiling (gReplay (st_core s))"
  shows "carrier_alone P cfg outCap 3 (At_Verify inp c n m k) s =
    (At_Floor inp c n, with_core (\<lambda>d. d\<lparr>gStore := ks, env := e\<rparr>) s)"
  using assms by (simp add: eval_nat_numeral with_core_def IsFresh_def not_le [symmetric])

text \<open>From there to the response.\<close>

lemma steps_answer:
  assumes b: "BuildPreimage kDirResponse c (gDevicePub (st_core s)) (payload_at inp n) 700 = (CHIP_NO_ERROR, pre)"
    and sg: "Sign P (gSigner (st_core s)) pre kSignatureLen (env (st_core s)) = (0, sig, e)"
    and wf: "statics_wf s"
  shows "carrier_alone P cfg outCap 3 (At_Floor inp c n) s =
    (Finished (emit_response c n (payload_at inp n) sig outCap),
     with_core (\<lambda>d. d\<lparr>gReplay := (gReplay d)\<lparr>mFloor := c\<rparr>, env := e\<rparr>)
       (s\<lparr>preimageBuf := overlay (preimageBuf s) pre\<rparr>))"
proof -
  have "take (length pre) (overlay (preimageBuf s) pre) = pre"
    using wf BuildPreimage_okD(3) [OF b] by (simp add: statics_wf_def)
  then show ?thesis using b sg by (simp add: eval_nat_numeral with_core_def)
qed

text \<open>
  The preimage buffer is shared: the second carrier builds its preimage over the first one's
  before that is verified. So the first request is checked against the signature of the
  second, which has the same length.
\<close>

definition overwrite_schedule :: "bool list" where
  "overwrite_schedule = replicate 2 True @ replicate 2 False @ replicate 3 True @ replicate 3 True"

lemma overwritten_preimage:
  assumes wf: "statics_wf s" and cfg: "CONFIG_TUNNEL_SECURITY cfg" "CONFIG_TUNNEL_CLIENT_AUTH cfg"
    and ty: "inp1 ! 0 = kTypeSignedRequest" "inp2 ! 0 = kTypeSignedRequest"
    and ready: "gBundleLen (st_core s) \<noteq> 0" "gReplayReady (st_core s)" "HasKey (gStore (st_core s))"
    and p1: "signed_parse inp1 = Some (c1, n, m)" and p2: "signed_parse inp2 = Some (c2, n', m')"
    and b1: "BuildPreimage kDirRequest c1 (gDevicePub (st_core s)) (payload_at inp1 n) 700 = (CHIP_NO_ERROR, pre1)"
    and b2: "BuildPreimage kDirRequest c2 (gDevicePub (st_core s)) (payload_at inp2 n') 700 = (CHIP_NO_ERROR, pre2)"
    and len: "length pre1 = length pre2"
    and ver: "store_Verify P pre2 (sig_at inp1 n m) (gStore (st_core s)) (env (st_core s)) = (0, ks, e1)"
    and fresh: "mFloor (gReplay (st_core s)) < c1" "c1 < mCeiling (gReplay (st_core s))"
    and b3: "BuildPreimage kDirResponse c1 (gDevicePub (st_core s)) (payload_at inp1 n) 700 = (CHIP_NO_ERROR, pre3)"
    and sg: "Sign P (gSigner (st_core s)) pre3 kSignatureLen e1 = (0, sig, e2)"
  shows "\<exists>s'. two_carriers P cfg outCap overwrite_schedule (At_Entry inp1, At_Entry inp2, s) =
      (Finished (emit_response c1 n (payload_at inp1 n) sig outCap), At_Verify inp2 c2 n' m' (length pre2), s') \<and>
    st_core s' = (st_core s)\<lparr>gStore := ks, gReplay := (gReplay (st_core s))\<lparr>mFloor := c1\<rparr>, env := e2\<rparr>"
proof -
  define s1 where "s1 = s\<lparr>reqPre := overlay (reqPre s) pre1\<rparr>"
  define s2 where "s2 = s1\<lparr>reqPre := overlay (reqPre s1) pre2\<rparr>"
  define s3 where "s3 = with_core (\<lambda>d. d\<lparr>gStore := ks, env := e1\<rparr>) s2"
  have core: "st_core s1 = st_core s" "st_core s2 = st_core s"
    "st_core s3 = (st_core s)\<lparr>gStore := ks, env := e1\<rparr>"
    by (simp_all add: s1_def s2_def s3_def with_core_def)
  have wf3: "statics_wf s3" using wf by (simp add: s1_def s2_def s3_def with_core_def statics_wf_def)
  have "carrier_alone P cfg outCap 2 (At_Entry inp1) s = (At_Verify inp1 c1 n m (length pre1), s1)"
    using step_entry [OF p1 ready(1,2) cfg ready(3) ty(1)] b1 by (simp add: eval_nat_numeral s1_def del: carrier_step.simps(1))
  moreover have "carrier_alone P cfg outCap 2 (At_Entry inp2) s1 = (At_Verify inp2 c2 n' m' (length pre2), s2)"
    using step_entry [OF p2, of s1 cfg P outCap] b2 ready cfg ty by (simp add: eval_nat_numeral core s2_def del: carrier_step.simps(1))
  moreover have "take (length pre1) (reqPre s2) = pre2"
    using wf BuildPreimage_okD(3) [OF b2] by (simp add: len s2_def s1_def statics_wf_def)
  then have "carrier_alone P cfg outCap 3 (At_Verify inp1 c1 n m (length pre1)) s2 = (At_Floor inp1 c1 n, s3)"
    using ver fresh by (simp only: s3_def) (rule steps_verify_accept; simp add: core)
  moreover have "carrier_alone P cfg outCap 3 (At_Floor inp1 c1 n) s3 =
    (Finished (emit_response c1 n (payload_at inp1 n) sig outCap),
     with_core (\<lambda>d. d\<lparr>gReplay := (gReplay d)\<lparr>mFloor := c1\<rparr>, env := e2\<rparr>)
       (s3\<lparr>preimageBuf := overlay (preimageBuf s3) pre3\<rparr>))"
    by (rule steps_answer [OF _ _ wf3]) (use b3 sg in \<open>simp_all add: core\<close>)
  ultimately show ?thesis
    unfolding overwrite_schedule_def
    by (simp add: interleave_append interleave_True interleave_False core with_core_def)
qed

text \<open>
  The floor is written last: two requests can both have passed their checks, and the one
  that writes last sets the floor, be it the lower.
\<close>

definition lost_update_schedule :: "bool list" where
  "lost_update_schedule = replicate 2 True @ replicate 3 True @
     replicate 2 False @ replicate 3 False @ replicate 3 False @ replicate 3 True"

lemma lost_update:
  assumes wf: "statics_wf s" and cfg: "CONFIG_TUNNEL_SECURITY cfg" "CONFIG_TUNNEL_CLIENT_AUTH cfg"
    and ty: "inp1 ! 0 = kTypeSignedRequest" "inp2 ! 0 = kTypeSignedRequest"
    and ready: "gBundleLen (st_core s) \<noteq> 0" "gReplayReady (st_core s)" "HasKey (gStore (st_core s))"
    and p: "signed_parse inp1 = Some (c1, n1, m1)" "signed_parse inp2 = Some (c2, n2, m2)"
    and b: "BuildPreimage kDirRequest c1 (gDevicePub (st_core s)) (payload_at inp1 n1) 700 = (CHIP_NO_ERROR, pre1)"
      "BuildPreimage kDirRequest c2 (gDevicePub (st_core s)) (payload_at inp2 n2) 700 = (CHIP_NO_ERROR, pre2)"
    and ver: "store_Verify P pre1 (sig_at inp1 n1 m1) (gStore (st_core s)) (env (st_core s)) = (0, ks1, e1)"
      "store_Verify P pre2 (sig_at inp2 n2 m2) ks1 e1 = (0, ks2, e2)"
    and fresh: "mFloor (gReplay (st_core s)) < c1" "c1 < mCeiling (gReplay (st_core s))"
      "mFloor (gReplay (st_core s)) < c2" "c2 < mCeiling (gReplay (st_core s))"
    and r: "BuildPreimage kDirResponse c1 (gDevicePub (st_core s)) (payload_at inp1 n1) 700 = (CHIP_NO_ERROR, rpre1)"
      "BuildPreimage kDirResponse c2 (gDevicePub (st_core s)) (payload_at inp2 n2) 700 = (CHIP_NO_ERROR, rpre2)"
    and sg: "Sign P (gSigner (st_core s)) rpre2 kSignatureLen e2 = (0, sig2, e3)"
      "Sign P (gSigner (st_core s)) rpre1 kSignatureLen e3 = (0, sig1, e4)"
  shows "\<exists>s'. two_carriers P cfg outCap lost_update_schedule (At_Entry inp1, At_Entry inp2, s) =
      (Finished (emit_response c1 n1 (payload_at inp1 n1) sig1 outCap),
       Finished (emit_response c2 n2 (payload_at inp2 n2) sig2 outCap), s') \<and>
    st_core s' = (st_core s)\<lparr>gStore := ks2, gReplay := (gReplay (st_core s))\<lparr>mFloor := c1\<rparr>, env := e4\<rparr>"
proof -
  define s1 where "s1 = s\<lparr>reqPre := overlay (reqPre s) pre1\<rparr>"
  define s2 where "s2 = with_core (\<lambda>d. d\<lparr>gStore := ks1, env := e1\<rparr>) s1"
  define s3 where "s3 = s2\<lparr>reqPre := overlay (reqPre s2) pre2\<rparr>"
  define s4 where "s4 = with_core (\<lambda>d. d\<lparr>gStore := ks2, env := e2\<rparr>) s3"
  define s5 where "s5 = with_core (\<lambda>d. d\<lparr>gReplay := (gReplay d)\<lparr>mFloor := c2\<rparr>, env := e3\<rparr>)
       (s4\<lparr>preimageBuf := overlay (preimageBuf s4) rpre2\<rparr>)"
  note defs = s1_def s2_def s3_def s4_def s5_def with_core_def
  have wfs: "statics_wf s1" "statics_wf s2" "statics_wf s3" "statics_wf s4" "statics_wf s5"
    using wf by (simp_all add: defs statics_wf_def)
  have key: "HasKey ks1"
    using ready(3) store_Verify_fields [OF ver(1)] by (simp add: HasKey_def)
  have t1: "take (length pre1) (reqPre s1) = pre1" and t2: "take (length pre2) (reqPre s3) = pre2"
    using wf BuildPreimage_okD(3) [OF b(1)] BuildPreimage_okD(3) [OF b(2)]
    by (simp_all add: defs statics_wf_def)
  have "carrier_alone P cfg outCap 2 (At_Entry inp1) s = (At_Verify inp1 c1 n1 m1 (length pre1), s1)"
    using step_entry [OF p(1) ready(1,2) cfg ready(3) ty(1)] b(1) by (simp add: eval_nat_numeral s1_def del: carrier_step.simps(1))
  moreover have "carrier_alone P cfg outCap 3 (At_Verify inp1 c1 n1 m1 (length pre1)) s1 = (At_Floor inp1 c1 n1, s2)"
    unfolding s2_def by (rule steps_verify_accept) (use t1 ver fresh in \<open>simp_all add: s1_def\<close>)
  moreover have "carrier_alone P cfg outCap 2 (At_Entry inp2) s2 = (At_Verify inp2 c2 n2 m2 (length pre2), s3)"
    using step_entry [OF p(2), of s2 cfg P outCap] b(2) ready cfg key ty
    by (simp add: eval_nat_numeral defs del: carrier_step.simps(1))
  moreover have "carrier_alone P cfg outCap 3 (At_Verify inp2 c2 n2 m2 (length pre2)) s3 = (At_Floor inp2 c2 n2, s4)"
    unfolding s4_def by (rule steps_verify_accept) (use t2 ver fresh in \<open>simp_all add: defs\<close>)
  moreover have "carrier_alone P cfg outCap 3 (At_Floor inp2 c2 n2) s4 =
      (Finished (emit_response c2 n2 (payload_at inp2 n2) sig2 outCap), s5)"
    unfolding s5_def by (rule steps_answer [OF _ _ wfs(4)]) (use r sg in \<open>simp_all add: defs\<close>)
  moreover have "carrier_alone P cfg outCap 3 (At_Floor inp1 c1 n1) s5 =
      (Finished (emit_response c1 n1 (payload_at inp1 n1) sig1 outCap),
       with_core (\<lambda>d. d\<lparr>gReplay := (gReplay d)\<lparr>mFloor := c1\<rparr>, env := e4\<rparr>)
         (s5\<lparr>preimageBuf := overlay (preimageBuf s5) rpre1\<rparr>))"
    by (rule steps_answer [OF _ _ wfs(5)]) (use r sg in \<open>simp_all add: defs\<close>)
  ultimately show ?thesis
    unfolding lost_update_schedule_def
    by (simp add: interleave_append interleave_True interleave_False) (simp add: defs)
qed

text \<open>
  The window is shut last: two registrations can both find it open. Both are acknowledged,
  the device keeps the key that is stored last.
\<close>

definition double_registration_schedule :: "bool list" where
  "double_registration_schedule = replicate 2 True @ replicate 8 False @ replicate 6 True"

text \<open>From the check on, for a key that passes it while no handle is imported.\<close>

lemma steps_register:
  assumes wf: "statics_wf s" and len: "length key = kKeySize" and h: "mImported (gStore (st_core s)) = 0"
    and sv: "settings_save_one P clientkey_key key (env (st_core s)) = (rc, e1)"
    and b: "BuildPreimage kDirResponse 0 (gDevicePub (st_core s)) key 256 = (CHIP_NO_ERROR, pre)"
    and sg: "Sign P (gSigner (st_core s)) pre kSignatureLen e1 = (0, sig, e2)"
    and cap: "5 + kKeySize + kSignatureLen \<le> outCap"
  shows "\<exists>s'. carrier_alone P cfg outCap 6 (At_Store key) s =
      (Finished ([kTypeRegisterAck] @ put_field key @ put_field sig, Reject_None), s') \<and> statics_wf s' \<and>
    st_core s' = (st_core s)\<lparr>gStore := (gStore (st_core s))\<lparr>mKey := key, mKeyLen := kKeySize,
      mWindowUntilMs := 0\<rparr>, env := e2\<rparr>"
proof -
  let ?ks = "(gStore (st_core s))\<lparr>mKey := key, mKeyLen := kKeySize, mWindowUntilMs := 0\<rparr>"
  let ?s = "s\<lparr>st_core := (st_core s)\<lparr>gStore := ?ks, env := e1\<rparr>\<rparr>"
  have key: "Key ?ks = key" using len by (simp add: Key_def)
  have wf4: "statics_wf ?s" using wf by (simp add: statics_wf_def)
  have "carrier_alone P cfg outCap 4 (At_Store key) s = (At_BuildAck, ?s)"
    using sv h by (simp add: eval_nat_numeral with_core_def)
  moreover obtain s' where s': "reaches P cfg outCap 2 At_BuildAck ?s
      (Finished ([kTypeRegisterAck] @ put_field key @ put_field sig, Reject_None)) s'"
    "st_core s' = (st_core ?s)\<lparr>env := e2\<rparr>" "statics_wf s'"
    using reaches_ack [OF _ _ wf4, of CHIP_NO_ERROR pre P 0 sig e2 cfg outCap] b sg key len cap by auto
  ultimately have "carrier_alone P cfg outCap (4 + 2) (At_Store key) s =
      (Finished ([kTypeRegisterAck] @ put_field key @ put_field sig, Reject_None), s')"
    using reaches_Finished [OF s'(1)] by (simp only: alone_add) simp
  with s' show ?thesis by auto
qed

lemma double_registration:
  assumes wf: "statics_wf s" and cfg: "CONFIG_TUNNEL_SECURITY cfg" "CONFIG_TUNNEL_CLIENT_AUTH cfg"
    and ready: "gBundleLen (st_core s) \<noteq> 0" "mImported (gStore (st_core s)) = 0"
      "WindowOpen P (gStore (st_core s)) (env (st_core s))"
    and len: "length k1 = kKeySize" "length k2 = kKeySize" "5 + kKeySize + kSignatureLen \<le> outCap"
    and sv: "settings_save_one P clientkey_key k2 (env (st_core s)) = (rc2, e1)"
      "settings_save_one P clientkey_key k1 e2 = (rc1, e3)"
    and b: "BuildPreimage kDirResponse 0 (gDevicePub (st_core s)) k1 256 = (CHIP_NO_ERROR, pre1)"
      "BuildPreimage kDirResponse 0 (gDevicePub (st_core s)) k2 256 = (CHIP_NO_ERROR, pre2)"
    and sg: "Sign P (gSigner (st_core s)) pre2 kSignatureLen e1 = (0, sig2, e2)"
      "Sign P (gSigner (st_core s)) pre1 kSignatureLen e3 = (0, sig1, e4)"
  shows "\<exists>s'. two_carriers P cfg outCap double_registration_schedule
      (At_Entry ([kTypeRegisterClientKey] @ put_field k1), At_Entry ([kTypeRegisterClientKey] @ put_field k2), s) =
      (Finished ([kTypeRegisterAck] @ put_field k1 @ put_field sig1, Reject_None),
       Finished ([kTypeRegisterAck] @ put_field k2 @ put_field sig2, Reject_None), s') \<and>
    Key (gStore (st_core s')) = k1"
proof -
  have checked: "carrier_alone P cfg outCap 2 (At_Entry ([kTypeRegisterClientKey] @ put_field k)) s =
      (At_Store k, s)" if k: "length k = kKeySize" for k
  proof -
    let ?inp = "[kTypeRegisterClientKey] @ put_field k"
    have "read_u16 (?inp ! 1) (?inp ! 2) = length k"
      using k read_u16_put_u16 [of "length k"] by (simp add: put_field_def put_u16_def kKeySize_def)
    then have "register_entry P ?inp s = (At_Check k, s)"
      using EnsureBundle_done [OF ready(1), of P] by (simp add: register_entry_def put_field_def put_u16_def)
    then have "carrier_step P cfg outCap (At_Entry ?inp) s = (At_Check k, s)"
      using entry_register [of ?inp cfg P outCap s] cfg by simp
    then show ?thesis using ready(3) k by (simp add: eval_nat_numeral)
  qed
  obtain s2 where s2: "carrier_alone P cfg outCap 6 (At_Store k2) s =
      (Finished ([kTypeRegisterAck] @ put_field k2 @ put_field sig2, Reject_None), s2)" "statics_wf s2"
    "st_core s2 = (st_core s)\<lparr>gStore := (gStore (st_core s))\<lparr>mKey := k2, mKeyLen := kKeySize,
      mWindowUntilMs := 0\<rparr>, env := e2\<rparr>"
    using steps_register [OF wf len(2) ready(2) sv(1) b(2) sg(1) len(3)] by blast
  obtain s4 where s4: "carrier_alone P cfg outCap 6 (At_Store k1) s2 =
      (Finished ([kTypeRegisterAck] @ put_field k1 @ put_field sig1, Reject_None), s4)"
    "st_core s4 = (st_core s2)\<lparr>gStore := (gStore (st_core s2))\<lparr>mKey := k1, mKeyLen := kKeySize,
      mWindowUntilMs := 0\<rparr>, env := e4\<rparr>"
    using steps_register [OF s2(2) len(1), of P rc1 e3 pre1 sig1 e4 outCap cfg] ready(2) sv(2) b(1) sg(2) len(3)
    by (auto simp: s2(3))
  have "carrier_alone P cfg outCap (2 + 6) (At_Entry ([kTypeRegisterClientKey] @ put_field k2)) s =
      (Finished ([kTypeRegisterAck] @ put_field k2 @ put_field sig2, Reject_None), s2)"
    using checked [OF len(2)] s2(1) by (simp only: alone_add) simp
  then have "two_carriers P cfg outCap double_registration_schedule
      (At_Entry ([kTypeRegisterClientKey] @ put_field k1), At_Entry ([kTypeRegisterClientKey] @ put_field k2), s) =
      (Finished ([kTypeRegisterAck] @ put_field k1 @ put_field sig1, Reject_None),
       Finished ([kTypeRegisterAck] @ put_field k2 @ put_field sig2, Reject_None), s4)"
    using checked [OF len(1)] s4(1)
    by (simp add: double_registration_schedule_def interleave_append interleave_True interleave_False)
  moreover have "Key (gStore (st_core s4)) = k1" using len(1) by (simp add: s4(2) Key_def)
  ultimately show ?thesis by blast
qed

section \<open>What holds in any order\<close>

text \<open>
  However two carriers overlap, the floor never falls below where it stood when they began,
  and no answered counter lies at or below that.
\<close>

fun past :: "u32 \<Rightarrow> carrier \<Rightarrow> bool" where
  "past f (At_Extend inp c n nxt) \<longleftrightarrow> f < c"
| "past f (At_Save inp c n nxt) \<longleftrightarrow> f < c"
| "past f (At_Floor inp c n) \<longleftrightarrow> f < c"
| "past f (At_BuildResponse inp c n) \<longleftrightarrow> f < c"
| "past f (At_Sign inp c n k) \<longleftrightarrow> f < c"
| "past f (Finished reply) \<longleftrightarrow> (\<forall>c. response_counter (fst reply) = Some c \<longrightarrow> f < c)"
| "past f _ \<longleftrightarrow> True"

definition floor_from :: "u32 \<Rightarrow> 'e statics \<Rightarrow> bool" where
  "floor_from f s \<longleftrightarrow> gReplayReady (st_core s) \<and> f \<le> mFloor (gReplay (st_core s))"

lemma response_counter_emit:
  "response_counter (fst (emit_response c n payload sig outCap)) = Some c' \<Longrightarrow> c' = c"
  by (simp add: emit_response_def response_counter_def split: if_splits)

lemma response_counter_no_answer [simp]:
  "response_counter [] = None" "response_counter [kTypeAuthReject] = None"
  "response_counter (kTypeReplayReject # bs) = None" "response_counter (kTypeRegisterAck # bs) = None"
  "response_counter (kTypeIdentityResponse # bs) = None"
  by (simp_all add: response_counter_def type_defs)

lemma floor_from_bundle:
  "EnsureBundle P (st_core s) = (ok, d) \<Longrightarrow> floor_from f s \<Longrightarrow> floor_from f (s\<lparr>st_core := d\<rparr>)"
  using EnsureBundle_frame by (fastforce simp: floor_from_def)

lemma entry_past:
  assumes "carrier_step P cfg outCap (At_Entry inp) s = (a', s')" and f: "floor_from f s"
  shows "floor_from f s' \<and> past f a'"
proof -
  have ready: "EnsureReplay P cfg d = (True, d)" if "EnsureBundle P (st_core s) = (ok, d)" for ok d
    using floor_from_bundle [OF that f] by (simp add: floor_from_def EnsureReplay_ready)
  have 1: "floor_from f s1 \<and> past f a1" if "signed_entry P cfg inp s = (a1, s1)" for a1 s1
    using that f ready floor_from_bundle [OF _ f]
    by (auto simp: signed_entry_def Let_def split: option.splits prod.splits if_splits)
  have 2: "floor_from f s1 \<and> past f a1" if "register_entry P inp s = (a1, s1)" for a1 s1
    using that f floor_from_bundle [OF _ f]
    by (auto simp: register_entry_def Let_def split: prod.splits if_splits)
  have 3: "floor_from f (s\<lparr>st_core := d\<rparr>) \<and> response_counter bs = None"
    if "identity_request P inp outCap (st_core s) = ((bs, r), d)" for bs r d
    using that by (rule identity_request_cases) (use f floor_from_bundle [OF _ f] in auto)
  have 4: "response_counter (fst (echo_request inp outCap)) = None" if "inp ! 0 = kTypeEcho"
    using that by (simp add: echo_request_def response_counter_def type_defs)
  show ?thesis using assms 1 2 3 4
    by (auto simp: Let_def split: prod.splits if_splits)
qed

lemma carrier_step_past:
  assumes "carrier_step P cfg outCap a s = (a', s')" and "floor_from f s" and "past f a"
  shows "floor_from f s' \<and> past f a'"
proof (cases a)
  case (At_Entry inp)
  with assms entry_past show ?thesis by blast
next
  case (At_Sign inp c n k)
  then show ?thesis
    using assms
    by (auto simp: floor_from_def with_core_def Let_def dest!: response_counter_emit
        split: prod.splits if_splits)
qed (use assms in \<open>auto simp: floor_from_def with_core_def IsFresh_def Let_def split: prod.splits if_splits\<close>)

lemma two_carriers_past:
  "two_carriers P cfg outCap sched (a, b, s) = (a', b', s') \<Longrightarrow> floor_from f s \<Longrightarrow> past f a \<Longrightarrow> past f b \<Longrightarrow>
   floor_from f s' \<and> past f a' \<and> past f b'"
proof (induction sched arbitrary: a b s)
  case (Cons t sched)
  show ?case
  proof (cases t)
    case True
    obtain a1 s1 where st: "carrier_step P cfg outCap a s = (a1, s1)" by fastforce
    with Cons.prems True Cons.IH carrier_step_past [OF st] show ?thesis by simp
  next
    case False
    obtain b1 s1 where st: "carrier_step P cfg outCap b s = (b1, s1)" by fastforce
    with Cons.prems False Cons.IH carrier_step_past [OF st] show ?thesis by simp
  qed
qed simp

end
