(* ===== verification/Lazy_Carriers.thy ===== *)
theory Lazy_Carriers
  imports Two_Carriers Client_Service
begin

text \<open>
  The two lazy initialisers in steps, for two carriers that both find the device asleep.
  \<open>EnsureBundle\<close> and \<open>EnsureReplay\<close> test a flag, initialise, and set the flag, and
  \<open>ReplayGuard::Init\<close> passes the loaded ceiling through file-level variables; none of it is
  locked. A step is one access to a static variable, or one call of another component
  (\<open>Signer::Init\<close>, \<open>BuildIdentityBundle\<close>, the settings, \<open>ClientKeyStore::Init\<close>). Past the
  initialisers a carrier goes on with the steps of \<open>Two_Carriers\<close>.
\<close>

section \<open>Waking up in steps\<close>

text \<open>A signed request with its counter and field lengths.\<close>

type_synonym job = "byte list \<times> u32 \<times> nat \<times> nat"

text \<open>What needs the bundle, with what it has parsed.\<close>

datatype errand =
    Identity_Errand "byte list"
  | Signed_Errand job
  | Register_Errand "byte list"

datatype waker =
    Wk_Entry "byte list"
  | Wk_Bundle errand
  | Wk_Signer errand
  | Wk_Build errand
  | Wk_BundleLen errand nat
  | Wk_Export errand
  | Wk_Chunk "byte list"
  | Wk_Replay job
  | Wk_Reset job
  | Wk_Subsys job
  | Wk_Persistent job
  | Wk_Load job
  | Wk_Ceiling job
  | Wk_Floor job
  | Wk_Reserve job
  | Wk_SaveReserve job
  | Wk_Ready job
  | Wk_Store job
  | Awake carrier

text \<open>What follows \<open>EnsureBundle\<close> in the identity arm.\<close>

definition identity_chunk :: "byte list \<Rightarrow> nat \<Rightarrow> 'e core \<Rightarrow> byte list \<times> reject" where
  "identity_chunk inp outCap d =
     (let offset = read_u16 (inp ! 1) (inp ! 2)
      in if offset \<ge> gBundleLen d then ([], ConstraintError)
         else
           let remaining = gBundleLen d - offset;
               chunk = (if remaining < kMaxChunk then remaining else kMaxChunk)
           in if 5 + chunk > outCap then ([], ConstraintError)
              else ([kTypeIdentityResponse] @ put_u16 offset @ put_u16 (gBundleLen d)
                    @ take chunk (drop offset (gBundle d)), Reject_None))"

definition have_bundle :: "errand \<Rightarrow> waker" where
  "have_bundle er =
     (case er of Identity_Errand inp \<Rightarrow> Wk_Chunk inp
      | Signed_Errand j \<Rightarrow> Wk_Replay j
      | Register_Errand key \<Rightarrow> Awake (At_Check key))"

text \<open>What follows \<open>EnsureReplay\<close>: the test for a registered key.\<close>

definition have_replay :: "config \<Rightarrow> job \<Rightarrow> 'e core \<Rightarrow> waker" where
  "have_replay cfg j d =
     (case j of (inp, c, n, m) \<Rightarrow>
        Awake (if \<not> CONFIG_TUNNEL_CLIENT_AUTH cfg then At_Fresh inp c n
               else if \<not> HasKey (gStore d) then Finished ([kTypeAuthReject], Reject_None)
               else At_BuildRequest inp c n m))"

definition with_guard :: "(ReplayGuard \<Rightarrow> ReplayGuard) \<Rightarrow> 'e statics \<Rightarrow> 'e statics" where
  "with_guard f = with_core (\<lambda>d. d\<lparr>gReplay := f (gReplay d)\<rparr>)"

text \<open>
  What comes before \<open>EnsureBundle\<close>: the dispatch and the header checks of the three arms that
  need the bundle. The echo has been taken before.
\<close>

definition errand_of :: "config \<Rightarrow> byte list \<Rightarrow> (byte list \<times> reject) + errand" where
  "errand_of cfg inp =
     (if length inp < 1 then Inl ([], InvalidCommand)
      else
        let type = inp ! 0
        in if CONFIG_TUNNEL_SECURITY cfg \<and> type = kTypeIdentityRequest
           then if length inp < 3 then Inl ([], InvalidCommand) else Inr (Identity_Errand inp)
           else if CONFIG_TUNNEL_SECURITY cfg \<and> type = kTypeSignedRequest
           then (case signed_parse inp of None \<Rightarrow> Inl ([], InvalidCommand)
                 | Some (c, n, m) \<Rightarrow> Inr (Signed_Errand (inp, c, n, m)))
           else if CONFIG_TUNNEL_SECURITY cfg \<and> CONFIG_TUNNEL_CLIENT_AUTH cfg \<and>
             type = kTypeRegisterClientKey
           then if length inp < 3 then Inl ([], InvalidCommand)
                else let keyLen = read_u16 (inp ! 1) (inp ! 2)
                     in if length inp < 3 + keyLen then Inl ([], InvalidCommand)
                        else Inr (Register_Errand (take keyLen (drop 3 inp)))
           else Inl ([], InvalidCommand))"

text \<open>
  \<open>Wk_Bundle\<close> to \<open>Wk_Export\<close> are \<open>EnsureBundle\<close>; \<open>Wk_Replay\<close>, \<open>Wk_Ready\<close> and \<open>Wk_Store\<close> are
  \<open>EnsureReplay\<close>; \<open>Wk_Reset\<close> to \<open>Wk_SaveReserve\<close> are \<open>ReplayGuard::Init\<close> with
  \<open>PersistCeiling\<close>. \<open>Wk_Subsys\<close> takes the three assignments of the path without settings, and
  \<open>Wk_Load\<close> the callbacks of one load, as a single step.
\<close>

fun waker_step ::
  "'e platform \<Rightarrow> config \<Rightarrow> nat \<Rightarrow> waker \<Rightarrow> 'e statics \<times> loaded_ceiling \<Rightarrow>
   waker \<times> 'e statics \<times> loaded_ceiling" where
  "waker_step P cfg outCap (Wk_Entry inp) (s, ld) =
     (if inp \<noteq> [] \<and> inp ! 0 = kTypeEcho then (Awake (Finished (echo_request inp outCap)), s, ld)
      else case errand_of cfg inp of
        Inl reply \<Rightarrow> (Awake (Finished reply), s, ld)
      | Inr er \<Rightarrow> (Wk_Bundle er, s, ld))"
| "waker_step P cfg outCap (Wk_Bundle er) (s, ld) =
     (if gBundleLen (st_core s) \<noteq> 0 then (have_bundle er, s, ld) else (Wk_Signer er, s, ld))"
| "waker_step P cfg outCap (Wk_Signer er) (s, ld) =
     (let (st, sg, e) = Signer_Init P Ed25519 (gSigner (st_core s)) (env (st_core s));
          s = with_core (\<lambda>d. d\<lparr>gSigner := sg, env := e\<rparr>) s
      in if st \<noteq> PSA_SUCCESS then (Awake (Finished ([], Failure)), s, ld)
         else (Wk_Build er, s, ld))"
| "waker_step P cfg outCap (Wk_Build er) (s, ld) =
     (let (err, bundle, e) = BuildIdentityBundle P (gSigner (st_core s)) 1200 (env (st_core s))
      in if err \<noteq> CHIP_NO_ERROR
         then (Awake (Finished ([], Failure)), with_core (\<lambda>d. d\<lparr>env := e\<rparr>) s, ld)
         else (Wk_BundleLen er (length bundle),
               with_core (\<lambda>d. d\<lparr>gBundle := bundle, env := e\<rparr>) s, ld))"
| "waker_step P cfg outCap (Wk_BundleLen er k) (s, ld) =
     (Wk_Export er, with_core (\<lambda>d. d\<lparr>gBundleLen := k\<rparr>) s, ld)"
| "waker_step P cfg outCap (Wk_Export er) (s, ld) =
     (let (st, pub, e) = ExportPublicKey P (gSigner (st_core s)) kPublicKeyLenMax (env (st_core s))
      in if st \<noteq> PSA_SUCCESS
         then (Awake (Finished ([], Failure)), with_core (\<lambda>d. d\<lparr>gBundleLen := 0, env := e\<rparr>) s, ld)
         else (have_bundle er, with_core (\<lambda>d. d\<lparr>gDevicePub := pub, env := e\<rparr>) s, ld))"
| "waker_step P cfg outCap (Wk_Chunk inp) (s, ld) =
     (Awake (Finished (identity_chunk inp outCap (st_core s))), s, ld)"
| "waker_step P cfg outCap (Wk_Replay j) (s, ld) =
     (if gReplayReady (st_core s) then (have_replay cfg j (st_core s), s, ld)
      else (Wk_Reset j, s, ld))"
| "waker_step P cfg outCap (Wk_Reset j) (s, ld) =
     (Wk_Subsys j, s, \<lparr>gLoaded = 0, gLoadedValid = False\<rparr>)"
| "waker_step P cfg outCap (Wk_Subsys j) (s, ld) =
     (let (rc, e) = settings_subsys_init P (env (st_core s));
          s = with_core (\<lambda>d. d\<lparr>env := e\<rparr>) s
      in if rc \<noteq> 0
         then (Wk_Ready j,
               with_guard (\<lambda>_. \<lparr>mFloor = 0, mCeiling = kReserve, mPersistent = False\<rparr>) s, ld)
         else (Wk_Persistent j, s, ld))"
| "waker_step P cfg outCap (Wk_Persistent j) (s, ld) =
     (Wk_Load j, with_guard (\<lambda>g. g\<lparr>mPersistent := True\<rparr>) s, ld)"
| "waker_step P cfg outCap (Wk_Load j) (s, ld) =
     (let (calls, rc, e) = settings_load_subtree_direct P ceiling_key (env (st_core s))
      in (Wk_Ceiling j, with_core (\<lambda>d. d\<lparr>env := e\<rparr>) s,
          fold (\<lambda>c ld. snd (ceiling_LoadCb c ld)) calls ld))"
| "waker_step P cfg outCap (Wk_Ceiling j) (s, ld) =
     (Wk_Floor j, with_guard (\<lambda>g. g\<lparr>mCeiling := if gLoadedValid ld then gLoaded ld else 0\<rparr>) s, ld)"
| "waker_step P cfg outCap (Wk_Floor j) (s, ld) =
     (let s = with_guard (\<lambda>g. g\<lparr>mFloor := mCeiling g\<rparr>) s
      in if mCeiling (gReplay (st_core s)) = 0 then (Wk_Reserve j, s, ld) else (Wk_Ready j, s, ld))"
| "waker_step P cfg outCap (Wk_Reserve j) (s, ld) =
     (let s = with_guard (\<lambda>g. g\<lparr>mCeiling := kReserve\<rparr>) s
      in if \<not> mPersistent (gReplay (st_core s)) then (Wk_Ready j, s, ld)
         else (Wk_SaveReserve j, s, ld))"
| "waker_step P cfg outCap (Wk_SaveReserve j) (s, ld) =
     (let (rc, e) = settings_save_one P ceiling_key (u32_mem kReserve) (env (st_core s));
          s = with_core (\<lambda>d. d\<lparr>env := e\<rparr>) s
      in if rc \<noteq> 0 then (Awake (Finished ([], Failure)), s, ld) else (Wk_Ready j, s, ld))"
| "waker_step P cfg outCap (Wk_Ready j) (s, ld) =
     (let s = with_core (\<lambda>d. d\<lparr>gReplayReady := True\<rparr>) s
      in if CONFIG_TUNNEL_CLIENT_AUTH cfg then (Wk_Store j, s, ld)
         else (have_replay cfg j (st_core s), s, ld))"
| "waker_step P cfg outCap (Wk_Store j) (s, ld) =
     (let (err, ks, e) = ClientKeyStore_Init P (gStore (st_core s)) (env (st_core s));
          s = with_core (\<lambda>d. d\<lparr>gStore := ks, env := e\<rparr>) s
      in (have_replay cfg j (st_core s), s, ld))"
| "waker_step P cfg outCap (Awake a) (s, ld) =
     (let (a, s) = carrier_step P cfg outCap a s in (Awake a, s, ld))"

section \<open>Alone, waking up is the entry of the core\<close>

lemmas wk_step = gets_to_step [where step = "waker_step P cfg outCap" for P cfg outCap]

lemma waker_bundle_alone:
  assumes E: "EnsureBundle P (st_core s) = (ok, d')"
  shows "gets_to (waker_step P cfg outCap) 5 (Wk_Bundle er) (s, ld)
    (if ok then have_bundle er else Awake (Finished ([], Failure))) (s\<lparr>st_core := d'\<rparr>, ld)"
proof (cases "gBundleLen (st_core s) = 0")
  case False
  then show ?thesis by (intro gets_toI [of _ 1]) (use E in \<open>simp_all add: EnsureBundle_def\<close>)
next
  case asleep: True
  obtain st sg e1 where si: "Signer_Init P Ed25519 (gSigner (st_core s)) (env (st_core s)) = (st, sg, e1)"
    by (metis prod_cases3)
  obtain err bdl e2 where bb: "BuildIdentityBundle P sg 1200 e1 = (err, bdl, e2)" by (metis prod_cases3)
  obtain st' pub e3 where ex: "ExportPublicKey P sg kPublicKeyLenMax e2 = (st', pub, e3)" by (metis prod_cases3)
  note run = E asleep si bb ex
  consider "st \<noteq> 0" | "st = 0" "err \<noteq> CHIP_NO_ERROR" | "st = 0" "err = CHIP_NO_ERROR" "st' \<noteq> 0"
    | "st = 0" "err = CHIP_NO_ERROR" "st' = 0" by blast
  then show ?thesis
  proof cases
    case 1
    then show ?thesis by (intro gets_toI [of _ 2]) (use run in \<open>auto simp: EnsureBundle_def with_core_def\<close>)
  next
    case 2
    then show ?thesis by (intro gets_toI [of _ 3]) (use run in \<open>auto simp: EnsureBundle_def with_core_def\<close>)
  next
    case 3
    then show ?thesis by (intro gets_toI [of _ 5]) (use run in \<open>auto simp: EnsureBundle_def with_core_def\<close>)
  next
    case 4
    then show ?thesis by (intro gets_toI [of _ 5]) (use run in \<open>auto simp: EnsureBundle_def with_core_def\<close>)
  qed
qed

text \<open>What \<open>ReplayGuard::Init\<close> leaves in the two file-level variables.\<close>

definition loaded_by :: "'e platform \<Rightarrow> 'e \<Rightarrow> loaded_ceiling" where
  "loaded_by P e =
     (let (rc, e) = settings_subsys_init P e;
          (calls, rc, e) = settings_load_subtree_direct P ceiling_key e
      in fold (\<lambda>c ld. snd (ceiling_LoadCb c ld)) calls \<lparr>gLoaded = 0, gLoadedValid = False\<rparr>)"

text \<open>It is eight steps at most, after the test of the flag.\<close>

lemma waker_init_alone:
  assumes asleep: "\<not> gReplayReady (st_core s)"
    and I: "ReplayGuard_Init P (gReplay (st_core s)) (env (st_core s)) = (err, g, e)"
  shows "\<exists>ld'. gets_to (waker_step P cfg outCap) 9 (Wk_Replay j) (s, ld)
    (if err = CHIP_NO_ERROR then Wk_Ready j else Awake (Finished ([], Failure)))
    (with_core (\<lambda>d. d\<lparr>gReplay := g, env := e\<rparr>) s, ld') \<and>
    (fst (settings_subsys_init P (env (st_core s))) = 0 \<longrightarrow> ld' = loaded_by P (env (st_core s)))"
proof -
  let ?d = "st_core s"
  obtain rc e1 where init: "settings_subsys_init P (env ?d) = (rc, e1)" by fastforce
  obtain calls rc' e2 where load: "settings_load_subtree_direct P ceiling_key e1 = (calls, rc', e2)"
    by (metis prod_cases3)
  obtain rc'' e3 where save: "settings_save_one P ceiling_key (u32_mem kReserve) e2 = (rc'', e3)" by fastforce
  let ?ld = "fold (\<lambda>c ld. snd (ceiling_LoadCb c ld)) calls \<lparr>gLoaded = 0, gLoadedValid = False\<rparr>"
  note run = asleep I init load
  note defs = ReplayGuard_Init_def PersistCeiling_def loaded_by_def with_core_def with_guard_def Let_def
  consider (volatile) "rc \<noteq> 0" | (loaded) "rc = 0" "gLoadedValid ?ld" "gLoaded ?ld \<noteq> 0"
    | (first) "rc = 0" "\<not> gLoadedValid ?ld \<or> gLoaded ?ld = 0" by blast
  then show ?thesis
  proof cases
    case volatile
    then show ?thesis
      by (intro exI [of _ "\<lparr>gLoaded = 0, gLoadedValid = False\<rparr>"] conjI gets_toI [of _ 3])
        (use run in \<open>auto simp: defs\<close>)
  next
    case loaded
    then show ?thesis
      by (intro exI [of _ ?ld] conjI gets_toI [of _ 7]) (use run in \<open>auto simp: defs\<close>)
  next
    case first
    then show ?thesis
      by (intro exI [of _ ?ld] conjI gets_toI [of _ 9]) (use run save in \<open>auto simp: defs split: if_splits\<close>)
  qed
qed

text \<open>The flag and the key store.\<close>

lemma waker_ready_alone:
  assumes "EnsureReplay P cfg (st_core s) = (ok, d')" "\<not> gReplayReady (st_core s)"
    and "ReplayGuard_Init P (gReplay (st_core s)) (env (st_core s)) = (CHIP_NO_ERROR, g, e)"
  shows "gets_to (waker_step P cfg outCap) 2 (Wk_Ready j)
    (with_core (\<lambda>d. d\<lparr>gReplay := g, env := e\<rparr>) s, ld) (have_replay cfg j d') (s\<lparr>st_core := d'\<rparr>, ld)"
proof -
  obtain err' ks e' where S: "ClientKeyStore_Init P (gStore (st_core s)) e = (err', ks, e')"
    by (metis prod_cases3)
  show ?thesis
    by (cases "CONFIG_TUNNEL_CLIENT_AUTH cfg"; intro gets_toI [of _ "if CONFIG_TUNNEL_CLIENT_AUTH cfg then 2 else 1"])
      (use assms S in \<open>auto simp: EnsureReplay_def with_core_def\<close>)
qed

lemma waker_replay_alone:
  assumes E: "EnsureReplay P cfg (st_core s) = (ok, d')"
  shows "\<exists>ld'. gets_to (waker_step P cfg outCap) 11 (Wk_Replay j) (s, ld)
    (if ok then have_replay cfg j d' else Awake (Finished ([], Failure))) (s\<lparr>st_core := d'\<rparr>, ld') \<and>
    (\<not> gReplayReady (st_core s) \<and> fst (settings_subsys_init P (env (st_core s))) = 0 \<longrightarrow>
       ld' = loaded_by P (env (st_core s)))"
proof (cases "gReplayReady (st_core s)")
  case True
  then have "gets_to (waker_step P cfg outCap) 11 (Wk_Replay j) (s, ld)
      (have_replay cfg j (st_core s)) (s, ld)"
    by (intro gets_toI [of _ 1]) simp_all
  then show ?thesis using E True by (auto simp: EnsureReplay_ready)
next
  case asleep: False
  let ?step = "waker_step P cfg outCap" and ?d = "st_core s"
  obtain err g e where I: "ReplayGuard_Init P (gReplay ?d) (env ?d) = (err, g, e)" by (metis prod_cases3)
  let ?s1 = "with_core (\<lambda>d. d\<lparr>gReplay := g, env := e\<rparr>) s"
  obtain ld' where i: "gets_to ?step 9 (Wk_Replay j) (s, ld)
      (if err = CHIP_NO_ERROR then Wk_Ready j else Awake (Finished ([], Failure))) (?s1, ld')"
    "fst (settings_subsys_init P (env ?d)) = 0 \<longrightarrow> ld' = loaded_by P (env ?d)"
    using waker_init_alone [OF asleep I] by blast
  show ?thesis
  proof (cases "err = CHIP_NO_ERROR")
    case True
    then have ok: "ok" using E asleep I by (auto simp: EnsureReplay_def Let_def split: if_splits prod.splits)
    have "gets_to ?step (9 + 2) (Wk_Replay j) (s, ld) (have_replay cfg j d') (s\<lparr>st_core := d'\<rparr>, ld')"
      by (rule gets_to_trans [OF _ waker_ready_alone [OF E asleep]]) (use i I True in simp_all)
    with ok i(2) show ?thesis by auto
  next
    case err: False
    then have "\<not> ok \<and> s\<lparr>st_core := d'\<rparr> = ?s1"
      using E asleep I by (auto simp: EnsureReplay_def with_core_def)
    with gets_to_mono [where j = 11, OF i(1)] i(2) err show ?thesis by auto
  qed
qed

lemma identity_request_chunk:
  "3 \<le> length inp \<Longrightarrow> EnsureBundle P d = (ok, d') \<Longrightarrow>
   identity_request P inp outCap d = (if ok then identity_chunk inp outCap d' else ([], Failure), d')"
  by (auto simp: identity_request_def identity_chunk_def Let_def)

text \<open>From the entry to \<open>EnsureBundle\<close>, and past it.\<close>

lemma waker_refused:
  "inp = [] \<or> inp ! 0 \<noteq> kTypeEcho \<Longrightarrow> errand_of cfg inp = Inl reply \<Longrightarrow>
   gets_to (waker_step P cfg outCap) 17 (Wk_Entry inp) (s, ld) (Awake (Finished reply)) (s, ld)"
  by (rule gets_toI [of _ 1]) auto

lemma waker_no_bundle:
  assumes "inp = [] \<or> inp ! 0 \<noteq> kTypeEcho" "errand_of cfg inp = Inr er"
    and "EnsureBundle P (st_core s) = (False, d1)"
  shows "gets_to (waker_step P cfg outCap) 17 (Wk_Entry inp) (s, ld)
    (Awake (Finished ([], Failure))) (s\<lparr>st_core := d1\<rparr>, ld)"
proof -
  have "gets_to (waker_step P cfg outCap) 6 (Wk_Entry inp) (s, ld)
      (Awake (Finished ([], Failure))) (s\<lparr>st_core := d1\<rparr>, ld)"
    using waker_bundle_alone [OF assms(3)] assms(1,2)
    by (intro wk_step [where j = 5 and ?a1.0 = "Wk_Bundle er" and ?s1.0 = "(s, ld)", simplified]) auto
  then show ?thesis by (rule gets_to_mono) simp
qed

lemma waker_bundled:
  assumes "inp = [] \<or> inp ! 0 \<noteq> kTypeEcho" "errand_of cfg inp = Inr er"
    and "EnsureBundle P (st_core s) = (True, d1)"
    and "gets_to (waker_step P cfg outCap) 11 (have_bundle er) (s\<lparr>st_core := d1\<rparr>, ld) a (s1, ld')"
  shows "gets_to (waker_step P cfg outCap) 17 (Wk_Entry inp) (s, ld) a (s1, ld')"
proof -
  have "gets_to (waker_step P cfg outCap) (5 + 11) (Wk_Bundle er) (s, ld) a (s1, ld')"
    by (rule gets_to_trans [OF _ assms(4)])
      (use waker_bundle_alone [OF assms(3), where er = er] in simp)
  with assms(1,2) show ?thesis
    by (intro wk_step [where j = 16 and ?a1.0 = "Wk_Bundle er" and ?s1.0 = "(s, ld)", simplified]) auto
qed

text \<open>The arms.\<close>

lemma identity_waker_alone:
  assumes arm: "inp \<noteq> []" "inp ! 0 = kTypeIdentityRequest" "CONFIG_TUNNEL_SECURITY cfg"
    and E: "carrier_step P cfg outCap (At_Entry inp) s = (a, s1)"
  shows "gets_to (waker_step P cfg outCap) 17 (Wk_Entry inp) (s, ld) (Awake a) (s1, ld)"
proof (cases "length inp < 3")
  case True
  then have "errand_of cfg inp = Inl ([], InvalidCommand)" "a = Finished ([], InvalidCommand)" "s1 = s"
    using arm E by (auto simp: errand_of_def type_defs Suc_le_eq identity_request_def)
  with arm show ?thesis by (simp add: waker_refused type_defs)
next
  case False
  obtain ok d1 where eb: "EnsureBundle P (st_core s) = (ok, d1)" by fastforce
  have er: "errand_of cfg inp = Inr (Identity_Errand inp)" "inp = [] \<or> inp ! 0 \<noteq> kTypeEcho"
    using arm False by (simp_all add: errand_of_def type_defs Suc_le_eq)
  have a: "a = Finished (if ok then identity_chunk inp outCap d1 else ([], Failure))"
    "s1 = s\<lparr>st_core := d1\<rparr>"
    using arm E identity_request_chunk [of inp, OF _ eb, of outCap] False
    by (auto simp: type_defs Suc_le_eq)
  show ?thesis
  proof (cases ok)
    case True
    with a eb show ?thesis
      by (intro waker_bundled [OF er(2,1), where ?d1.0 = d1] gets_toI [of _ 1])
        (simp_all add: have_bundle_def)
  qed (use a eb waker_no_bundle [OF er(2,1)] in simp)
qed

lemma signed_waker_alone:
  assumes arm: "inp \<noteq> []" "inp ! 0 = kTypeSignedRequest" "CONFIG_TUNNEL_SECURITY cfg"
    and E: "carrier_step P cfg outCap (At_Entry inp) s = (a, s1)"
  shows "\<exists>ld'. gets_to (waker_step P cfg outCap) 17 (Wk_Entry inp) (s, ld) (Awake a) (s1, ld')"
proof (cases "signed_parse inp")
  case None
  then have "errand_of cfg inp = Inl ([], InvalidCommand)" "a = Finished ([], InvalidCommand)" "s1 = s"
    using arm E entry_signed [OF arm] by (auto simp: errand_of_def type_defs Suc_le_eq signed_entry_def)
  with arm show ?thesis by (intro exI [of _ ld]) (simp add: waker_refused type_defs)
next
  case (Some x)
  let ?step = "waker_step P cfg outCap"
  obtain c n m where x: "x = (c, n, m)" by (metis prod_cases3)
  obtain ok d1 where eb: "EnsureBundle P (st_core s) = (ok, d1)" by fastforce
  have E': "signed_entry P cfg inp s = (a, s1)" using E entry_signed [OF arm] by metis
  have er: "errand_of cfg inp = Inr (Signed_Errand (inp, c, n, m))" "inp = [] \<or> inp ! 0 \<noteq> kTypeEcho"
    using arm Some x by (simp_all add: errand_of_def type_defs Suc_le_eq)
  show ?thesis
  proof (cases ok)
    case True
    obtain ok2 d2 where rp: "EnsureReplay P cfg d1 = (ok2, d2)" by fastforce
    obtain ld' where "gets_to ?step 11 (Wk_Replay (inp, c, n, m)) (s\<lparr>st_core := d1\<rparr>, ld)
        (if ok2 then have_replay cfg (inp, c, n, m) d2 else Awake (Finished ([], Failure)))
        (s\<lparr>st_core := d2\<rparr>, ld')"
      using waker_replay_alone [of P cfg "s\<lparr>st_core := d1\<rparr>" ok2 d2 outCap "(inp, c, n, m)" ld] rp by auto
    moreover have "(if ok2 then have_replay cfg (inp, c, n, m) d2 else Awake (Finished ([], Failure))) = Awake a"
      "s\<lparr>st_core := d2\<rparr> = s1"
      using E' Some x eb rp True by (auto simp: signed_entry_def have_replay_def Let_def split: if_splits)
    ultimately show ?thesis
      using True eb by (intro exI [of _ ld'] waker_bundled [OF er(2,1), where ?d1.0 = d1])
        (simp_all add: have_bundle_def)
  next
    case False
    then have "a = Finished ([], Failure)" "s1 = s\<lparr>st_core := d1\<rparr>"
      using E' Some x eb by (auto simp: signed_entry_def)
    with waker_no_bundle [OF er(2,1), of P s d1] False eb show ?thesis by (intro exI [of _ ld]) simp
  qed
qed

lemma register_waker_alone:
  assumes arm: "inp \<noteq> []" "inp ! 0 = kTypeRegisterClientKey" "CONFIG_TUNNEL_SECURITY cfg"
      "CONFIG_TUNNEL_CLIENT_AUTH cfg"
    and E: "carrier_step P cfg outCap (At_Entry inp) s = (a, s1)"
  shows "gets_to (waker_step P cfg outCap) 17 (Wk_Entry inp) (s, ld) (Awake a) (s1, ld)"
proof -
  let ?n = "read_u16 (inp ! 1) (inp ! 2)"
  have E': "register_entry P inp s = (a, s1)" using E entry_register [OF arm] by metis
  have ne: "inp = [] \<or> inp ! 0 \<noteq> kTypeEcho" using arm by (simp add: type_defs)
  obtain ok d1 where eb: "EnsureBundle P (st_core s) = (ok, d1)" by fastforce
  show ?thesis
  proof (cases "length inp < 3 \<or> length inp < 3 + ?n")
    case True
    then have "errand_of cfg inp = Inl ([], InvalidCommand)" "a = Finished ([], InvalidCommand)" "s1 = s"
      using arm E' by (auto simp: errand_of_def type_defs Suc_le_eq register_entry_def Let_def
          simp del: One_nat_def split: if_splits)
    with ne show ?thesis by (simp add: waker_refused)
  next
    case False
    have er: "errand_of cfg inp = Inr (Register_Errand (take ?n (drop 3 inp)))"
      using arm False by (simp add: errand_of_def type_defs Suc_le_eq Let_def del: One_nat_def)
    have a: "a = (if ok then At_Check (take ?n (drop 3 inp)) else Finished ([], Failure))"
      "s1 = s\<lparr>st_core := d1\<rparr>"
      using E' False eb by (auto simp: register_entry_def Let_def simp del: One_nat_def split: if_splits)
    show ?thesis
    proof (cases ok)
      case True
      with a eb show ?thesis
        by (intro waker_bundled [OF ne er, where ?d1.0 = d1]) (simp_all add: have_bundle_def gets_to_refl)
    qed (use a eb waker_no_bundle [OF ne er] in simp)
  qed
qed

text \<open>So the entry step of \<open>Two_Carriers\<close> is what a carrier does that wakes the device alone.\<close>

lemma waker_entry_alone:
  assumes E: "carrier_step P cfg outCap (At_Entry inp) s = (a, s1)"
  shows "\<exists>ld'. gets_to (waker_step P cfg outCap) 17 (Wk_Entry inp) (s, ld) (Awake a) (s1, ld')"
proof -
  consider (echo) "inp \<noteq> []" "inp ! 0 = kTypeEcho"
    | (identity) "inp \<noteq> []" "inp ! 0 = kTypeIdentityRequest" "CONFIG_TUNNEL_SECURITY cfg"
    | (signed) "inp \<noteq> []" "inp ! 0 = kTypeSignedRequest" "CONFIG_TUNNEL_SECURITY cfg"
    | (register) "inp \<noteq> []" "inp ! 0 = kTypeRegisterClientKey" "CONFIG_TUNNEL_SECURITY cfg"
        "CONFIG_TUNNEL_CLIENT_AUTH cfg"
    | (other) "inp = [] \<or> inp ! 0 \<noteq> kTypeEcho" "errand_of cfg inp = Inl ([], InvalidCommand)"
        "a = Finished ([], InvalidCommand)" "s1 = s"
    using E by (fastforce simp: errand_of_def Suc_le_eq split: if_splits)
  then show ?thesis
  proof cases
    case echo
    then show ?thesis using E by (intro exI [of _ ld] gets_toI [of _ 1]) (auto simp: Suc_le_eq)
  next
    case other
    then show ?thesis using waker_refused by fast
  qed (use identity_waker_alone [OF _ _ _ E] signed_waker_alone [OF _ _ _ E]
      register_waker_alone [OF _ _ _ _ E] in blast)+
qed

section \<open>A whole request\<close>

lemma waker_goes_on:
  "alone (carrier_step P cfg outCap) k a s = (a', s') \<Longrightarrow>
   gets_to (waker_step P cfg outCap) k (Awake a) (s, ld) (Awake a') (s', ld)"
proof (induction k arbitrary: a s)
  case (Suc k)
  obtain a1 s1 where st: "carrier_step P cfg outCap a s = (a1, s1)" by fastforce
  with Suc show ?case by (intro wk_step [where j = k and ?a1.0 = "Awake a1" and ?s1.0 = "(s1, ld)"]) simp_all
qed (simp add: gets_to_refl)

lemma finished_stays:
  "gets_to (waker_step P cfg outCap) k a x (Awake (Finished r)) x' \<Longrightarrow>
   alone (waker_step P cfg outCap) k a x = (Awake (Finished r), x')"
  by (erule gets_to_stays) auto

text \<open>Once past the initialisers, nine steps at most.\<close>

lemma awake_finishes:
  assumes E: "carrier_step P cfg outCap (At_Entry inp) s = (a, s1)"
    and R: "ProcessRequest P cfg inp outCap (st_core s) = (reply, d')" and wf: "statics_wf s"
  shows "\<exists>s'. gets_to (waker_step P cfg outCap) 9 (Awake a) (s1, ld) (Awake (Finished reply)) (s', ld) \<and>
    st_core s' = d' \<and> statics_wf s'"
proof -
  obtain s' where "carrier_alone P cfg outCap 10 (At_Entry inp) s = (Finished reply, s')"
    and s': "st_core s' = d'" "statics_wf s'"
    by (rule carrier_alone_ProcessRequest [OF R wf])
  moreover have "(10 :: nat) = Suc 9" by simp
  ultimately have "carrier_alone P cfg outCap (Suc 9) (At_Entry inp) s = (Finished reply, s')" by metis
  then have "alone (carrier_step P cfg outCap) 9 a s1 = (Finished reply, s')"
    unfolding alone.simps(2) [where k = 9] E by simp
  from waker_goes_on [OF this] s' show ?thesis by blast
qed

lemma waker_alone_ProcessRequest:
  assumes R: "ProcessRequest P cfg inp outCap (st_core s) = (reply, d')" and wf: "statics_wf s"
  shows "\<exists>s' ld'. alone (waker_step P cfg outCap) 26 (Wk_Entry inp) (s, ld) =
      (Awake (Finished reply), s', ld') \<and> st_core s' = d' \<and> statics_wf s'"
proof -
  obtain a s1 where E: "carrier_step P cfg outCap (At_Entry inp) s = (a, s1)" by fastforce
  obtain ld' where 1: "gets_to (waker_step P cfg outCap) 17 (Wk_Entry inp) (s, ld) (Awake a) (s1, ld')"
    using waker_entry_alone [OF E] by blast
  obtain s' where 2: "gets_to (waker_step P cfg outCap) 9 (Awake a) (s1, ld') (Awake (Finished reply)) (s', ld')"
    and s': "st_core s' = d'" "statics_wf s'"
    using awake_finishes [OF E R wf] by blast
  from gets_to_trans [OF 1 2]
  have "gets_to (waker_step P cfg outCap) 26 (Wk_Entry inp) (s, ld) (Awake (Finished reply)) (s', ld')" by simp
  from finished_stays [OF this] s' show ?thesis by auto
qed

lemma two_wakers_in_turn:
  assumes 1: "ProcessRequest P cfg inp1 outCap (st_core s) = (reply1, d1)"
    and 2: "ProcessRequest P cfg inp2 outCap d1 = (reply2, d2)" and wf: "statics_wf s"
  shows "\<exists>s' ld'. interleave (waker_step P cfg outCap) (replicate 26 True @ replicate 26 False)
      (Wk_Entry inp1, Wk_Entry inp2, s, ld) =
        (Awake (Finished reply1), Awake (Finished reply2), s', ld') \<and> st_core s' = d2"
proof -
  obtain s1 ld1 where a: "alone (waker_step P cfg outCap) 26 (Wk_Entry inp1) (s, ld) =
      (Awake (Finished reply1), s1, ld1)" "st_core s1 = d1" "statics_wf s1"
    using waker_alone_ProcessRequest [OF 1 wf] by blast
  have R2: "ProcessRequest P cfg inp2 outCap (st_core s1) = (reply2, d2)" using 2 a(2) by simp
  obtain s' ld' where b: "alone (waker_step P cfg outCap) 26 (Wk_Entry inp2) (s1, ld1) =
      (Awake (Finished reply2), s', ld')" "st_core s' = d2"
    using waker_alone_ProcessRequest [OF R2 a(3)] by blast
  show ?thesis
    using b(2) by (simp add: interleave_append interleave_first [OF a(1)] interleave_second [OF b(1)])
qed

section \<open>Overtaken while waking\<close>

text \<open>
  A carrier that stands between loading the ceiling and assigning it while the other serves
  a request: when it goes on, the guard is as after loading, whatever has been accepted since.
\<close>

definition wakeup_schedule :: "bool list" where
  "wakeup_schedule = replicate 7 False @ replicate 22 True @ replicate 13 False"

lemma signed_errand:
  "inp \<noteq> [] \<Longrightarrow> inp ! 0 = kTypeSignedRequest \<Longrightarrow> CONFIG_TUNNEL_SECURITY cfg \<Longrightarrow>
   signed_parse inp = Some (c, n, m) \<Longrightarrow>
   waker_step P cfg outCap (Wk_Entry inp) (s, ld) = (Wk_Bundle (Signed_Errand (inp, c, n, m)), s, ld)"
  by (simp add: errand_of_def type_defs Suc_le_eq)

lemma loading_waker:
  assumes inp: "inp \<noteq> []" "inp ! 0 = kTypeSignedRequest" "signed_parse inp = Some (c, n, m)"
    and cfg: "CONFIG_TUNNEL_SECURITY cfg"
    and d: "gBundleLen (st_core s) \<noteq> 0" "\<not> gReplayReady (st_core s)"
    and init: "settings_subsys_init P (env (st_core s)) = (0, e1)"
    and load: "settings_load_subtree_direct P ceiling_key e1 = (calls, rc, e2)"
  shows "\<exists>ld'. alone (waker_step P cfg outCap) 7 (Wk_Entry inp) (s, ld) = (Wk_Ceiling (inp, c, n, m),
    with_core (\<lambda>d. d\<lparr>gReplay := (gReplay d)\<lparr>mPersistent := True\<rparr>, env := e2\<rparr>) s, ld')"
  using d init load
  by (simp add: numeral_eq_Suc signed_errand [OF inp(1,2) cfg inp(3)] have_bundle_def with_guard_def
      with_core_def del: waker_step.simps(1))

text \<open>Where the entry leads in a running device.\<close>

lemma entry_running:
  assumes inp: "inp \<noteq> []" "inp ! 0 = kTypeSignedRequest" "signed_parse inp = Some (c, n, m)"
    and cfg: "CONFIG_TUNNEL_SECURITY cfg"
    and d: "gBundleLen (st_core s) \<noteq> 0" "gReplayReady (st_core s)"
  obtains a where "carrier_step P cfg outCap (At_Entry inp) s = (a, s)"
    "have_replay cfg (inp, c, n, m) (st_core s) = Awake a"
proof -
  have "signed_entry P cfg inp s = (if \<not> CONFIG_TUNNEL_CLIENT_AUTH cfg then (At_Fresh inp c n, s)
      else if \<not> HasKey (gStore (st_core s)) then (Finished ([kTypeAuthReject], Reject_None), s)
      else (At_BuildRequest inp c n m, s))"
    using inp(3) EnsureBundle_done [OF d(1), of P] EnsureReplay_ready [OF d(2), of P cfg]
    by (simp add: signed_entry_def)
  then show thesis
    using that entry_signed [OF inp(1,2) cfg, of P outCap s]
    by (auto simp: have_replay_def split: if_splits)
qed

lemma overtaking_waker:
  assumes inp: "inp \<noteq> []" "inp ! 0 = kTypeSignedRequest" "signed_parse inp = Some (c, n, m)"
    and cfg: "CONFIG_TUNNEL_SECURITY cfg"
    and d: "gBundleLen (st_core s) \<noteq> 0" "\<not> gReplayReady (st_core s)"
    and init: "fst (settings_subsys_init P (env (st_core s))) = 0"
    and wake: "EnsureReplay P cfg (st_core s) = (True, d1)"
    and R: "ProcessRequest P cfg inp outCap d1 = (reply, d')" and wf: "statics_wf s"
  shows "\<exists>s'. alone (waker_step P cfg outCap) 22 (Wk_Entry inp) (s, ld) =
      (Awake (Finished reply), s', loaded_by P (env (st_core s))) \<and> st_core s' = d' \<and> statics_wf s'"
proof -
  let ?step = "waker_step P cfg outCap" and ?s1 = "s\<lparr>st_core := d1\<rparr>"
    and ?ld = "loaded_by P (env (st_core s))" and ?j = "(inp, c, n, m)"
  have wf1: "statics_wf ?s1" using wf by (simp add: statics_wf_def)
  have d1: "gBundleLen (st_core ?s1) \<noteq> 0" "gReplayReady (st_core ?s1)"
    using EnsureReplay_frame [OF wake] EnsureReplay_ok_ready [OF wake] d(1) by simp_all
  obtain a where a: "carrier_step P cfg outCap (At_Entry inp) ?s1 = (a, ?s1)"
    "have_replay cfg ?j (st_core ?s1) = Awake a"
    by (rule entry_running [OF inp cfg d1])
  have 1: "?step (Wk_Entry inp) (s, ld) = (Wk_Bundle (Signed_Errand ?j), s, ld)"
    by (rule signed_errand [OF inp(1,2) cfg inp(3)])
  have 2: "?step (Wk_Bundle (Signed_Errand ?j)) (s, ld) = (Wk_Replay ?j, s, ld)"
    using d(1) by (simp add: have_bundle_def)
  have 3: "gets_to ?step 11 (Wk_Replay ?j) (s, ld) (Awake a) (?s1, ?ld)"
    using waker_replay_alone [OF wake, of outCap ?j ld] d(2) init a(2) by auto
  obtain s' where 4: "gets_to ?step 9 (Awake a) (?s1, ?ld) (Awake (Finished reply)) (s', ?ld)"
    and s': "st_core s' = d'" "statics_wf s'"
    using awake_finishes [OF a(1) _ wf1] R by fastforce
  have "gets_to ?step 20 (Wk_Replay ?j) (s, ld) (Awake (Finished reply)) (s', ?ld)"
    using gets_to_trans [OF 3 4] by simp
  from wk_step [where j = 21, simplified, OF 1 wk_step [where j = 20, simplified, OF 2 this]]
  show ?thesis using finished_stays s' by blast
qed

lemma late_waker:
  assumes inp: "inp \<noteq> []" "inp ! 0 = kTypeSignedRequest" "signed_parse inp = Some (c, n, m)"
    and cfg: "CONFIG_TUNNEL_SECURITY cfg" "CONFIG_TUNNEL_CLIENT_AUTH cfg"
    and d: "gBundleLen (st_core s) \<noteq> 0" and v: "v \<noteq> 0"
    and store: "ClientKeyStore_Init P (gStore (st_core s)) (env (st_core s)) = (err, ks, e)"
    and R: "ProcessRequest P cfg inp outCap ((st_core s)\<lparr>gReplay := (gReplay (st_core s))
      \<lparr>mCeiling := v, mFloor := v\<rparr>, gReplayReady := True, gStore := ks, env := e\<rparr>) = (reply, d')"
    and wf: "statics_wf s"
  shows "\<exists>s'. alone (waker_step P cfg outCap) 13 (Wk_Ceiling (inp, c, n, m))
      (s, \<lparr>gLoaded = v, gLoadedValid = True\<rparr>) =
        (Awake (Finished reply), s', \<lparr>gLoaded = v, gLoadedValid = True\<rparr>) \<and> st_core s' = d'"
proof -
  let ?step = "waker_step P cfg outCap" and ?ld = "\<lparr>gLoaded = v, gLoadedValid = True\<rparr>"
    and ?j = "(inp, c, n, m)"
  let ?s1 = "with_guard (\<lambda>g. g\<lparr>mCeiling := v\<rparr>) s"
  let ?s2 = "with_guard (\<lambda>g. g\<lparr>mFloor := mCeiling g\<rparr>) ?s1"
  let ?s3 = "with_core (\<lambda>d. d\<lparr>gReplayReady := True\<rparr>) ?s2"
  let ?s4 = "with_core (\<lambda>d. d\<lparr>gStore := ks, env := e\<rparr>) ?s3"
  have 1: "?step (Wk_Ceiling ?j) (s, ?ld) = (Wk_Floor ?j, ?s1, ?ld)" by simp
  have 2: "?step (Wk_Floor ?j) (?s1, ?ld) = (Wk_Ready ?j, ?s2, ?ld)"
    using v by (simp add: with_guard_def with_core_def)
  have 3: "?step (Wk_Ready ?j) (?s2, ?ld) = (Wk_Store ?j, ?s3, ?ld)" using cfg(2) by simp
  have 4: "?step (Wk_Store ?j) (?s3, ?ld) = (have_replay cfg ?j (st_core ?s4), ?s4, ?ld)"
    using store by (simp add: with_guard_def with_core_def)
  have wf4: "statics_wf ?s4" using wf by (simp add: statics_wf_def with_guard_def with_core_def)
  have c4: "gBundleLen (st_core ?s4) \<noteq> 0" "gReplayReady (st_core ?s4)"
    using d by (simp_all add: with_guard_def with_core_def)
  obtain a where a: "carrier_step P cfg outCap (At_Entry inp) ?s4 = (a, ?s4)"
    "have_replay cfg ?j (st_core ?s4) = Awake a"
    by (rule entry_running [OF inp cfg(1) c4])
  have "ProcessRequest P cfg inp outCap (st_core ?s4) = (reply, d')"
    using R by (simp add: with_guard_def with_core_def)
  then obtain s' where 5: "gets_to ?step 9 (Awake a) (?s4, ?ld) (Awake (Finished reply)) (s', ?ld)"
    and s': "st_core s' = d'"
    using awake_finishes [OF a(1) _ wf4] by blast
  have "gets_to ?step 13 (Wk_Ceiling ?j) (s, ?ld) (Awake (Finished reply)) (s', ?ld)"
    by (rule wk_step [where j = 12, simplified, OF 1 wk_step [where j = 11, simplified, OF 2
          wk_step [where j = 10, simplified, OF 3 wk_step [where j = 9, simplified,
            OF 4 [unfolded a(2)] 5]]]])
  from finished_stays [OF this] s' show ?thesis by blast
qed

lemma loaded_by_stored:
  assumes F: "flash_reliable P stored" and v: "stored e ceiling_key = Some (u32_mem v)"
  shows "loaded_by P e = \<lparr>gLoaded = v, gLoadedValid = True\<rparr>"
proof -
  obtain rc e1 where init: "settings_subsys_init P e = (rc, e1)" by fastforce
  obtain calls rc' e2 where load: "settings_load_subtree_direct P ceiling_key e1 = (calls, rc', e2)"
    by (metis prod_cases3)
  have "stored e1 ceiling_key = Some (u32_mem v)"
    using steps_byD(1) [OF flash_okD(1) [OF flash_reliableD(1) [OF F]] init] v by simp
  then have "calls = [\<lparr>lc_len = length (u32_mem v), lc_ret = int (length (u32_mem v)), lc_data = u32_mem v\<rparr>]"
    by (rule loads_faithfullyD(2) [OF flash_reliableD(4) [OF F] load])
  with load show ?thesis
    by (simp only: loaded_by_def Let_def init prod.case fold.simps ceiling_LoadCb_stored o_apply id_apply)
qed

lemma EnsureReplay_floor_stored:
  assumes F: "flash_reliable P stored" and v: "stored (env d) ceiling_key = Some (u32_mem v)" "v \<noteq> 0"
    and E: "EnsureReplay P cfg d = (True, d1)" "\<not> gReplayReady d"
  shows "mFloor (gReplay d1) = v"
proof -
  obtain g e where "ReplayGuard_Init P (gReplay d) (env d) = (CHIP_NO_ERROR, g, e)" "gReplay d1 = g"
    using E(1) by (cases rule: EnsureReplay_cases) (use E(2) in auto)
  moreover have "asleep_inv stored (env d)" using v by (auto simp: asleep_inv_def)
  ultimately show ?thesis using flash_floor_asleep [OF F] v(1) by (simp add: flash_floor_def)
qed

text \<open>The initialiser adds the button handler to the button library, nothing else does.\<close>

lemma EnsureReplay_adds_handler:
  assumes "EnsureReplay P cfg d = (True, d')" "\<not> gReplayReady d" "CONFIG_TUNNEL_CLIENT_AUTH cfg"
  shows "mHandlersAdded (gStore d') = mHandlersAdded (gStore d) + 1"
  using assms(1) by (cases rule: EnsureReplay_cases) (use assms(2,3) in \<open>auto dest: ClientKeyStore_Init_fields\<close>)

lemma running_keeps_handlers:
  assumes P: "ProcessRequest P cfg inp cap d = ((bs, r), d')" and ready: "gReplayReady d"
  shows "mHandlersAdded (gStore d') = mHandlersAdded (gStore d)"
proof -
  let ?Q = "\<lambda>x. gReplayReady x \<and> mHandlersAdded (gStore x) = mHandlersAdded (gStore d)"
  have "?Q d'"
  proof (rule ProcessRequest_view_preserves [where Q = ?Q, OF P [unfolded ProcessRequest_def]])
    show "?Q (y\<lparr>gStore := ks, env := e\<rparr>)"
      if "Register P k (gStore y) (env y) = (err, ks, e)" "?Q y" for k y err ks e
    proof (cases "err = CHIP_NO_ERROR")
      case True
      with that(1) have "Register P k (gStore y) (env y) = (CHIP_NO_ERROR, ks, e)" by simp
      then show ?thesis using that(2) by (cases rule: Register_ok_cases) simp
    qed (use that Register_refused [OF that(1)] in simp)
  qed (use ready in \<open>auto simp: auth_gate_def EnsureReplay_ready
      dest: EnsureBundle_frame consume_counter_frame authenticate_frame authenticate_store split: if_splits\<close>)
  then show ?thesis by simp
qed

text \<open>A late carrier is answered for any counter above the ceiling it has loaded.\<close>

lemma late_answer:
  assumes srv: "service_inv P cfg csign dev payload cap healthy (st_core s)" and wf: "statics_wf s"
    and again: "\<And>ks e err ks' e'. healthy ks e \<Longrightarrow> ClientKeyStore_Init P ks e = (err, ks', e') \<Longrightarrow> healthy ks' e'"
    and c: "v \<noteq> 0" "v < c" "unat c + 64 < 2 ^ 32"
    and inp: "inp = signed_for csign dev payload c" "inp \<noteq> []" "inp ! 0 = kTypeSignedRequest"
      "signed_parse inp = Some (c, n, m)"
  obtains bs s' where "alone (waker_step P cfg cap) 13 (Wk_Ceiling (inp, c, n, m))
      (s, \<lparr>gLoaded = v, gLoadedValid = True\<rparr>) =
      (Awake (Finished (bs, Reject_None)), s', \<lparr>gLoaded = v, gLoadedValid = True\<rparr>)"
    and "response_counter bs = Some c"
    and "mHandlersAdded (gStore (st_core s')) = mHandlersAdded (gStore (st_core s)) + 1"
proof -
  let ?d = "st_core s"
  have cfg: "CONFIG_TUNNEL_SECURITY cfg" "CONFIG_TUNNEL_CLIENT_AUTH cfg" and b: "gBundleLen ?d \<noteq> 0"
    using srv by (simp_all add: service_inv_def)
  obtain err ks e where store: "ClientKeyStore_Init P (gStore ?d) (env ?d) = (err, ks, e)"
    by (metis prod_cases3)
  let ?d2 = "?d\<lparr>gReplay := (gReplay ?d)\<lparr>mCeiling := v, mFloor := v\<rparr>, gReplayReady := True, gStore := ks, env := e\<rparr>"
  have "healthy ks e" using again [OF _ store] srv by (simp add: service_inv_def)
  then have "service_inv P cfg csign dev payload cap healthy ?d2" using srv by (simp add: service_inv_def)
  from service_fresh [OF this, of c] c obtain bs d3
    where B: "ProcessRequest P cfg inp cap ?d2 = ((bs, Reject_None), d3)" "response_counter bs = Some c"
    by (auto simp: inp(1))
  have "mHandlersAdded (gStore d3) = mHandlersAdded (gStore ?d) + 1"
    using running_keeps_handlers [OF B(1)] ClientKeyStore_Init_fields [OF store] by simp
  with late_waker [OF inp(2-4) cfg b c(1) store B(1) wf] that B(2) show thesis by blast
qed

text \<open>
  The same signed request over both carriers. The second carrier loads the ceiling; the first
  wakes the device, is answered and is done; the second goes on and is answered as well.
\<close>

lemma wakeup_adds_handler:
  assumes "EnsureReplay P cfg d = (True, d1)" "\<not> gReplayReady d" "CONFIG_TUNNEL_CLIENT_AUTH cfg"
    and "gReplayReady d1" "ProcessRequest P cfg inp cap d1 = ((bs, r), d2)"
  shows "mHandlersAdded (gStore d2) = mHandlersAdded (gStore d) + 1"
  using running_keeps_handlers [OF assms(5,4)] EnsureReplay_adds_handler [OF assms(1-3)] by simp

lemma overtaken_wakeup:
  assumes F: "flash_reliable P stored" and v: "stored (env (st_core s)) ceiling_key = Some (u32_mem v)" "v \<noteq> 0"
    and d: "gBundleLen (st_core s) \<noteq> 0" "\<not> gReplayReady (st_core s)" and wf: "statics_wf s"
    and init: "settings_subsys_init P (env (st_core s)) = (0, e1)"
    and load: "settings_load_subtree_direct P ceiling_key e1 = (calls, rc, e2)"
    and wake: "EnsureReplay P cfg ((st_core s)\<lparr>gReplay := (gReplay (st_core s))\<lparr>mPersistent := True\<rparr>, env := e2\<rparr>) = (True, d1)"
    and srv: "service_inv P cfg csign dev payload cap healthy d1"
    and again: "\<And>ks e err ks' e'. healthy ks e \<Longrightarrow> ClientKeyStore_Init P ks e = (err, ks', e') \<Longrightarrow> healthy ks' e'"
    and c: "v < c" "unat c + 64 < 2 ^ 32"
  shows "\<exists>bsA bsB s' ld'. interleave (waker_step P cfg cap) wakeup_schedule
      (Wk_Entry (signed_for csign dev payload c), Wk_Entry (signed_for csign dev payload c), s, ld) =
        (Awake (Finished (bsA, Reject_None)), Awake (Finished (bsB, Reject_None)), s', ld') \<and>
    response_counter bsA = Some c \<and> response_counter bsB = Some c \<and>
    mHandlersAdded (gStore (st_core s')) = mHandlersAdded (gStore (st_core s)) + 2"
proof -
  let ?req = "signed_for csign dev payload c" and ?step = "waker_step P cfg cap"
  define s1 where "s1 = with_core (\<lambda>d. d\<lparr>gReplay := (gReplay d)\<lparr>mPersistent := True\<rparr>, env := e2\<rparr>) s"
  define n where "n = length payload"
  define m where "m = length (csign (snd (BuildPreimage kDirRequest c dev payload 700)))"
  note st = flash_okD(1) [OF flash_reliableD(1) [OF F]]
  have inp: "?req \<noteq> []" "?req ! 0 = kTypeSignedRequest" "signed_parse ?req = Some (c, n, m)"
    using service_fields(1) [OF srv refl, of c] by (simp_all add: signed_for_def encode_signed_def n_def m_def)
  have cfg: "CONFIG_TUNNEL_SECURITY cfg" "CONFIG_TUNNEL_CLIENT_AUTH cfg" using srv by (simp_all add: service_inv_def)
  have s1: "gBundleLen (st_core s1) \<noteq> 0" "\<not> gReplayReady (st_core s1)" "statics_wf s1" "env (st_core s1) = e2"
    "EnsureReplay P cfg (st_core s1) = (True, d1)"
    using d wf wake by (simp_all add: s1_def with_core_def statics_wf_def)
  have e2: "stored e2 ceiling_key = Some (u32_mem v)"
    using v(1) steps_byD(1) [OF st init] steps_byD(2) [OF st load] by simp
  have ld: "loaded_by P (env (st_core s1)) = \<lparr>gLoaded = v, gLoadedValid = True\<rparr>"
    unfolding s1(4) by (rule loaded_by_stored [OF F e2])
  text \<open>The second carrier up to the loaded ceiling.\<close>
  obtain ld1 where B1: "alone ?step 7 (Wk_Entry ?req) (s, ld) = (Wk_Ceiling (?req, c, n, m), s1, ld1)"
    using loading_waker [OF inp cfg(1) d init load] unfolding s1_def by blast
  text \<open>The first one from its entry to its answer.\<close>
  have "mFloor (gReplay d1) = v"
    using EnsureReplay_floor_stored [OF F _ v(2) s1(5,2)] e2 s1(4) by simp
  then obtain bsA dA where A: "ProcessRequest P cfg ?req cap d1 = ((bsA, Reject_None), dA)"
    "response_counter bsA = Some c" "service_inv P cfg csign dev payload cap healthy dA"
    using service_fresh [OF srv, of c] c by blast
  have rc: "fst (settings_subsys_init P (env (st_core s1))) = 0"
    using flash_reliableD(2) [OF F] by (metis prod.collapse)
  obtain sA where A1: "alone ?step 22 (Wk_Entry ?req) (s1, ld1) =
      (Awake (Finished (bsA, Reject_None)), sA, \<lparr>gLoaded = v, gLoadedValid = True\<rparr>)"
    and sA: "st_core sA = dA" "statics_wf sA"
    using overtaking_waker [OF inp cfg(1) s1(1,2) rc s1(5) A(1) s1(3)] unfolding ld by blast
  text \<open>And the second one on the guard it puts back.\<close>
  have "service_inv P cfg csign dev payload cap healthy (st_core sA)" using A(3) sA(1) by simp
  then obtain bsB s' where B2: "alone ?step 13 (Wk_Ceiling (?req, c, n, m)) (sA, \<lparr>gLoaded = v, gLoadedValid = True\<rparr>) =
      (Awake (Finished (bsB, Reject_None)), s', \<lparr>gLoaded = v, gLoadedValid = True\<rparr>)"
    "response_counter bsB = Some c"
    "mHandlersAdded (gStore (st_core s')) = mHandlersAdded (gStore dA) + 1"
    unfolding sA(1) [symmetric] by (rule late_answer [OF _ sA(2) _ v(2) c refl inp]) (use again in blast)
  have "gReplayReady d1" using srv by (simp add: service_inv_def)
  from wakeup_adds_handler [OF s1(5,2) cfg(2) this A(1)] B2(3)
  have handlers: "mHandlersAdded (gStore (st_core s')) = mHandlersAdded (gStore (st_core s)) + 2"
    by (simp add: s1_def with_core_def)
  show ?thesis
    unfolding wakeup_schedule_def
    using A(2) B2(2) handlers
    by (simp only: interleave_append interleave_second [OF B1] interleave_first [OF A1] interleave_second [OF B2(1)]) blast
qed

text \<open>
  \<open>EnsureBundle\<close> sets its length before it exports the device's key. A carrier that asks in
  between finds the bundle ready and works with the key buffer as it was, after a reset with
  an empty key.
\<close>

lemma half_built_bundle:
  assumes er: "errand_of cfg inpA = Inr erA" "inpA \<noteq> [] \<and> inpA ! 0 \<noteq> kTypeEcho"
      "errand_of cfg inpB = Inr erB" "inpB \<noteq> [] \<and> inpB ! 0 \<noteq> kTypeEcho"
    and new: "gBundleLen (st_core s) = 0"
    and si: "Signer_Init P Ed25519 (gSigner (st_core s)) (env (st_core s)) = (0, sg, e1)"
    and bb: "BuildIdentityBundle P sg 1200 e1 = (CHIP_NO_ERROR, bdl, e2)"
  shows "\<exists>s'. interleave (waker_step P cfg outCap) (replicate 5 True @ replicate 2 False)
      (Wk_Entry inpA, Wk_Entry inpB, s, ld) = (Wk_Export erA, have_bundle erB, s', ld) \<and>
    gDevicePub (st_core s') = gDevicePub (st_core s) \<and> gBundleLen (st_core s') = length bdl"
proof -
  have ne: "bdl \<noteq> []" using bb by (rule BuildIdentityBundle_ok_cases) (auto simp: bundle_bytes_def)
  let ?s = "with_core (\<lambda>d. d\<lparr>gSigner := sg, gBundle := bdl, gBundleLen := length bdl, env := e2\<rparr>) s"
  have "alone (waker_step P cfg outCap) 5 (Wk_Entry inpA) (s, ld) = (Wk_Export erA, ?s, ld)"
    using er(1,2) new si bb by (simp add: numeral_eq_Suc with_core_def)
  note A = interleave_first [OF this]
  have "alone (waker_step P cfg outCap) 2 (Wk_Entry inpB) (?s, ld) = (have_bundle erB, ?s, ld)"
    using er(3,4) ne by (simp add: numeral_eq_Suc with_core_def)
  note B = interleave_second [OF this]
  show ?thesis by (simp only: interleave_append A B) (simp add: with_core_def)
qed

end
