(* ===== verification/Carrier_Properties.thy ===== *)
theory Carrier_Properties
  imports Demo_Platform Lazy_Carriers
begin

text \<open>
  Two carriers that enter the core at the same time, in a running device and in one that is
  woken by both: what they do in turn, what overlapping breaks, and what it cannot break.
\<close>

definition demo_statics :: "world statics" where
  "demo_statics = \<lparr>st_core = demo_4, reqPre = replicate 700 0, preimageBuf = replicate 700 0,
     regPre = replicate 256 0\<rparr>"

lemma demo_statics_simps [simp]: "st_core demo_statics = demo_4" "statics_wf demo_statics"
  by (simp_all add: demo_statics_def statics_wf_def)

lemma demo_4_ready:
  "gBundleLen demo_4 \<noteq> 0" "HasKey (gStore demo_4)" "gReplay demo_4 = demo_guard 2 64"
  "gDevicePub demo_4 = demo_device_key" "gStore demo_4 = demo_key_store 0x5402"
  "gSigner demo_4 = \<lparr>mKeyId = 0x5401, mAlg = Ed25519\<rparr>"
  "mFloor (gReplay demo_4) = 2" "mCeiling (gReplay demo_4) = 64"
  by (simp_all add: demo_4_def demo_guard_def)

lemma demo_4_verifies:
  "store_Verify (demo f) m (toy_sig client_key m) (gStore demo_4) (env demo_4) = (0, gStore demo_4, env demo_4)"
  by (simp add: demo_4_def demo_verify_imported w3_def)

lemma demo_4_signs:
  "Sign (demo f) (gSigner demo_4) m kSignatureLen (env demo_4) = (0, toy_sig demo_device_key m, env demo_4)"
  using demo_sign [of w3 f m] by (simp add: demo_4_def w3_def)

lemma demo_4_preimage:
  "length p \<le> 200 \<Longrightarrow> BuildPreimage dir c (gDevicePub demo_4) p 700 = (CHIP_NO_ERROR, demo_preimage dir c p)"
  using demo_preimage_BuildPreimage [of p 700] by (simp add: demo_4_ready)

lemma encode_signed_type: "encode_signed c p csig ! 0 = kTypeSignedRequest"
  by (simp add: encode_signed_def)

text \<open>
  C36. The steps are the code: two requests of any kind whose carriers do not overlap get the
  replies, and leave the state, of the core handling one after the other, whatever becomes of
  them on the way and whether or not the device has been woken before; the initialisers are
  taken in steps, too. A lock around the core would make every schedule like this one.
\<close>

theorem carriers_in_turn:
  assumes "ProcessRequest P cfg inp1 outCap (st_core s) = (reply1, d1)"
    and "ProcessRequest P cfg inp2 outCap d1 = (reply2, d2)" and "statics_wf s"
  shows "\<exists>s' ld'. interleave (waker_step P cfg outCap) (replicate 26 True @ replicate 26 False)
      (Wk_Entry inp1, Wk_Entry inp2, s, ld) =
        (Awake (Finished reply1), Awake (Finished reply2), s', ld') \<and> st_core s' = d2"
  by (rule two_wakers_in_turn [OF assms])

definition empty_load :: loaded_ceiling where
  "empty_load = \<lparr>gLoaded = 0, gLoadedValid = False\<rparr>"

theorem carriers_in_turn_witness:
  "\<exists>s' ld'. interleave (waker_step (demo False) full_config 512) (replicate 26 True @ replicate 26 False)
      (Wk_Entry (client_request 65 [7]), Wk_Entry (client_request 65 [7]),
       demo_statics\<lparr>st_core := boot w4\<rparr>, empty_load) =
    (Awake (Finished (device_response 65 [7], Reject_None)),
     Awake (Finished (kTypeReplayReject # PutU32 65, Reject_None)), s', ld') \<and> st_core s' = demo_5"
proof (rule carriers_in_turn)
  show "ProcessRequest (demo False) full_config (client_request 65 [7]) 512
      (st_core (demo_statics\<lparr>st_core := boot w4\<rparr>)) = ((device_response 65 [7], Reject_None), demo_5)"
    using demo_third [of False] by simp
  have ver: "store_Verify (demo False) m (toy_sig client_key m) (demo_key_store 0x5402) w5 =
      (0, demo_key_store 0x5402, w5)" for m
    by (rule demo_verify_imported) (simp_all add: w5_def)
  let ?sig = "toy_sig client_key (demo_preimage kDirRequest 65 [7])"
  have enc: "signed_parse (client_request 65 [7]) = Some (65, 1, length ?sig)"
    "payload_at (client_request 65 [7]) 1 = [7]" "sig_at (client_request 65 [7]) 1 (length ?sig) = ?sig"
    using signed_parse_encode [OF _ length_toy_sig_field, of "[7]" 65 client_key _ "[]"]
    by (simp_all add: client_request_def)
  have "authenticate (demo False) 65 [7] ?sig demo_5 = (None, demo_5)"
    using demo_preimage_BuildPreimage [of "[7]" 700] ver by (simp add: authenticate_def demo_5_def)
  then show "ProcessRequest (demo False) full_config (client_request 65 [7]) 512 demo_5 =
      ((kTypeReplayReject # PutU32 65, Reject_None), demo_5)"
    unfolding demo_signed_dispatch
    by (simp add: signed_request_def enc EnsureBundle_done EnsureReplay_ready demo_5_def full_config_def
        consume_counter_def IsFresh_def demo_guard_def del: One_nat_def)
  show "statics_wf (demo_statics\<lparr>st_core := boot w4\<rparr>)"
    by (simp add: demo_statics_def statics_wf_def)
qed

text \<open>
  C17. Waking up on both carriers at once reopens replay. A carrier that has loaded the
  ceiling is overtaken: over the other one the first signed request of the boot wakes the
  device, is answered, and is done. When the carrier goes on it puts floor and ceiling back
  to what it loaded, and answers the same bytes, the same counter, a second time. The button
  handler, one list node, has then been added to the button library twice. This holds
  for every counter above the loaded ceiling, as long as flash and crypto calls succeed and
  loading the client key again does them no harm.
\<close>

theorem overlapping_wakeups_replay:
  assumes "flash_reliable P stored" "stored (env (st_core s)) ceiling_key = Some (u32_mem v)" "v \<noteq> 0"
    and "gBundleLen (st_core s) \<noteq> 0" "\<not> gReplayReady (st_core s)" "statics_wf s"
    and "settings_subsys_init P (env (st_core s)) = (0, e1)"
    and "settings_load_subtree_direct P ceiling_key e1 = (calls, rc, e2)"
    and "EnsureReplay P cfg ((st_core s)\<lparr>gReplay := (gReplay (st_core s))\<lparr>mPersistent := True\<rparr>,
      env := e2\<rparr>) = (True, d1)"
    and "service_inv P cfg csign dev payload cap healthy d1"
    and "\<And>ks e err ks' e'. healthy ks e \<Longrightarrow> ClientKeyStore_Init P ks e = (err, ks', e') \<Longrightarrow> healthy ks' e'"
    and "v < c" "unat c + 64 < 2 ^ 32"
  shows "\<exists>bsA bsB s' ld'. interleave (waker_step P cfg cap)
      (replicate 7 False @ replicate 22 True @ replicate 13 False)
      (Wk_Entry (signed_for csign dev payload c), Wk_Entry (signed_for csign dev payload c), s, ld) =
        (Awake (Finished (bsA, Reject_None)), Awake (Finished (bsB, Reject_None)), s', ld') \<and>
    response_counter bsA = Some c \<and> response_counter bsB = Some c \<and>
    mHandlersAdded (gStore (st_core s')) = mHandlersAdded (gStore (st_core s)) + 2"
  unfolding wakeup_schedule_def [symmetric] by (rule overtaken_wakeup [OF assms])

definition demo_asleep :: "world core" where
  "demo_asleep = (boot w4)\<lparr>gSigner := \<lparr>mKeyId = 0x5401, mAlg = Ed25519\<rparr>, gBundle := demo_bundle,
     gBundleLen := 21, gDevicePub := demo_device_key\<rparr>"

lemma demo_asleep_wakes:
  "EnsureReplay (demo False) full_config (demo_asleep\<lparr>gReplay := (gReplay demo_asleep)\<lparr>mPersistent := True\<rparr>,
      env := w4\<rparr>) = (True, demo_core (demo_guard 64 64) (demo_key_store 0) w4)"
proof -
  have "ReplayGuard_Init (demo False) (new_guard\<lparr>mPersistent := True\<rparr>) w4 = (CHIP_NO_ERROR, demo_guard 64 64, w4)"
    by (simp add: ReplayGuard_Init_def demo_def ceiling_LoadCb_def demo_guard_def new_guard_def)
  moreover have "ClientKeyStore_Init (demo False) new_store w4 = (CHIP_NO_ERROR, demo_key_store 0, w4)"
    by (simp add: ClientKeyStore_Init_def demo_def clientkey_LoadCb_def kKeySize_def new_store_def
        demo_key_store_def)
  ultimately show ?thesis
    by (simp add: EnsureReplay_def full_config_def demo_asleep_def boot_def demo_core_def)
qed

theorem overlapping_wakeups_replay_witness:
  "let req = signed_for (toy_sig client_key) demo_device_key [7] 70 in
   \<exists>bsA bsB s' ld'. interleave (waker_step (demo False) full_config 512)
      (replicate 7 False @ replicate 22 True @ replicate 13 False)
      (Wk_Entry req, Wk_Entry req, demo_statics\<lparr>st_core := demo_asleep\<rparr>, empty_load) =
        (Awake (Finished (bsA, Reject_None)), Awake (Finished (bsB, Reject_None)), s', ld') \<and>
    response_counter bsA = Some 70 \<and> response_counter bsB = Some 70 \<and>
    mHandlersAdded (gStore (st_core s')) =
      mHandlersAdded (gStore (st_core (demo_statics\<lparr>st_core := demo_asleep\<rparr>))) + 2"
  unfolding Let_def
proof (rule overlapping_wakeups_replay [where v = 64, OF demo_flash_reliable])
  show "EnsureReplay (demo False) full_config
      ((st_core (demo_statics\<lparr>st_core := demo_asleep\<rparr>))\<lparr>gReplay :=
        (gReplay (st_core (demo_statics\<lparr>st_core := demo_asleep\<rparr>)))\<lparr>mPersistent := True\<rparr>, env := w4\<rparr>) =
      (True, demo_core (demo_guard 64 64) (demo_key_store 0) w4)"
    using demo_asleep_wakes by simp
  show "service_inv (demo False) full_config (toy_sig client_key) demo_device_key [7] 512 demo_healthy
      (demo_core (demo_guard 64 64) (demo_key_store 0) w4)"
    using demo_crypto_serves
    by (simp add: service_inv_def full_config_def demo_healthy_def kPublicKeyLenMax_def
        demo_device_key_def length_toy_sig_field)
  show "settings_subsys_init (demo False) (env (st_core (demo_statics\<lparr>st_core := demo_asleep\<rparr>))) = (0, w4)"
    by (simp add: demo_def demo_asleep_def boot_def)
  show "settings_load_subtree_direct (demo False) ceiling_key w4 =
      ([\<lparr>lc_len = 4, lc_ret = 4, lc_data = u32_mem 64\<rparr>], 0, w4)"
    by (simp add: demo_def)
qed (simp_all add: demo_asleep_def boot_def statics_wf_def demo_statics_def demo_healthy_Init)

text \<open>
  C39. Overlapping requests break authenticity. While one carrier handles a request that the
  client did sign, a request over the other carrier with another payload of the same length,
  an unused counter of the attacker's choice and that same signature is accepted: the device
  verifies the client's preimage, which has replaced the attacker's in the shared buffer, and
  then certifies the attacker's payload.
\<close>

theorem overlap_forges_request:
  assumes wf: "statics_wf s" and cfg: "CONFIG_TUNNEL_SECURITY cfg" "CONFIG_TUNNEL_CLIENT_AUTH cfg"
    and ready: "gBundleLen (st_core s) \<noteq> 0" "gReplayReady (st_core s)" "HasKey (gStore (st_core s))"
    and len: "length p1 = length p2" "length p2 \<le> 256" "length csig < 65536"
    and b: "BuildPreimage kDirRequest c2 (gDevicePub (st_core s)) p2 700 = (CHIP_NO_ERROR, pre2)"
    and ver: "store_Verify P pre2 csig (gStore (st_core s)) (env (st_core s)) = (0, ks, e1)"
    and fresh: "mFloor (gReplay (st_core s)) < c1" "c1 < mCeiling (gReplay (st_core s))"
    and sg: "\<And>pre. BuildPreimage kDirResponse c1 (gDevicePub (st_core s)) p1 700 = (CHIP_NO_ERROR, pre) \<Longrightarrow>
      Sign P (gSigner (st_core s)) pre kSignatureLen e1 = (0, sig, e2)"
  shows "\<exists>b s'. two_carriers P cfg 512 overwrite_schedule
      (At_Entry (encode_signed c1 p1 csig), At_Entry (encode_signed c2 p2 csig), s) =
      (Finished ([kTypeSignedResponse] @ PutU32 c1 @ put_field p1 @ put_field sig, Reject_None), b, s') \<and>
    mFloor (gReplay (st_core s')) = c1"
proof -
  let ?k = "gDevicePub (st_core s)"
  have "\<exists>pre. BuildPreimage dir c1 ?k p1 700 = (CHIP_NO_ERROR, pre)" for dir
    using b len(1) BuildPreimage_success_iff by (metis fst_conv prod.collapse)
  then obtain pre1 pre3 where b': "BuildPreimage kDirRequest c1 ?k p1 700 = (CHIP_NO_ERROR, pre1)"
    "BuildPreimage kDirResponse c1 ?k p1 700 = (CHIP_NO_ERROR, pre3)" by blast
  have "length pre1 = length pre2"
    using BuildPreimage_okD(2) [OF b'(1)] BuildPreimage_okD(2) [OF b] len(1) by simp
  moreover have p: "length p1 < 65536" "length p2 < 65536" using len by simp_all
  note enc1 = signed_parse_encode [OF p(1) len(3), of c1 "[]", simplified]
  note enc2 = signed_parse_encode [OF p(2) len(3), of c2 "[]", simplified]
  ultimately show ?thesis
    using overwritten_preimage [OF wf cfg encode_signed_type encode_signed_type ready enc1(1) enc2(1), of pre1 pre2 P ks e1 pre3 sig e2 512]
      b b' ver fresh sg [OF b'(2)] enc1 enc2 len
    by (force simp: emit_response_def kSignatureLen_def put_field_def)
qed

theorem overlap_forges_request_witness:
  "\<exists>b s'. two_carriers (demo False) full_config 512 overwrite_schedule
      (At_Entry (encode_signed 5 [9] (toy_sig client_key (demo_preimage kDirRequest 3 [1]))),
       At_Entry (client_request 3 [1]), demo_statics) =
      (Finished (device_response 5 [9], Reject_None), b, s')"
proof -
  have "\<exists>b s'. two_carriers (demo False) full_config 512 overwrite_schedule
      (At_Entry (encode_signed 5 [9] (toy_sig client_key (demo_preimage kDirRequest 3 [1]))),
       At_Entry (encode_signed 3 [1] (toy_sig client_key (demo_preimage kDirRequest 3 [1]))), demo_statics) =
      (Finished ([kTypeSignedResponse] @ PutU32 5 @ put_field [9]
        @ put_field (toy_sig demo_device_key (demo_preimage kDirResponse 5 [9])), Reject_None), b, s') \<and>
    mFloor (gReplay (st_core s')) = 5"
  proof (rule overlap_forges_request)
    show "BuildPreimage kDirRequest 3 (gDevicePub (st_core demo_statics)) [1] 700 =
        (CHIP_NO_ERROR, demo_preimage kDirRequest 3 [1])"
      using demo_4_preimage [of "[1]"] by simp
    show "store_Verify (demo False) (demo_preimage kDirRequest 3 [1])
        (toy_sig client_key (demo_preimage kDirRequest 3 [1])) (gStore (st_core demo_statics))
        (env (st_core demo_statics)) = (0, gStore demo_4, env demo_4)"
      using demo_4_verifies by simp
    show "Sign (demo False) (gSigner (st_core demo_statics)) pre kSignatureLen (env demo_4) =
        (0, toy_sig demo_device_key (demo_preimage kDirResponse 5 [9]), env demo_4)"
      if "BuildPreimage kDirResponse 5 (gDevicePub (st_core demo_statics)) [9] 700 = (CHIP_NO_ERROR, pre)" for pre
      using that demo_4_signs demo_4_preimage [of "[9]"] by simp
    show "length (toy_sig client_key (demo_preimage kDirRequest 3 [1])) < 65536" by (rule length_toy_sig_field)
  qed (simp_all add: demo_4_ready demo_guard_def full_config_def)
  then show ?thesis by (auto simp: client_request_def device_response_def)
qed

text \<open>
  C40. Overlapping requests break freshness. Two authentic requests with unused counters can
  both be answered although the one with the lower or the same counter finishes last. The
  floor is then the lower counter: the same request has been answered twice, or the one with
  the higher counter is fresh once more.
\<close>

theorem overlap_loses_update:
  assumes wf: "statics_wf s" and cfg: "CONFIG_TUNNEL_SECURITY cfg" "CONFIG_TUNNEL_CLIENT_AUTH cfg"
    and ready: "gBundleLen (st_core s) \<noteq> 0" "gReplayReady (st_core s)" "HasKey (gStore (st_core s))"
    and len: "length p1 \<le> 256" "length csig1 < 65536" "length p2 \<le> 256" "length csig2 < 65536"
    and b: "BuildPreimage kDirRequest c1 (gDevicePub (st_core s)) p1 700 = (CHIP_NO_ERROR, pre1)"
      "BuildPreimage kDirRequest c2 (gDevicePub (st_core s)) p2 700 = (CHIP_NO_ERROR, pre2)"
    and ver: "store_Verify P pre1 csig1 (gStore (st_core s)) (env (st_core s)) = (0, ks1, e1)"
      "store_Verify P pre2 csig2 ks1 e1 = (0, ks2, e2)"
    and fresh: "mFloor (gReplay (st_core s)) < c1" "c1 \<le> c2" "c2 < mCeiling (gReplay (st_core s))"
    and sg: "\<And>pre. BuildPreimage kDirResponse c2 (gDevicePub (st_core s)) p2 700 = (CHIP_NO_ERROR, pre) \<Longrightarrow>
      Sign P (gSigner (st_core s)) pre kSignatureLen e2 = (0, sig2, e3)"
      "\<And>pre. BuildPreimage kDirResponse c1 (gDevicePub (st_core s)) p1 700 = (CHIP_NO_ERROR, pre) \<Longrightarrow>
      Sign P (gSigner (st_core s)) pre kSignatureLen e3 = (0, sig1, e4)"
  shows "\<exists>s'. two_carriers P cfg 512 lost_update_schedule
      (At_Entry (encode_signed c1 p1 csig1), At_Entry (encode_signed c2 p2 csig2), s) =
      (Finished ([kTypeSignedResponse] @ PutU32 c1 @ put_field p1 @ put_field sig1, Reject_None),
       Finished ([kTypeSignedResponse] @ PutU32 c2 @ put_field p2 @ put_field sig2, Reject_None), s') \<and>
    mFloor (gReplay (st_core s')) = c1 \<and> (c1 < c2 \<longrightarrow> IsFresh (gReplay (st_core s')) c2)"
proof -
  let ?k = "gDevicePub (st_core s)"
  obtain r1 r2 where r: "BuildPreimage kDirResponse c1 ?k p1 700 = (CHIP_NO_ERROR, r1)"
    "BuildPreimage kDirResponse c2 ?k p2 700 = (CHIP_NO_ERROR, r2)"
    using b BuildPreimage_success_iff by (metis fst_conv prod.collapse)
  have p: "length p1 < 65536" "length p2 < 65536" using len by simp_all
  note enc1 = signed_parse_encode [OF p(1) len(2), of c1 "[]", simplified]
  note enc2 = signed_parse_encode [OF p(2) len(4), of c2 "[]", simplified]
  have f: "c1 < mCeiling (gReplay (st_core s))" "mFloor (gReplay (st_core s)) < c2"
    using fresh by simp_all
  obtain s' where "two_carriers P cfg 512 lost_update_schedule
      (At_Entry (encode_signed c1 p1 csig1), At_Entry (encode_signed c2 p2 csig2), s) =
      (Finished (emit_response c1 (length p1) p1 sig1 512), Finished (emit_response c2 (length p2) p2 sig2 512), s')"
    "st_core s' = (st_core s)\<lparr>gStore := ks2, gReplay := (gReplay (st_core s))\<lparr>mFloor := c1\<rparr>, env := e4\<rparr>"
    using lost_update [OF wf cfg encode_signed_type encode_signed_type ready enc1(1) enc2(1), of pre1 pre2 P ks1 e1 ks2 e2 r1 r2 sig2 e3 sig1 e4 512]
      enc1 enc2 b ver fresh f r sg(1) [OF r(2)] sg(2) [OF r(1)] by auto
  then show ?thesis
    using len by (simp add: emit_response_def kSignatureLen_def put_field_def IsFresh_def)
qed

theorem overlap_loses_update_witness:
  "\<exists>s'. two_carriers (demo False) full_config 512 lost_update_schedule
      (At_Entry (client_request 3 [1]), At_Entry (client_request 3 [1]), demo_statics) =
      (Finished (device_response 3 [1], Reject_None), Finished (device_response 3 [1], Reject_None), s')"
proof -
  let ?sig = "toy_sig client_key (demo_preimage kDirRequest 3 [1])"
  have "\<exists>s'. two_carriers (demo False) full_config 512 lost_update_schedule
      (At_Entry (encode_signed 3 [1] ?sig), At_Entry (encode_signed 3 [1] ?sig), demo_statics) =
      (Finished ([kTypeSignedResponse] @ PutU32 3 @ put_field [1]
         @ put_field (toy_sig demo_device_key (demo_preimage kDirResponse 3 [1])), Reject_None),
       Finished ([kTypeSignedResponse] @ PutU32 3 @ put_field [1]
         @ put_field (toy_sig demo_device_key (demo_preimage kDirResponse 3 [1])), Reject_None), s') \<and>
    mFloor (gReplay (st_core s')) = 3 \<and> (3 < (3 :: u32) \<longrightarrow> IsFresh (gReplay (st_core s')) 3)"
  proof (rule overlap_loses_update)
    show b: "BuildPreimage kDirRequest 3 (gDevicePub (st_core demo_statics)) [1] 700 =
        (CHIP_NO_ERROR, demo_preimage kDirRequest 3 [1])"
      using demo_4_preimage [of "[1]"] by simp
    then show "BuildPreimage kDirRequest 3 (gDevicePub (st_core demo_statics)) [1] 700 =
        (CHIP_NO_ERROR, demo_preimage kDirRequest 3 [1])" .
    show "store_Verify (demo False) (demo_preimage kDirRequest 3 [1]) ?sig (gStore (st_core demo_statics))
        (env (st_core demo_statics)) = (0, gStore demo_4, env demo_4)"
      using demo_4_verifies by simp
    show "store_Verify (demo False) (demo_preimage kDirRequest 3 [1]) ?sig (gStore demo_4) (env demo_4) =
        (0, gStore demo_4, env demo_4)"
      by (rule demo_4_verifies)
    show *: "Sign (demo False) (gSigner (st_core demo_statics)) pre kSignatureLen (env demo_4) =
        (0, toy_sig demo_device_key (demo_preimage kDirResponse 3 [1]), env demo_4)"
      if "BuildPreimage kDirResponse 3 (gDevicePub (st_core demo_statics)) [1] 700 = (CHIP_NO_ERROR, pre)" for pre
      using that demo_4_signs demo_4_preimage [of "[1]"] by simp
    show "Sign (demo False) (gSigner (st_core demo_statics)) pre kSignatureLen (env demo_4) =
        (0, toy_sig demo_device_key (demo_preimage kDirResponse 3 [1]), env demo_4)"
      if "BuildPreimage kDirResponse 3 (gDevicePub (st_core demo_statics)) [1] 700 = (CHIP_NO_ERROR, pre)" for pre
      by (rule * [OF that])
    show "length ?sig < 65536" "length ?sig < 65536" by (rule length_toy_sig_field)+
  qed (simp_all add: demo_4_ready demo_guard_def full_config_def)
  then show ?thesis by (auto simp: client_request_def device_response_def)
qed

text \<open>
  C19. What overlapping cannot do: in every order of the steps of two carriers the floor
  stays at or above where it stood when both began, and no counter at or below that is
  answered. A request captured and answered before stays useless.
\<close>

theorem overlap_keeps_floor:
  assumes "two_carriers P cfg outCap sched (At_Entry inp1, At_Entry inp2, s) = (a, b, s')"
    and "gReplayReady (st_core s)"
  shows "mFloor (gReplay (st_core s)) \<le> mFloor (gReplay (st_core s')) \<and>
    (\<forall>bs r c. Finished (bs, r) \<in> {a, b} \<and> response_counter bs = Some c \<longrightarrow>
       mFloor (gReplay (st_core s)) < c)"
proof -
  let ?f = "mFloor (gReplay (st_core s))"
  have "floor_from ?f s' \<and> past ?f a \<and> past ?f b"
    by (rule two_carriers_past [OF assms(1)]) (simp_all add: floor_from_def assms(2))
  then show ?thesis by (auto simp: floor_from_def)
qed

theorem overlap_keeps_floor_witness:
  "\<forall>sched. 2 \<le> mFloor (gReplay (st_core (snd (snd (two_carriers (demo False) full_config 512 sched
      (At_Entry (client_request 2 [1, 2]), At_Entry (client_request 3 [1]), demo_statics))))))"
proof
  fix sched
  obtain a b s' where r: "two_carriers (demo False) full_config 512 sched
      (At_Entry (client_request 2 [1, 2]), At_Entry (client_request 3 [1]), demo_statics) = (a, b, s')"
    by (metis prod_cases3)
  from overlap_keeps_floor [OF r] r
  show "2 \<le> mFloor (gReplay (st_core (snd (snd (two_carriers (demo False) full_config 512 sched
      (At_Entry (client_request 2 [1, 2]), At_Entry (client_request 3 [1]), demo_statics))))))"
    by (simp add: demo_4_ready demo_guard_def)
qed

text \<open>
  C32. Overlapping requests break the registration window. For one button press two
  registrations over the two carriers can both be acknowledged, each with the device's
  signature over its own key, and the device keeps the key of the one that stored last: the
  race the signed acknowledgement is there to reveal goes unseen by the other.
\<close>

theorem overlap_registers_twice:
  assumes "statics_wf s" and "CONFIG_TUNNEL_SECURITY cfg" "CONFIG_TUNNEL_CLIENT_AUTH cfg"
    and "gBundleLen (st_core s) \<noteq> 0" "mImported (gStore (st_core s)) = 0"
    and "WindowOpen P (gStore (st_core s)) (env (st_core s))"
    and "length k1 = 32" "length k2 = 32"
    and "settings_save_one P clientkey_key k2 (env (st_core s)) = (rc2, e1)"
      "settings_save_one P clientkey_key k1 e2 = (rc1, e3)"
    and "BuildPreimage kDirResponse 0 (gDevicePub (st_core s)) k1 256 = (CHIP_NO_ERROR, pre1)"
      "BuildPreimage kDirResponse 0 (gDevicePub (st_core s)) k2 256 = (CHIP_NO_ERROR, pre2)"
    and "Sign P (gSigner (st_core s)) pre2 kSignatureLen e1 = (0, sig2, e2)"
      "Sign P (gSigner (st_core s)) pre1 kSignatureLen e3 = (0, sig1, e4)"
  shows "\<exists>s'. two_carriers P cfg 512 double_registration_schedule
      (At_Entry ([kTypeRegisterClientKey] @ put_field k1), At_Entry ([kTypeRegisterClientKey] @ put_field k2), s) =
      (Finished ([kTypeRegisterAck] @ put_field k1 @ put_field sig1, Reject_None),
       Finished ([kTypeRegisterAck] @ put_field k2 @ put_field sig2, Reject_None), s') \<and>
    Key (gStore (st_core s')) = k1"
  by (rule double_registration [OF assms(1-6) _ _ _ assms(9-14)])
     (simp_all add: assms(7,8) kKeySize_def kSignatureLen_def)

definition hub_key :: "byte list" where "hub_key = replicate 32 0x66"

lemma demo_2_simps:
  "gBundleLen demo_2 \<noteq> 0" "mImported (gStore demo_2) = 0" "gDevicePub demo_2 = demo_device_key"
  "gSigner demo_2 = \<lparr>mKeyId = 0x5401, mAlg = Ed25519\<rparr>" "env demo_2 = w1"
  "WindowOpen (demo f) (gStore demo_2) w1" "w_keys w1 0x5401 = Some demo_device_key"
  by (simp_all add: demo_2_def new_store_def WindowOpen_def demo_def w1_def w0_def)

theorem overlap_registers_twice_witness:
  "\<exists>s' ack1 ack2. two_carriers (demo False) full_config 512 double_registration_schedule
      (At_Entry ([kTypeRegisterClientKey] @ put_field hub_key), At_Entry register_request,
       demo_statics\<lparr>st_core := demo_2\<rparr>) =
      (Finished ([kTypeRegisterAck] @ put_field hub_key @ ack1, Reject_None),
       Finished ([kTypeRegisterAck] @ put_field client_key @ ack2, Reject_None), s') \<and>
    Key (gStore (st_core s')) = hub_key"
proof -
  let ?save = "\<lambda>k e. e\<lparr>w_flash := (w_flash e)(clientkey_key \<mapsto> k)\<rparr>"
  let ?sig = "\<lambda>k. toy_sig demo_device_key (demo_preimage kDirResponse 0 k)"
  have save: "settings_save_one (demo False) clientkey_key k e = (0, ?save k e)" for k e
    by (simp add: demo_def)
  have pre: "BuildPreimage kDirResponse 0 demo_device_key k 256 = (CHIP_NO_ERROR, demo_preimage kDirResponse 0 k)"
    if "length k = 32" for k
    using that demo_preimage_BuildPreimage [of k 256] by simp
  have len: "length hub_key = 32" by (simp add: hub_key_def)
  have "\<exists>s'. two_carriers (demo False) full_config 512 double_registration_schedule
      (At_Entry ([kTypeRegisterClientKey] @ put_field hub_key), At_Entry ([kTypeRegisterClientKey] @ put_field client_key),
       demo_statics\<lparr>st_core := demo_2\<rparr>) =
      (Finished ([kTypeRegisterAck] @ put_field hub_key @ put_field (?sig hub_key), Reject_None),
       Finished ([kTypeRegisterAck] @ put_field client_key @ put_field (?sig client_key), Reject_None), s') \<and>
    Key (gStore (st_core s')) = hub_key"
    by (rule overlap_registers_twice [where ?e1.0 = "?save client_key w1" and ?e2.0 = "?save client_key w1"
          and ?e3.0 = "?save hub_key (?save client_key w1)"])
       (simp_all add: demo_2_simps save pre len demo_sign demo_statics_def statics_wf_def full_config_def)
  then show ?thesis unfolding register_request_def by blast
qed

end
