(* ===== verification/Whole_System.thy ===== *)
theory Whole_System
  imports Startup Presence
begin

text \<open>
  The parts put together: the plugin's start-up, the Matter callback, the Bluetooth adapter
  with its buffer and work items, and the button, over one core. The kernel decides the order
  of events, so a run is any sequence of them. A callback or work item has the core to itself
  here, while Bluetooth writes still reach the shared buffer during one; carriers that are
  inside the core at the same time are the subject of \<open>Two_Carriers\<close> and \<open>Lazy_Carriers\<close>.
\<close>

section \<open>The system\<close>

type_synonym 'e system = "ble \<times> 'e core"

type_synonym startup_output = "ble_call list \<times> bench_outcome list \<times> bundle_report option"

text \<open>An event with what the program does outside.\<close>

datatype sys_label =
    S_Matter bool "byte list" "command_call list"
  | S_Ble ble_event "ble_call list"
  | S_Button u32 u32
  | S_Outside
  | S_Reset startup_output

text \<open>After a reset every static has its initial value, and the plugin is initialised.\<close>

definition start_up :: "'e platform \<Rightarrow> plugin_config \<Rightarrow> 'e \<Rightarrow> startup_output \<times> 'e system" where
  "start_up P pc e =
     (let (out, e) = PluginServerInitCallback P pc e in (out, ble_boot, boot e))"

inductive sys_step :: "'e platform \<Rightarrow> config \<Rightarrow> plugin_config \<Rightarrow>
  ('e \<Rightarrow> string \<Rightarrow> byte list option) \<Rightarrow> ('e \<Rightarrow> 'e \<Rightarrow> bool) \<Rightarrow>
  'e system \<Rightarrow> sys_label \<Rightarrow> 'e system \<Rightarrow> bool" for P cfg pc stored drift where
  matter: "TunnelRequestCallback P cfg has_command payload d = ((handled, calls), d') \<Longrightarrow>
    sys_step P cfg pc stored drift (b, d) (S_Matter has_command payload calls) (b, d')"
| ble: "ble_step P cfg ev (b, d) = (cs, b', d') \<Longrightarrow>
    sys_step P cfg pc stored drift (b, d) (S_Ble ev cs) (b', d')"
| button: "sys_step P cfg pc stored drift (b, d) (S_Button button_state has_changed)
    (b, d\<lparr>gStore := button_event P button_state has_changed (env d) (gStore d)\<rparr>)"
| outside: "drift (env d) e \<Longrightarrow>
    sys_step P cfg pc stored drift (b, d) S_Outside (b, d\<lparr>env := e\<rparr>)"
| reset: "lost = env d \<or> (gReplayReady d \<and> power_loss_point P (gReplay d, env d) lost) \<Longrightarrow>
    stored e = stored lost \<Longrightarrow> start_up P pc e = (out, s) \<Longrightarrow>
    sys_step P cfg pc stored drift (b, d) (S_Reset out) s"

text \<open>What leaves the device, over either carrier, and the presses of Button 4.\<close>

fun response_of :: "command_call \<Rightarrow> byte list option" where
  "response_of (AddResponse bs) = Some bs"
| "response_of (AddStatus _) = None"

fun on_air :: "sys_label \<Rightarrow> byte list list" where
  "on_air (S_Matter _ _ calls) = List.map_filter response_of calls"
| "on_air (S_Ble _ cs) = sent cs"
| "on_air _ = []"

fun pressed :: "sys_label \<Rightarrow> bool" where
  "pressed (S_Button b c) = ((kRegisterButtonMask AND c) AND b \<noteq> 0)"
| "pressed _ = False"

section \<open>The system is the device\<close>

text \<open>
  A step of the system is a run of the device with the same replies and presses. The device's
  power cycle may start from any outside state with the flash that was left, so also from the
  one that start-up leaves.
\<close>

definition simulates :: "label list \<Rightarrow> sys_label list \<Rightarrow> bool" where
  "simulates dls ls \<longleftrightarrow> replies dls = concat (map on_air ls) \<and>
     length (filter presses dls) = length (filter pressed ls)"

lemma simulates_Nil: "simulates [] []"
  by (simp add: simulates_def replies_def map_filter_simps)

lemma simulates_Cons: "simulates dls [l] \<Longrightarrow> simulates dls' ls \<Longrightarrow> simulates (dls @ dls') (l # ls)"
  by (simp add: simulates_def replies_append)

lemma awake_run_dev: "run (awake_step P cfg stored drift) d ls d' \<Longrightarrow> run (dev_step P cfg stored drift) d ls d'"
  by (erule run_mono) (simp add: awake_step_def)

lemma matter_simulated:
  assumes "TunnelRequestCallback P cfg has_command payload d = ((handled, calls), d')"
  shows "\<exists>dls. run (dev_step P cfg stored drift) d dls d' \<and>
    simulates dls [S_Matter has_command payload calls]"
proof (cases has_command)
  case True
  with assms have "TunnelRequestCallback P cfg True payload d = ((handled, calls), d')" by simp
  then obtain reply where st: "dev_step P cfg stored drift d (L_Request (\<lambda>_. payload) 512 reply) d'"
    and calls: "calls = [AddResponse (fst reply)] \<and> fst reply \<noteq> [] \<or>
      calls = [AddStatus (im_status_of (snd reply))] \<and> fst reply = []"
    using matter_refines [of P cfg payload d handled calls d' stored drift] by blast
  have "run (dev_step P cfg stored drift) d [L_Request (\<lambda>_. payload) 512 reply] d'"
    using st by (simp add: run_cons_simp)
  moreover have "simulates [L_Request (\<lambda>_. payload) 512 reply] [S_Matter has_command payload calls]"
    using calls by (auto simp: simulates_def replies_def map_filter_simps)
  ultimately show ?thesis by blast
next
  case False
  then have "d' = d" "calls = []" using assms by (simp_all add: TunnelRequestCallback_def)
  then show ?thesis
    by (intro exI [of _ "[]"]) (simp add: simulates_def replies_def map_filter_simps)
qed

lemma requests_no_press: "list_all is_request ls \<Longrightarrow> filter presses ls = []"
proof (induction ls)
  case (Cons l ls)
  then show ?case by (cases l) simp_all
qed simp

lemma ble_simulated:
  assumes "ble_step P cfg ev (b, d) = (cs, b', d')"
  shows "\<exists>dls. run (dev_step P cfg stored drift) d dls d' \<and> simulates dls [S_Ble ev cs]"
proof -
  obtain dls where "run (awake_step P cfg stored drift) d dls d'" "sent cs = replies dls"
    "list_all is_request dls"
    using ble_step_refines [OF assms] by blast
  then show ?thesis by (auto simp: simulates_def requests_no_press intro: awake_run_dev)
qed

lemma sys_step_simulated:
  assumes F: "flash_ok P stored" and S: "sys_step P cfg pc stored drift s l s'"
  shows "\<exists>dls. run (dev_step P cfg stored drift) (snd s) dls (snd s') \<and> simulates dls [l]"
  using S
proof (cases rule: sys_step.cases)
  case (matter has_command payload d handled calls d' b)
  then show ?thesis using matter_simulated [OF matter(4)] by simp
next
  case (ble ev b d cs b' d')
  then show ?thesis using ble_simulated [OF ble(4)] by simp
next
  case (button b d button_state has_changed)
  let ?l = "L_Button button_state has_changed"
  have "run (dev_step P cfg stored drift) (snd s) [?l] (snd s')"
    using dev_step.button [of P cfg stored drift d button_state has_changed] button
    by (simp add: run_cons_simp)
  moreover have "simulates [?l] [l]"
    using button(2) by (simp add: simulates_def replies_def map_filter_simps)
  ultimately show ?thesis by blast
next
  case (outside d e b)
  have "run (dev_step P cfg stored drift) (snd s) [L_Outside] (snd s')"
    using dev_step.outside [of drift d e P cfg stored] outside by (simp add: run_cons_simp)
  moreover have "simulates [L_Outside] [l]"
    using outside(2) by (simp add: simulates_def replies_def map_filter_simps)
  ultimately show ?thesis by blast
next
  case (reset lost d e out b)
  obtain calls outcomes report e' where init: "PluginServerInitCallback P pc e = ((calls, outcomes, report), e')"
    by (metis prod.collapse)
  then have s': "snd s' = boot e'" using reset(5) by (auto simp: start_up_def)
  have "stored e' = stored lost" using startup_leaves_settings [OF F init] reset(4) by simp
  then have "dev_step P cfg stored drift d L_PowerCycle (boot e')" by (rule dev_step.power [OF reset(3)])
  then have "run (dev_step P cfg stored drift) (snd s) [L_PowerCycle] (snd s')"
    using reset(1) s' by (simp add: run_cons_simp)
  moreover have "simulates [L_PowerCycle] [l]"
    using reset(2) by (simp add: simulates_def replies_def map_filter_simps)
  ultimately show ?thesis by blast
qed

lemma sys_run_simulated:
  assumes F: "flash_ok P stored"
  shows "run (sys_step P cfg pc stored drift) s ls s' \<Longrightarrow>
    \<exists>dls. run (dev_step P cfg stored drift) (snd s) dls (snd s') \<and> simulates dls ls"
proof (induction rule: run.induct)
  case (run_nil s)
  show ?case using simulates_Nil by (intro exI [of _ "[]"]) simp
next
  case (run_cons s l s1 ls s2)
  then show ?case using sys_step_simulated [OF F run_cons.hyps(1)] by (meson run_append simulates_Cons)
qed

section \<open>What holds on the air\<close>

lemma acks_replies: "length (filter acks ls) = length (filter is_ack (replies ls))"
proof (induction ls)
  case (Cons l ls)
  have "acks l = (case reply_of l of None \<Rightarrow> False | Some bs \<Rightarrow> is_ack bs)"
    by (cases l) (auto simp: is_ack_def)
  with Cons show ?case by (auto simp: replies_def map_filter_simps split: option.splits)
qed (simp add: replies_def map_filter_simps)

lemma start_up_core:
  assumes "flash_ok P stored" "start_up P pc e = (out, s)"
  shows "snd s = boot (env (snd s)) \<and> stored (env (snd s)) = stored e"
proof -
  obtain calls outcomes report e' where init: "PluginServerInitCallback P pc e = ((calls, outcomes, report), e')"
    by (metis prod.collapse)
  with assms(2) have "snd s = boot e'" by (auto simp: start_up_def)
  with startup_leaves_settings [OF assms(1) init] show ?thesis by (simp add: boot_def)
qed

lemma system_counters:
  assumes F: "flash_reliable P stored" and D: "drift_keeps_flash stored drift"
    and e: "stored e ceiling_key = None" "start_up P pc e = (out, s)"
    and R: "run (sys_step P cfg pc stored drift) s ls s'"
  shows "sorted_wrt (<) (List.map_filter response_counter (concat (map on_air ls)))"
proof -
  note fo = flash_reliableD(1) [OF F]
  obtain dls where dls: "run (dev_step P cfg stored drift) (snd s) dls (snd s')" "simulates dls ls"
    using sys_run_simulated [OF fo R] by blast
  have "run (dev_step P cfg stored drift) (boot (env (snd s))) dls (snd s')"
    "stored (env (snd s)) ceiling_key = None"
    using dls(1) start_up_core [OF fo e(2)] e(1) by simp_all
  then have "sorted_wrt (<) (List.map_filter served dls)"
    using life.run_emits device_inv_factory [OF F D] by blast
  then show ?thesis
    using dls(2) served_replies [of dls] by (simp add: simulates_def served_counters_def)
qed

lemma system_registrations:
  assumes F: "flash_ok P stored" and e: "start_up P pc e = (out, s)"
    and R: "run (sys_step P cfg pc stored drift) s ls s'"
  shows "length (filter is_ack (concat (map on_air ls))) \<le> length (filter pressed ls)"
proof -
  obtain dls where dls: "run (dev_step P cfg stored drift) (snd s) dls (snd s')" "simulates dls ls"
    using sys_run_simulated [OF F R] by blast
  have "window_credit (snd s) = 0"
    using start_up_core [OF F e] by (metis boot_def new_store_def window_credit_def core.simps(7) ClientKeyStore.simps(3))
  with run_credit [OF dls(1)] dls(2) acks_replies [of dls] show ?thesis
    by (simp add: simulates_def)
qed

end
