(* ===== verification/Ble_Queue.thy ===== *)
theory Ble_Queue
  imports Ble_Adapter
begin

text \<open>
  The adapter's own work queue. The connection callbacks are registered statically and run
  for every connection of the device, the queue they submit to is started by \<open>DoInit\<close>, five
  seconds after start-up and only if \<open>bt_nus_init\<close> succeeds.
\<close>

section \<open>Calls on the queue\<close>

fun uses_queue :: "ble_call \<Rightarrow> bool" where
  "uses_queue (Submit w) = True"
| "uses_queue (Schedule w t) = (w = sParamWork)"
| "uses_queue _ = False"

fun starts_queue :: "ble_call \<Rightarrow> bool" where
  "starts_queue (QueueStart n p) = True"
| "starts_queue _ = False"

text \<open>\<open>queue_ok started cs\<close>: nothing is submitted to the queue before it was started.\<close>

fun queue_ok :: "bool \<Rightarrow> ble_call list \<Rightarrow> bool" where
  "queue_ok started [] = True"
| "queue_ok started (c # cs) =
     ((uses_queue c \<longrightarrow> started) \<and> queue_ok (started \<or> starts_queue c) cs)"

lemma queue_ok_append:
  "queue_ok started (cs @ cs') \<longleftrightarrow>
   queue_ok started cs \<and> queue_ok (started \<or> list_ex starts_queue cs) cs'"
  by (induction cs arbitrary: started) (auto simp: disj_assoc)

section \<open>Events\<close>

text \<open>The same on events: which may and which must use the queue, and which starts it.\<close>

fun may_use :: "ble_event \<Rightarrow> bool" where
  "may_use (Ev_Rx data) = (data \<noteq> [] \<and> length data \<le> 512)"
| "may_use (Ev_ParamUpdated i) = (i > 12)"
| "may_use Ev_Disconnected = True"
| "may_use _ = False"

fun must_use :: "ble_event \<Rightarrow> bool" where
  "must_use (Ev_Rx data) = (data \<noteq> [] \<and> length data \<le> 512)"
| "must_use Ev_Disconnected = True"
| "must_use _ = False"

fun initialises :: "ble_event \<Rightarrow> bool" where
  "initialises (Ev_Init uuid name rc ok) = (rc = 0)"
| "initialises _ = False"

fun started_before :: "(ble_event \<Rightarrow> bool) \<Rightarrow> bool \<Rightarrow> ble_event list \<Rightarrow> bool" where
  "started_before use started [] = True"
| "started_before use started (ev # evs) =
     ((use ev \<longrightarrow> started) \<and> started_before use (started \<or> initialises ev) evs)"

lemmas queue_defs = RxCallback_def OnConnected_def OnParamUpdated_def OnDisconnected_def
  ReadvertiseHandler_def ParamWorkHandler_def InitHandler_def DoInit_def kFastParams_def
  kMaxResponse_def Let_def

lemma ble_step_queue:
  assumes "ble_step P cfg ev (b, d) = (cs, b', d')"
  shows "list_ex starts_queue cs \<longleftrightarrow> initialises ev"
    and "(may_use ev \<longrightarrow> started) \<longrightarrow> queue_ok started cs"
    and "queue_ok started cs \<longrightarrow> (must_use ev \<longrightarrow> started)"
  using assms
  by (cases ev; (auto simp: queue_defs elim!: ProcessWork_result split: if_splits option.splits; fail))+

lemma ble_run_queue:
  "ble_run P cfg evs s = (cs, s') \<Longrightarrow>
   (started_before may_use started evs \<longrightarrow> queue_ok started cs) \<and>
   (queue_ok started cs \<longrightarrow> started_before must_use started evs)"
proof (induction evs arbitrary: s cs started)
  case (Cons ev evs)
  obtain b d cs1 b1 d1 where st: "s = (b, d)" "ble_step P cfg ev (b, d) = (cs1, b1, d1)"
    by (metis prod.collapse)
  then obtain cs2 where "ble_run P cfg evs (b1, d1) = (cs2, s')" "cs = cs1 @ cs2"
    using Cons.prems by (auto split: prod.splits)
  with Cons.IH [of "(b1, d1)" cs2 "started \<or> initialises ev"] ble_step_queue [OF st(2)]
  show ?case by (simp add: queue_ok_append) blast
qed simp

end
