(* ===== verification/System_Properties.thy ===== *)
theory System_Properties
  imports Demo_Platform Whole_System Ble_Queue
begin

text \<open>
  The whole device: start-up, both carriers, the button, power cycles; and the order in which
  the Bluetooth adapter's work queue is started and used.
\<close>

definition bluetooth_build :: plugin_config where
  "bluetooth_build = \<lparr>CONFIG_BT_NUS = True, CONFIG_TUNNEL_CRYPTO_BENCHMARK = False\<rparr>"

lemma demo_start_up:
  "start_up (demo f) bluetooth_build e = (([Schedule sInitWork 5000], [], None), ble_boot, boot e)"
  by (simp add: start_up_def PluginServerInitCallback_def bluetooth_build_def BleTransportScheduleInit_def)

abbreviation demo_system :: "world system \<Rightarrow> sys_label \<Rightarrow> world system \<Rightarrow> bool" where
  "demo_system \<equiv> sys_step (demo False) full_config bluetooth_build w_flash demo_drift"

text \<open>
  The life of \<open>Demo_Platform\<close> with its transports: an early request and the registration over
  Matter, a request over Bluetooth, a power cycle, a request over Matter.
\<close>

lemma demo_matter:
  assumes "ProcessRequest (demo False) full_config inp 512 d = ((bs, Reject_None), d')" "bs \<noteq> []"
  shows "demo_system (b, d) (S_Matter True inp [AddResponse bs]) (b, d')"
  by (rule sys_step.matter [where handled = True])
    (use assms in \<open>simp add: TunnelRequestCallback_def kMaxResponse_def\<close>)

definition demo_rx :: ble where
  "demo_rx = snd (RxCallback (client_request 2 [1, 2]) ble_boot)"

definition demo_sys_labels :: "sys_label list" where
  "demo_sys_labels =
     [S_Matter True early_request [AddResponse [kTypeAuthReject]],
      S_Button 8 8,
      S_Matter True register_request [AddResponse demo_ack],
      S_Ble (Ev_Rx (client_request 2 [1, 2])) [Submit sWork],
      S_Ble (Ev_Process (\<lambda>_. [])) [BtNusSend (device_response 2 [1, 2])],
      S_Reset ([Schedule sInitWork 5000], [], None),
      S_Matter True (client_request 65 [7]) [AddResponse (device_response 65 [7])]]"

lemma demo_client_request: "client_request 2 [1, 2] \<noteq> []" "length (client_request 2 [1, 2]) \<le> 512"
proof -
  have "length (toy_sig client_key (demo_preimage kDirRequest 2 [1, 2])) \<le> 501"
    using length_toy_sig(2) by (rule le_trans) simp
  then show "client_request 2 [1, 2] \<noteq> []" "length (client_request 2 [1, 2]) \<le> 512"
    by (simp_all add: client_request_def encode_signed_def)
qed

lemma demo_ble_steps:
  "demo_system (ble_boot, demo_3) (S_Ble (Ev_Rx (client_request 2 [1, 2])) [Submit sWork]) (demo_rx, demo_3)"
  "\<exists>b. demo_system (demo_rx, demo_3)
     (S_Ble (Ev_Process (\<lambda>_. [])) [BtNusSend (device_response 2 [1, 2])]) (b, demo_4)"
proof -
  note len = demo_client_request
  have rx: "RxCallback (client_request 2 [1, 2]) ble_boot = ([Submit sWork], demo_rx)"
    using len by (simp add: demo_rx_def RxCallback_def kMaxResponse_def)
  then show "demo_system (ble_boot, demo_3) (S_Ble (Ev_Rx (client_request 2 [1, 2])) [Submit sWork]) (demo_rx, demo_3)"
    by (intro sys_step.ble) simp
  obtain cs b d where pr: "ProcessWork (demo False) full_config (\<lambda>_. []) (demo_rx, demo_3) = (cs, b, d)"
    by (metis prod_cases3)
  then have run: "ble_run (demo False) full_config [Ev_Rx (client_request 2 [1, 2]), Ev_Process (\<lambda>_. [])]
      (ble_boot, demo_3) = (Submit sWork # cs, b, d)"
    using rx by simp
  have "cs = [BtNusSend (device_response 2 [1, 2])] \<and> d = demo_4"
    using ble_exchange [OF ble_wf_boot len demo_second, of False] run by (simp add: device_response_def)
  with pr show "\<exists>b. demo_system (demo_rx, demo_3)
     (S_Ble (Ev_Process (\<lambda>_. [])) [BtNusSend (device_response 2 [1, 2])]) (b, demo_4)"
    by (intro exI [of _ b] sys_step.ble) simp
qed

lemma demo_sys_run: "run demo_system (ble_boot, boot w0) demo_sys_labels (ble_boot, demo_5)"
proof -
  obtain b where pr: "demo_system (demo_rx, demo_3)
      (S_Ble (Ev_Process (\<lambda>_. [])) [BtNusSend (device_response 2 [1, 2])]) (b, demo_4)"
    using demo_ble_steps(2) by blast
  show ?thesis
    unfolding demo_sys_labels_def
  proof (intro run.intros)
    show "demo_system (ble_boot, boot w0) (S_Matter True early_request [AddResponse [kTypeAuthReject]])
        (ble_boot, demo_1)"
      by (rule demo_matter [OF demo_early]) simp
    show "demo_system (ble_boot, demo_1) (S_Button 8 8) (ble_boot, demo_2)"
      using sys_step.button [of "demo False" full_config bluetooth_build w_flash demo_drift ble_boot demo_1 8 8]
      unfolding demo_button .
    show "demo_system (ble_boot, demo_2) (S_Matter True register_request [AddResponse demo_ack])
        (ble_boot, demo_3)"
      unfolding demo_ack_def by (rule demo_matter [OF demo_register]) simp
    show "demo_system (b, demo_4) (S_Reset ([Schedule sInitWork 5000], [], None)) (ble_boot, boot w4)"
      by (rule sys_step.reset [of w3, OF _ _ demo_start_up]) simp_all
    show "demo_system (ble_boot, boot w4)
        (S_Matter True (client_request 65 [7]) [AddResponse (device_response 65 [7])]) (ble_boot, demo_5)"
      by (rule demo_matter [OF demo_third]) (simp_all add: device_response_def)
  qed (use pr demo_ble_steps(1) in simp_all)
qed

lemma demo_on_air:
  "concat (map on_air demo_sys_labels) =
   [[kTypeAuthReject], demo_ack, device_response 2 [1, 2], device_response 65 [7]]"
  by (simp add: demo_sys_labels_def sent_def map_filter_simps)

text \<open>
  C37. The device as a whole refines the device of the core alone: whatever order the kernel
  gives to Matter commands, Bluetooth callbacks, work items, button events and resets, with
  the plugin initialised after every reset, the core takes a run of \<open>dev_step\<close>; what leaves
  over the two carriers are that run's replies in order, and the presses are the same. So
  what holds of every run of the core holds on the air. Of flash it needs that only
  saves change it; and carriers must not be inside the core at the same time.
\<close>

theorem whole_device_refines_core:
  assumes "flash_ok P stored" and "start_up P pc e = (out, s)"
    and "run (sys_step P cfg pc stored drift) s ls s'"
  shows "\<exists>e0 dls. stored e0 = stored e \<and> snd s = boot e0 \<and>
    run (dev_step P cfg stored drift) (boot e0) dls (snd s') \<and>
    replies dls = concat (map on_air ls) \<and>
    length (filter presses dls) = length (filter pressed ls)"
proof -
  obtain dls where "run (dev_step P cfg stored drift) (snd s) dls (snd s')" "simulates dls ls"
    using sys_run_simulated [OF assms(1,3)] by blast
  with start_up_core [OF assms(1,2)] show ?thesis
    unfolding simulates_def by (intro exI [of _ "env (snd s)"] exI [of _ dls]) simp
qed

theorem whole_device_refines_core_witness:
  "\<exists>dls. run (dev_step (demo False) full_config w_flash demo_drift) (boot w0) dls demo_5 \<and>
    replies dls = [[kTypeAuthReject], demo_ack, device_response 2 [1, 2], device_response 65 [7]]"
proof -
  obtain e0 dls where "boot w0 = boot e0"
    "run (dev_step (demo False) full_config w_flash demo_drift) (boot e0) dls demo_5"
    "replies dls = concat (map on_air demo_sys_labels)"
    using whole_device_refines_core [OF demo_flash_ok demo_start_up demo_sys_run] by auto
  then show ?thesis using demo_on_air by metis
qed

text \<open>
  C31. On the air, over both carriers and for the whole life of a device whose carriers are
  never inside the core at the same time: the counters of the signed responses increase
  strictly, in the order in which they are sent, so a request captured on one carrier is not
  answered again on the other, nor after a power cycle; and there are no more registration
  acknowledgements than presses of the button. This takes a flash that works (saves succeed
  and stay, loads return what is stored), that is empty at the first boot and in which no
  other component writes the tunnel's settings. Without the condition on the carriers it
  fails even so: C17, C32 and C40.
\<close>

theorem nothing_replayed_on_the_air:
  assumes "flash_reliable P stored" and "drift_keeps_flash stored drift"
    and "stored e ceiling_key = None" and "start_up P pc e = (out, s)"
    and "run (sys_step P cfg pc stored drift) s ls s'"
  shows "sorted_wrt (<) (List.map_filter response_counter (concat (map on_air ls))) \<and>
    length (filter is_ack (concat (map on_air ls))) \<le> length (filter pressed ls)"
  using system_counters [OF assms] system_registrations [OF flash_reliableD(1) [OF assms(1)] assms(4,5)] ..

theorem nothing_replayed_on_the_air_witness:
  "sorted_wrt (<) (List.map_filter response_counter (concat (map on_air demo_sys_labels))) \<and>
   List.map_filter response_counter (concat (map on_air demo_sys_labels)) = [2, 65]"
proof -
  have "w_flash w0 ceiling_key = None" by (simp add: w0_def)
  from nothing_replayed_on_the_air [OF demo_flash_reliable demo_drift_keeps_flash this demo_start_up demo_sys_run]
  show ?thesis unfolding demo_on_air by (simp add: map_filter_simps)
qed

text \<open>
  C27. The work queue is used in order exactly as far as the stack's callbacks come in order.
  When every connection event and write follows a \<open>DoInit\<close> in which \<open>bt_nus_init\<close> succeeded,
  nothing is submitted to a queue that is not running. Conversely one disconnection before
  that, or any at all when \<open>bt_nus_init\<close> fails, does submit to it: the connection callbacks
  are registered from the start, for every connection, the queue is not.
\<close>

theorem work_queue_order:
  assumes "ble_run P cfg evs (b, d) = (cs, b', d')"
  shows "(started_before may_use False evs \<longrightarrow> queue_ok False cs) \<and>
    (\<not> started_before must_use False evs \<longrightarrow> \<not> queue_ok False cs)"
  using ble_run_queue [OF assms] by blast

theorem work_queue_order_witness:
  "\<not> queue_ok False (fst (ble_run (demo False) full_config
     [Ev_Init [] [] (-5) True, Ev_Connected 7 0, Ev_Disconnected] (ble_boot, boot w0)))"
proof -
  let ?evs = "[Ev_Init [] [] (-5) True, Ev_Connected 7 0, Ev_Disconnected]"
  obtain cs b d where r: "ble_run (demo False) full_config ?evs (ble_boot, boot w0) = (cs, b, d)"
    by (metis prod_cases3)
  from work_queue_order [OF r] r show ?thesis by simp
qed

end
