(* ===== verification/Spec2Isabelle.thy ===== *)
theory Spec2Isabelle
  imports Replay_Properties Registration_Properties Protocol_Properties Service_Properties
    Transport_Properties Carrier_Properties System_Properties
begin

text \<open>
  VendorTunnel (\<open>src/lib/tunnel\<close>): an authenticated request/response protocol inside one
  vendor-specific Matter command, with Bluetooth LE as a second carrier.

  \<^bold>\<open>The program.\<close> Two adapters hand byte strings to one core, \<open>tunnel::ProcessRequest\<close>
  (\<open>tunnel_server.cpp\<close>): the Matter cluster callback in the same file and the NUS adapter in
  \<open>tunnel_ble.cpp\<close>. The core dispatches on the first byte to an echo, an identity request, a
  signed request or a client-key registration. It lazily initialises a PSA signer
  (\<open>tunnel_crypto.cpp\<close>) and the identity bundle that binds the signer's key to the device
  attestation certificate (\<open>tunnel_identity.cpp\<close>), and on the first signed request the replay
  guard (\<open>tunnel_replay.cpp\<close>) and the client-key store (\<open>tunnel_client_key.cpp\<close>). What is
  signed or verified is the preimage of \<open>tunnel_envelope.cpp\<close>. At start-up the plugin
  schedules the Bluetooth transport and, in a measurement build, runs the benchmark of
  \<open>tunnel_bench.cpp\<close>. Replay guard and key store persist one setting each.

  \<^bold>\<open>The theories, in the order of the code's layers.\<close>

    \<^item> \<open>Tunnel_Prelude\<close>: bytes, big-endian fields, the native layout of a stored word, list
      lemmas; the locales \<open>prefix_codec\<close> and \<open>fixed_codec\<close> for unambiguous formats.
    \<^item> \<open>Platform\<close>: everything the sources call and the repository does not hold (Zephyr
      settings, PSA Crypto, attestation provider, clock, cycle counter) as a record of
      functions over an abstract outside state, and the named hypotheses about it
      (\<open>flash_ok\<close>, \<open>flash_reliable\<close>, \<open>loads_faithfully\<close>, \<open>lengths_ok\<close>, \<open>keys_ok\<close>).
    \<^item> \<open>Envelope\<close>, \<open>Crypto\<close>, \<open>Replay\<close>, \<open>Identity\<close>, \<open>Client_Key\<close>: one theory per source file of
      the same name; a C++ object is a record, a member function a function on it and the
      outside state, error codes are values. \<open>Replay\<close> states the locale \<open>freshness_guard\<close>,
      \<open>Client_Key\<close> the locale \<open>registration_gate\<close>; both are interpreted on the code's
      functions. \<open>Replay_Life\<close> adds restarts and the natural-number reading of the reservation.
    \<^item> \<open>Core\<close>: the file-level state of \<open>tunnel_server.cpp\<close> as the record \<open>core\<close>, the lazy
      initialisers, one function per arm of the switch, \<open>ProcessRequest\<close>. \<open>Core_Lemmas\<close> gives
      case rules over its exits, \<open>Core_Invariants\<close> the invariants \<open>core_wf\<close> and \<open>keys_inv\<close>,
      \<open>Core_Responses\<close> what a signed response implies and the locale \<open>transport_core\<close> of
      what an adapter needs of the core.
    \<^item> \<open>Matter_Adapter\<close> and \<open>Ble_Adapter\<close>: the cluster callback; the Bluetooth callbacks and
      work handlers over their state, as functions that return the calls they make, and runs
      of any sequence of events. \<open>Ble_Queue\<close>: which of these calls use the work queue, and
      when it runs.
    \<^item> \<open>Device\<close>, \<open>Device_Life\<close>, \<open>Presence\<close>: the device as a step relation (requests, button
      events, outside changes, power cycles, also one inside \<open>Accept\<close>), runs, the locale
      \<open>counter_run\<close> and the invariants over runs.
    \<^item> \<open>Interleaving\<close>: two machines that take steps on a shared state under a schedule.
    \<^item> \<open>Two_Carriers\<close>: the signed-request and registration arms of \<open>tunnel_server.cpp\<close>, with
      \<open>ReplayGuard::Accept\<close> and \<open>ClientKeyStore::Register\<close>, in steps, one per access to a
      static variable, and two carriers that take them under any schedule; alone, the steps
      are the core. \<open>Lazy_Carriers\<close>: in front of them, \<open>EnsureBundle\<close>, \<open>EnsureReplay\<close> and
      \<open>ReplayGuard::Init\<close> in steps, for carriers that find the device asleep.
    \<^item> \<open>Abstract_Protocol\<close>: the protocol without its machinery (the highest spent counter,
      the registered key, the permit of a button press) as the step relation
      \<open>protocol_step\<close>, with a simulation lemma for each operation of the device.
      \<open>Client_Service\<close>: the client's retry at the reported floor, on the locale
      \<open>resync_service\<close>, which the core is shown to provide.
    \<^item> \<open>Identity_Fetch\<close>: the client's loop that fetches the bundle in chunks.
    \<^item> \<open>Bench\<close>, \<open>Startup\<close>: the benchmark and the plugin-init callback.
    \<^item> \<open>Whole_System\<close>: the parts put together as the step relation \<open>sys_step\<close>: start-up after
      every reset, both carriers, the button, and what each event sends; a simulation lemma
      takes every step to steps of \<open>Device\<close>.
    \<^item> \<open>Demo_Platform\<close>: a concrete outside world and a short life of a device in it; every
      witness is evaluated there.
    \<^item> \<open>Replay_Properties\<close> (C11 to C15), \<open>Registration_Properties\<close> (C20, C21),
      \<open>Protocol_Properties\<close> (C22, C23, C25, C26, C28 to C30), \<open>Service_Properties\<close> (C16, C18,
      C24), \<open>Transport_Properties\<close> (C33 to C35, C38), \<open>Carrier_Properties\<close> (C17, C19, C32,
      C36, C39, C40), \<open>System_Properties\<close> (C27, C31, C37) and this theory (C1 to C10): the
      properties.

  \<^bold>\<open>Modelling decisions.\<close> A buffer with its length is a list; a fixed buffer's size appears
  where the code compares against it. Counters, handles and cycle counts are words of their
  width, and every sum or comparison on them is the word's. \<open>size_t\<close> lengths are natural
  numbers: each is a sum of two 16-bit fields and small constants. Build options are a record.
  The core reads its request buffer again at later points (for both preimages and for the
  response); \<open>ProcessRequest_view\<close> takes the contents at each read, and \<open>ProcessRequest\<close> is the
  case of a buffer that stays the same, which is what Matter passes. Over Bluetooth the
  receive callback may overwrite the buffer between two reads. The identity fetch is
  given as many exchanges as it may use: three are enough because the bundle has at most 1200
  bytes and a chunk holds 400. The benchmark loop runs its 20 iterations.

  \<^bold>\<open>What the properties show.\<close> C24: every run of the device is a run of the
  abstract protocol. C37: the whole device, with both carriers and start-up, takes runs of
  the core's device as long as the carriers are not inside the core at once; C31: so on the
  air, too, nothing is answered twice and a press admits at most one registration. C1 to C6:
  signed responses are fresh and authentic, refused peers move nothing but the lazy
  initialisers, honest requests are served; C16: a client that has fallen behind is served
  after one retry. C7 to C10, C20 and C21: registration needs the button, happens at most once
  per press and is certified by signatures that serve for nothing else, and is acknowledged
  also when it is not saved (\<open>one_key_per_opening\<close> says that any sequence of attempts at one
  opening records at most one key, \<open>keyless_device_answers_nothing\<close> what holds before the first
  one); C18: a press, a registration and a signed request in order succeed. C11 to C15: the
  reserved ceiling keeps the floor monotone over restarts and cannot wrap, and what breaks
  when the settings subsystem fails. C22, C23, C25, C26 and C28 to C30: formats are
  unambiguous, the identity bundle and when there is none for good, well-formed replies (and,
  as the lemma \<open>report_is_true\<close>, that the start-up report prints the bundle's lengths). C33 to
  C35: both adapters carry the same protocol, what the shared Bluetooth buffer breaks, and the
  retry bound (as the lemma \<open>ble_run_locks\<close>, that the arbiter is called under the stack lock
  only); C27: when the adapter's work queue is used before it runs. C36, C39, C40, C32, C17,
  C19: carriers that do not overlap are served in turn, also when they wake the device, what
  overlapping breaks, and what it cannot. C38: what the benchmark measures and the lines it
  prints; the lemmas \<open>tamper_check_is_real\<close> and \<open>startup_leaves_settings\<close> say what its negative
  control tests and that start-up writes no setting.

  \<^bold>\<open>Not modelled.\<close> Logging, except for the values it reports. \<open>tunnel_cluster_objects.cpp\<close>
  only includes generated files. \<open>MtuExchanged\<close> only logs.
  The kernel's work queues: the model runs handlers in any order the kernel may choose, and
  more. A reset comes between two events or inside \<open>Accept\<close>; the other saves are the key's in
  \<open>Register\<close> and the first ceiling in \<open>Init\<close>, and a reset around one of these leaves flash as
  a reset before or after a registration, or after a refused request, does. Two carriers on different threads are interleaved inside the lazy initialisers and
  the signed-request and registration arms; \<open>Signer::Init\<close>, \<open>BuildIdentityBundle\<close>,
  \<open>ClientKeyStore::Init\<close> and the single library calls are one step each. The 26 steps given
  to a carrier in C36 are the longest path (17 to get past the initialisers, 9 in an arm). The
  cryptography itself, of which only what \<open>keys_ok\<close> says is used. The example applications,
  \<open>zap\<close>, \<open>measure\<close> and \<open>tools\<close> are configuration, data and scripts.
\<close>

section \<open>Freshness and authenticity of answers\<close>

text \<open>
  C1. Over the whole life of a device whose flash works, from its first boot and through any
  power cycles (also one that interrupts \<open>Accept\<close> between its save and its update of the
  floor), the counters of the signed responses increase strictly. No captured request is
  ever answered a second time.
\<close>

theorem life_counters_increase:
  assumes "flash_reliable P stored" and "drift_keeps_flash stored drift"
    and "stored e ceiling_key = None"
    and "run (dev_step P cfg stored drift) (boot e) ls d"
  shows "sorted_wrt (<) (served_counters ls)"
  unfolding served_counters_def
  using life.run_emits [OF assms(4) device_inv_factory [OF assms(1-3)]] by blast

theorem life_counters_increase_witness:
  "sorted_wrt (<) (served_counters demo_life_labels) \<and> served_counters demo_life_labels = [2, 65]"
  using life_counters_increase [OF demo_flash_reliable demo_drift_keeps_flash _ demo_life_run]
    demo_served by (simp add: w0_def)

text \<open>
  C2. Between two power cycles this needs nothing of the platform: whatever flash and crypto
  do, counters of signed responses increase and stay above the floor the run started with.
\<close>

theorem boot_counters_increase:
  assumes "run (awake_step P cfg stored drift) d ls d'"
  shows "sorted_wrt (<) (served_counters ls) \<and>
    (gReplayReady d \<longrightarrow> (\<forall>c \<in> set (served_counters ls). mFloor (gReplay d) < c))"
  using awake.run_emits [OF assms TrueI, folded served_counters_def]
  by (meson boot_spent_def not_le)

theorem boot_counters_increase_witness:
  "sorted_wrt (<) (served_counters demo_boot_labels) \<and> served_counters demo_boot_labels = [2]"
  using boot_counters_increase [OF demo_awake_run] demo_served by simp

text \<open>
  C3. With client authentication, a signed response is sent only for a request that carries
  a valid Ed25519 signature, under the client key registered at that moment, over the
  request preimage of exactly that counter, that payload and this device's key. In every
  state a device can reach.
\<close>

theorem answers_are_authentic:
  assumes K: "keys_ok P pubkey valid_sig" and D: "drift_keeps_keys pubkey drift"
    and cfg: "CONFIG_TUNNEL_CLIENT_AUTH cfg"
    and R: "run (dev_step P cfg stored drift) (boot e) ls d"
    and P: "ProcessRequest P cfg inp outCap d = ((bs, r), d')"
    and c: "response_counter bs = Some c"
  shows "\<exists>payload csig rest pre. inp = encode_signed c payload csig @ rest \<and>
    BuildPreimage kDirRequest c (gDevicePub d') payload 700 = (CHIP_NO_ERROR, pre) \<and>
    valid_sig PSA_ALG_PURE_EDDSA (Key (gStore d')) pre csig \<and> length (Key (gStore d')) = 32"
proof -
  have inv: "keys_inv pubkey d" "core_wf d" using run_keys [OF K D R] by simp_all
  note P' = P [unfolded ProcessRequest_def]
  obtain n m pre where s: "signed_parse inp = Some (c, n, m)"
    "BuildPreimage kDirRequest c (gDevicePub d') (payload_at inp n) 700 = (CHIP_NO_ERROR, pre)"
    "valid_sig PSA_ALG_PURE_EDDSA (Key (gStore d')) pre (sig_at inp n m)"
    "length (Key (gStore d')) = 32"
    by (rule signed_response_authentic [OF K cfg inv P' c])
  have "inp ! 0 = kTypeSignedRequest" by (rule signed_view_contents [OF P' c])
  from signed_parse_SomeD(1) [OF s(1) this] s(2-4) show ?thesis by blast
qed

theorem answers_are_authentic_witness:
  "\<exists>payload csig rest pre. client_request 65 [7] = encode_signed 65 payload csig @ rest \<and>
    BuildPreimage kDirRequest 65 (gDevicePub demo_5) payload 700 = (CHIP_NO_ERROR, pre) \<and>
    toy_valid PSA_ALG_PURE_EDDSA (Key (gStore demo_5)) pre csig \<and> length (Key (gStore demo_5)) = 32"
  using answers_are_authentic [OF demo_keys_ok demo_drift_keeps_keys _ demo_powered_run demo_third]
  by (simp add: full_config_def)

text \<open>
  C4. A signed response repeats the counter and payload of the request it answers, and its
  signature is the device's over the response preimage of exactly these. Bytes after the
  request's fields have no influence; the payload is at most 256 bytes.
\<close>

theorem answer_certifies_request:
  assumes "ProcessRequest P cfg inp outCap d = ((bs, r), d')" and "response_counter bs = Some c"
  shows "\<exists>payload sig csig rest pre e. inp = encode_signed c payload csig @ rest \<and>
    bs = [kTypeSignedResponse] @ PutU32 c @ put_field payload @ put_field sig \<and>
    BuildPreimage kDirResponse c (gDevicePub d') payload 700 = (CHIP_NO_ERROR, pre) \<and>
    Sign P (gSigner d') pre kSignatureLen e = (0, sig, env d') \<and> length payload \<le> 256"
  by (rule signed_response_contents [OF assms]) blast

theorem answer_certifies_request_witness:
  "\<exists>payload sig csig rest pre e. client_request 2 [1, 2] = encode_signed 2 payload csig @ rest \<and>
    device_response 2 [1, 2] = [kTypeSignedResponse] @ PutU32 2 @ put_field payload @ put_field sig \<and>
    BuildPreimage kDirResponse 2 (gDevicePub demo_4) payload 700 = (CHIP_NO_ERROR, pre) \<and>
    Sign (demo False) (gSigner demo_4) pre kSignatureLen e = (0, sig, env demo_4) \<and>
    length payload \<le> 256"
  by (rule answer_certifies_request [OF demo_second]) simp

text \<open>
  C5. A peer that is refused (\<open>AuthReject\<close>: no key registered, a bad signature, or a
  registration with the window shut) moves nothing itself. Once the replay guard is
  initialised, which the first signed request of a boot does whether or not it is refused,
  everything is as before: the replay guard, the registered key, the window, flash. Before
  that, the only change is that of the lazy initialisers, run on the state the request
  found: no counter is spent and no key recorded. Authenticity is checked before freshness.
  (Flash changes by saves only.)
\<close>

theorem refused_peers_change_nothing:
  assumes F: "flash_ok P stored"
    and P: "ProcessRequest_view P cfg view outCap d = (([kTypeAuthReject], r), d')"
  shows "(gReplayReady d \<longrightarrow> untouched stored d d') \<and>
    (\<exists>d1 d2. EnsureBundle P d = (True, d1) \<and> (d2 = d1 \<or> EnsureReplay P cfg d1 = (True, d2)) \<and>
       untouched stored d2 d')"
proof -
  have "\<exists>d1 d2. EnsureBundle P d = (True, d1) \<and> (d2 = d1 \<or> EnsureReplay P cfg d1 = (True, d2)) \<and>
      untouched stored d2 d'"
    using P
  proof (cases rule: ProcessRequest_view_arms)
    case echo
    then show ?thesis by (auto simp: echo_request_def type_defs split: if_splits)
  next
    case identity
    from identity(3) show ?thesis by (rule identity_request_cases) (auto simp: type_defs)
  next
    case signed
    show ?thesis using unauthenticated_changes_nothing [OF F signed(3)] by metis
  next
    case register
    from register(4) show ?thesis
    proof (cases rule: register_client_key_cases)
      case (refused n d1 err)
      then show ?thesis by (intro exI [of _ d1]) simp
    qed (auto simp: type_defs split: if_splits)
  qed simp
  then obtain d1 d2 where E: "EnsureBundle P d = (True, d1)" "d2 = d1 \<or> EnsureReplay P cfg d1 = (True, d2)"
    and U: "untouched stored d2 d'" by blast
  have "d2 = d1" if "gReplayReady d"
    using E(2) EnsureBundle_frame [OF E(1)] EnsureReplay_ready [of d1 P cfg] that by auto
  with E U show ?thesis using EnsureBundle_untouched [OF F E(1)] untouched_trans by metis
qed

theorem refused_peers_change_nothing_witness:
  "untouched w_flash demo_4 (snd (ProcessRequest (demo True) full_config (encode_signed 3 [1] []) 512 demo_4)) \<and>
   (\<exists>d1 d2. EnsureBundle (demo False) (boot w0) = (True, d1) \<and>
      (d2 = d1 \<or> EnsureReplay (demo False) full_config d1 = (True, d2)) \<and> untouched w_flash d2 demo_1)"
  using refused_peers_change_nothing [OF demo_flash_ok demo_forged [unfolded ProcessRequest_def]]
    refused_peers_change_nothing [OF demo_flash_ok demo_early [unfolded ProcessRequest_def], of False]
    demo_4_env(2) demo_forged [of True]
  by simp

text \<open>
  C6. An honest client is served: in a running device with a registered key, a well-formed
  request whose signature verifies and whose counter lies above the floor and inside the
  reservation is answered with the signed response, and the floor moves to its counter
  without a flash write.
\<close>

theorem honest_request_is_answered:
  assumes cfg: "CONFIG_TUNNEL_SECURITY cfg" "CONFIG_TUNNEL_CLIENT_AUTH cfg"
    and ready: "gBundleLen d \<noteq> 0" "gReplayReady d" "HasKey (gStore d)"
    and len: "length payload \<le> 256" "length csig < 65536" "length payload + 73 \<le> outCap"
    and pre: "BuildPreimage kDirRequest c (gDevicePub d) payload 700 = (CHIP_NO_ERROR, pre)"
    and ver: "store_Verify P pre csig (gStore d) (env d) = (0, ks, e1)"
    and fresh: "mFloor (gReplay d) < c" "c < mCeiling (gReplay d)"
    and sig: "\<And>pre'. BuildPreimage kDirResponse c (gDevicePub d) payload 700 = (CHIP_NO_ERROR, pre') \<Longrightarrow>
      Sign P (gSigner d) pre' kSignatureLen e1 = (0, sig, e2)"
  shows "ProcessRequest P cfg (encode_signed c payload csig) outCap d =
    (([kTypeSignedResponse] @ PutU32 c @ put_field payload @ put_field sig, Reject_None),
     d\<lparr>gStore := ks, gReplay := (gReplay d)\<lparr>mFloor := c\<rparr>, env := e2\<rparr>)"
proof -
  let ?req = "encode_signed c payload csig"
  have p: "length payload < 65536" using len(1) by simp
  note enc = signed_parse_encode [OF p len(2), of c "[]", simplified]
  obtain pre' where pre': "BuildPreimage kDirResponse c (gDevicePub d) payload 700 = (CHIP_NO_ERROR, pre')"
    using BuildPreimage_success_iff pre by (metis fst_conv prod.collapse)
  have acc: "Accept P c (gReplay d) e1 = (CHIP_NO_ERROR, (gReplay d)\<lparr>mFloor := c\<rparr>, e1)"
    using fresh by (simp add: Accept_within_reservation IsFresh_def)
  have "signed_request P cfg (\<lambda>_. ?req) outCap d =
    (([kTypeSignedResponse] @ PutU32 c @ put_u16 (length payload) @ payload_at ?req (length payload)
        @ put_u16 (length sig) @ sig, Reject_None),
     d\<lparr>gStore := ks, gReplay := (gReplay d)\<lparr>mFloor := c\<rparr>, env := e2\<rparr>)"
    by (rule signed_request_answers [where m = "length csig" and pre = pre and pre' = pre'
          and ?e1.0 = e1 and ?e2.0 = e1])
       (use enc ready pre ver acc pre' sig [OF pre'] len cfg in simp_all)
  then show ?thesis
    using cfg(1) enc
    by (simp add: ProcessRequest_def ProcessRequest_view_def Let_def encode_signed_def type_defs
        put_field_def)
qed

theorem honest_request_is_answered_witness:
  "\<exists>bs d'. ProcessRequest (demo False) full_config
     (encode_signed 3 [9] (toy_sig client_key (demo_preimage kDirRequest 3 [9]))) 512 demo_4 =
       (([kTypeSignedResponse] @ bs, Reject_None), d') \<and> mFloor (gReplay d') = 3"
proof -
  have pre: "BuildPreimage dir 3 (gDevicePub demo_4) [9] 700 = (CHIP_NO_ERROR, demo_preimage dir 3 [9])"
    for dir using demo_preimage_BuildPreimage [of "[9]" 700] by (simp add: demo_4_def)
  have len: "length (toy_sig client_key (demo_preimage kDirRequest 3 [9])) < 65536"
    using length_toy_sig(2) [of client_key] by (rule le_less_trans) simp
  have ver: "store_Verify (demo False) m (toy_sig client_key m) (gStore demo_4) (env demo_4) =
      (0, gStore demo_4, env demo_4)" for m
    by (simp add: demo_4_def demo_verify_imported w3_def)
  have sig: "Sign (demo False) (gSigner demo_4) m kSignatureLen (env demo_4) =
      (0, toy_sig demo_device_key m, env demo_4)" for m
    using demo_sign [of w3 False m] by (simp add: demo_4_def w3_def)
  have "ProcessRequest (demo False) full_config
     (encode_signed 3 [9] (toy_sig client_key (demo_preimage kDirRequest 3 [9]))) 512 demo_4 =
    (([kTypeSignedResponse] @ PutU32 3 @ put_field [9]
       @ put_field (toy_sig demo_device_key (demo_preimage kDirResponse 3 [9])), Reject_None),
     demo_4\<lparr>gStore := gStore demo_4, gReplay := (gReplay demo_4)\<lparr>mFloor := 3\<rparr>, env := env demo_4\<rparr>)"
    by (rule honest_request_is_answered [OF _ _ _ _ _ _ len _ pre ver])
       (use pre sig in \<open>auto simp: full_config_def demo_4_def demo_guard_def\<close>)
  then show ?thesis by (simp add: demo_4_def)
qed

section \<open>Registration\<close>

text \<open>
  C7. Physical presence: in a life in which Button 4 is never pressed (it may be released,
  and other buttons pressed) no registration is ever acknowledged, and the device accepts no
  key but the one that was in flash at the first boot. The key in flash stays that one,
  unless something else erases it: \<open>erasable\<close> allows the other components to do so, as a
  factory reset does, and then the device may also end up with no key. What this takes:
  flash changes by saves only, loads return what is stored, and no other component writes a
  client key.
\<close>

theorem no_button_no_registration:
  assumes "flash_ok P stored" "loads_faithfully P stored" "keeps_client_key stored erasable drift"
    and "run (dev_step P cfg stored drift) (boot e) ls d" and "\<not> list_ex presses ls"
  shows "\<not> list_ex acks ls \<and>
    (stored (env d) clientkey_key = stored e clientkey_key \<or>
      (erasable \<and> stored (env d) clientkey_key = None)) \<and>
    (HasKey (gStore d) \<longrightarrow> stored e clientkey_key = Some (Key (gStore d)))"
  using run_undisturbed [OF assms(1-5) undisturbed_boot] by (simp add: undisturbed_def)

theorem no_button_no_registration_witness:
  "w_flash (env demo_5) clientkey_key = w_flash w4 clientkey_key \<and>
   w_flash w4 clientkey_key = Some (Key (gStore demo_5))"
proof -
  let ?l = "L_Request (\<lambda>_. client_request 65 [7]) 512 (device_response 65 [7], Reject_None)"
  have "dev_step (demo False) full_config w_flash demo_drift (boot w4) ?l demo_5"
    by (rule demo_step_request [OF demo_third]) simp
  then have r: "run (dev_step (demo False) full_config w_flash demo_drift) (boot w4) [?l] demo_5"
    by (simp add: run_cons_simp)
  have "HasKey (gStore demo_5)" by (simp add: demo_5_def)
  then show ?thesis
    using no_button_no_registration [OF demo_flash_ok flash_reliableD(4) [OF demo_flash_reliable]
        drift_keeps_flash_client_key [OF demo_drift_keeps_flash, of False] r] by simp
qed

text \<open>
  C8. As long as requests reach the core one at a time, no run of a device acknowledges more
  registrations than there were presses of Button 4, over any number of boots; so of several
  parties racing for one press at most one is told that it won. (With requests on both
  carriers inside the core at once this fails: C32.)
\<close>

theorem one_registration_per_press:
  assumes "run (dev_step P cfg stored drift) (boot e) ls d"
  shows "length (filter acks ls) \<le> length (filter presses ls)"
  using run_credit [OF assms] by (simp add: window_credit_def boot_def new_store_def)

theorem one_registration_per_press_witness:
  "length (filter acks demo_life_labels) \<le> length (filter presses demo_life_labels) \<and>
   length (filter presses demo_life_labels) = 1"
  using one_registration_per_press [OF demo_life_run]
  by (simp add: demo_life_labels_def demo_boot_labels_def kRegisterButtonMask_def)

text \<open>
  C9. A registration is acknowledged only if the window is open at the time the request is
  processed, when the identity bundle has been made ready, and it shuts the window. The
  acknowledgement echoes the key the device now holds, which is the key field of the request,
  and the device signs that key in a response preimage with counter 0. The next verification
  imports the new key.
\<close>

theorem acknowledgement_certifies_key:
  assumes "ProcessRequest P cfg inp cap d = ((bs, r), d')" and "bs \<noteq> []" "bs ! 0 = kTypeRegisterAck"
  shows "\<exists>key sig pre d1 e. key = take (read_u16 (inp ! 1) (inp ! 2)) (drop 3 inp) \<and>
    length key = 32 \<and> Key (gStore d') = key \<and>
    bs = [kTypeRegisterAck] @ put_field key @ put_field sig \<and>
    BuildPreimage kDirResponse 0 (gDevicePub d') key 256 = (CHIP_NO_ERROR, pre) \<and>
    Sign P (gSigner d') pre kSignatureLen e = (0, sig, env d') \<and>
    EnsureBundle P d = (True, d1) \<and> WindowOpen P (gStore d) (env d1) \<and> mWindowUntilMs (gStore d') = 0 \<and> mImported (gStore d') = 0"
proof -
  have "is_ack bs" using assms(2,3) by (simp add: is_ack_def)
  with assms(1) [unfolded ProcessRequest_def] show ?thesis
    by (rule ack_contents) blast
qed

theorem acknowledgement_certifies_key_witness:
  "\<exists>key sig pre d1 e. key = take (read_u16 (register_request ! 1) (register_request ! 2))
      (drop 3 register_request) \<and>
    length key = 32 \<and> Key (gStore demo_3) = key \<and>
    demo_ack = [kTypeRegisterAck] @ put_field key @ put_field sig \<and>
    BuildPreimage kDirResponse 0 (gDevicePub demo_3) key 256 = (CHIP_NO_ERROR, pre) \<and>
    Sign (demo False) (gSigner demo_3) pre kSignatureLen e = (0, sig, env demo_3) \<and>
    EnsureBundle (demo False) demo_2 = (True, d1) \<and>
    WindowOpen (demo False) (gStore demo_2) (env d1) \<and> mWindowUntilMs (gStore demo_3) = 0 \<and>
    mImported (gStore demo_3) = 0"
  unfolding demo_ack_def
  by (rule acknowledgement_certifies_key [OF demo_register]) simp_all

text \<open>
  C10. The signature in an acknowledgement can never pass for the signature in a response,
  nor the other way round, although both sign the response direction. Of any two replies that
  are sent, a signed response and an acknowledgement, by the same device or two, in whatever
  states: what the first device signed for the response is the preimage of no
  acknowledgement, whatever key and device it would be for, and what the second one signed
  for the acknowledgement is the preimage of no response with a counter other than 0, and the
  counter that was answered is not 0.
\<close>

theorem acknowledgement_is_no_answer:
  assumes P: "ProcessRequest P cfg inp cap d = ((bs, r), d')" and c: "response_counter bs = Some c"
    and P2: "ProcessRequest P2 cfg2 inp2 cap2 d2 = ((bs2, r2), d2')" and ack: "is_ack bs2"
  shows "c \<noteq> 0 \<and> (\<exists>payload sig pre e key sig2 pre2 e2.
    bs = [kTypeSignedResponse] @ PutU32 c @ put_field payload @ put_field sig \<and>
    Sign P (gSigner d') pre kSignatureLen e = (0, sig, env d') \<and>
    bs2 = [kTypeRegisterAck] @ put_field key @ put_field sig2 \<and>
    Sign P2 (gSigner d2') pre2 kSignatureLen e2 = (0, sig2, env d2') \<and>
    pre \<noteq> pre2 \<and>
    (\<forall>k key'. BuildPreimage kDirResponse 0 k key' 256 \<noteq> (CHIP_NO_ERROR, pre)) \<and>
    (\<forall>c' k p. c' \<noteq> 0 \<longrightarrow> BuildPreimage kDirResponse c' k p 700 \<noteq> (CHIP_NO_ERROR, pre2)))"
proof -
  have "mFloor (gReplay d3) < c \<Longrightarrow> c \<noteq> 0" for d3 :: "'a core"
    using word_not_simps(1) by blast
  then have c0: "c \<noteq> 0"
    using signed_reply_guard [OF P [unfolded ProcessRequest_def] c, where Q = "\<lambda>_. True"] by blast
  obtain payload sig pre e where resp: "bs = [kTypeSignedResponse] @ PutU32 c @ put_field payload @ put_field sig"
    "BuildPreimage kDirResponse c (gDevicePub d') payload 700 = (CHIP_NO_ERROR, pre)"
    "Sign P (gSigner d') pre kSignatureLen e = (0, sig, env d')"
    by (rule signed_response_contents [OF P c]) blast
  obtain key sig2 pre2 e2 where reg: "bs2 = [kTypeRegisterAck] @ put_field key @ put_field sig2"
    "BuildPreimage kDirResponse 0 (gDevicePub d2') key 256 = (CHIP_NO_ERROR, pre2)"
    "Sign P2 (gSigner d2') pre2 kSignatureLen e2 = (0, sig2, env d2')"
    by (rule ack_contents [OF P2 [unfolded ProcessRequest_def] ack]) blast
  have 1: "BuildPreimage kDirResponse 0 k key' 256 \<noteq> (CHIP_NO_ERROR, pre)" for k key'
    using BuildPreimage_counter [OF resp(2), of kDirResponse 0 k key' 256] c0 by auto
  have 2: "BuildPreimage kDirResponse c' k p 700 \<noteq> (CHIP_NO_ERROR, pre2)" if "c' \<noteq> 0" for c' k p
    using BuildPreimage_counter [OF reg(2), of kDirResponse c' k p 700] that by auto
  from 1 reg(2) have "pre \<noteq> pre2" by auto
  with c0 resp(1,3) reg(1,3) 1 2 show ?thesis by blast
qed

theorem acknowledgement_is_no_answer_witness:
  "\<exists>payload sig pre key sig2 pre2.
    device_response 2 [1, 2] = [kTypeSignedResponse] @ PutU32 2 @ put_field payload @ put_field sig \<and>
    demo_ack = [kTypeRegisterAck] @ put_field key @ put_field sig2 \<and> pre \<noteq> pre2 \<and>
    (\<exists>e. Sign (demo False) (gSigner demo_4) pre kSignatureLen e = (0, sig, env demo_4)) \<and>
    (\<exists>e. Sign (demo False) (gSigner demo_3) pre2 kSignatureLen e = (0, sig2, env demo_3))"
proof -
  have "is_ack demo_ack" by (simp add: is_ack_def demo_ack_def)
  from acknowledgement_is_no_answer [OF demo_second [of False] response_counter_device_response
      demo_register [folded demo_ack_def] this, THEN conjunct2]
  show ?thesis by (elim exE conjE) (intro exI conjI; assumption)
qed

end
